(* ===== verification/Prelude.thy ===== *)
theory Prelude
  imports Complex_Main "HOL-Library.Word" "HOL-Library.Sublist"
begin

text \<open>
  Vocabulary shared by every component of the signer model.

  A Rust \<^verbatim>\<open>&str\<close>, \<^verbatim>\<open>String\<close>, \<^verbatim>\<open>&[u8]\<close> or \<^verbatim>\<open>Vec<u8>\<close> is a list of bytes, and HOL's
  type \<^typ>\<open>char\<close> is exactly an 8-bit byte, so all of them are \<^typ>\<open>char list\<close>.
  A Rust \<^verbatim>\<open>Result<A, E>\<close> is the sum type with the error on the left.  The
  theory holds the parts of the Rust standard library the sources call
  (ASCII classes, \<^verbatim>\<open>split\<close>, \<^verbatim>\<open>split_once\<close>, \<^verbatim>\<open>trim\<close>, \<^verbatim>\<open>to_be_bytes\<close>, decimal
  formatting) and the generic lemmas about them, together with the
  interface of self-delimiting encoders that the signed messages rest on.
\<close>

type_synonym bytes = "char list"

type_synonym ('e, 'a) result = "'e + 'a"

abbreviation Ok :: "'a \<Rightarrow> ('e, 'a) result" where
  "Ok \<equiv> Inr"

abbreviation Err :: "'e \<Rightarrow> ('e, 'a) result" where
  "Err \<equiv> Inl"

named_theorems rust_std
  \<open>definitions of the modelled Rust standard library, for evaluation\<close>

named_theorems result_simps
  \<open>case analysis on results\<close>


section \<open>Results\<close>

text \<open>The \<^verbatim>\<open>?\<close> operator: propagate the error, continue with the value.\<close>

fun try_res :: "('e, 'a) result \<Rightarrow> ('a \<Rightarrow> ('e, 'b) result) \<Rightarrow> ('e, 'b) result" where
  "try_res (Inl e) f = Inl e"
| "try_res (Inr x) f = f x"

text \<open>\<^verbatim>\<open>map_err\<close> and \<^verbatim>\<open>ok_or\<close>.\<close>

fun map_err :: "('e \<Rightarrow> 'f) \<Rightarrow> ('e, 'a) result \<Rightarrow> ('f, 'a) result" where
  "map_err g (Inl e) = Inl (g e)"
| "map_err g (Inr x) = Inr x"

fun ok_or :: "'e \<Rightarrow> 'a option \<Rightarrow> ('e, 'a) result" where
  "ok_or e None = Inl e"
| "ok_or e (Some x) = Inr x"

fun is_ok :: "('e, 'a) result \<Rightarrow> bool" where
  "is_ok (Inl e) = False"
| "is_ok (Inr x) = True"

lemma try_res_Inr [result_simps]:
  "try_res m f = Inr b \<longleftrightarrow> (\<exists>a. m = Inr a \<and> f a = Inr b)"
  by (cases m) auto

lemma try_res_Inl [result_simps]:
  "try_res m f = Inl e \<longleftrightarrow> m = Inl e \<or> (\<exists>a. m = Inr a \<and> f a = Inl e)"
  by (cases m) auto

lemma map_err_Inr [result_simps]: "map_err g m = Inr b \<longleftrightarrow> m = Inr b"
  by (cases m) auto

lemma map_err_Inl [result_simps]: "map_err g m = Inl f \<longleftrightarrow> (\<exists>e. m = Inl e \<and> f = g e)"
  by (cases m) auto

lemma ok_or_Inr [result_simps]: "ok_or e m = Inr b \<longleftrightarrow> m = Some b"
  by (cases m) auto

lemma ok_or_Inl [result_simps]: "ok_or e m = Inl f \<longleftrightarrow> m = None \<and> f = e"
  by (cases m) auto

lemma is_ok_iff [result_simps]: "is_ok m \<longleftrightarrow> (\<exists>x. m = Inr x)"
  by (cases m) auto

text \<open>\<^verbatim>\<open>std::cmp::Ordering\<close>.\<close>

datatype ordering = Less | Equal | Greater

definition cmp_of :: "'a::linorder \<Rightarrow> 'a \<Rightarrow> ordering" where
  "cmp_of a b = (if a < b then Less else if a = b then Equal else Greater)"

lemma cmp_of_Greater [simp]: "cmp_of a b = Greater \<longleftrightarrow> b < a"
  by (auto simp: cmp_of_def)

lemma cmp_of_Less [simp]: "cmp_of a b = Less \<longleftrightarrow> a < b"
  by (auto simp: cmp_of_def)

lemma cmp_of_Equal [simp]: "cmp_of a b = Equal \<longleftrightarrow> a = b"
  by (auto simp: cmp_of_def)


section \<open>Bytes and ASCII classes\<close>

abbreviation byte :: "char \<Rightarrow> nat" where
  "byte c \<equiv> of_char c"

definition is_ascii_digit :: "char \<Rightarrow> bool" where
  [rust_std]: "is_ascii_digit c \<longleftrightarrow> 48 \<le> byte c \<and> byte c \<le> 57"

definition is_ascii_upper :: "char \<Rightarrow> bool" where
  [rust_std]: "is_ascii_upper c \<longleftrightarrow> 65 \<le> byte c \<and> byte c \<le> 90"

definition is_ascii_lower :: "char \<Rightarrow> bool" where
  [rust_std]: "is_ascii_lower c \<longleftrightarrow> 97 \<le> byte c \<and> byte c \<le> 122"

definition is_ascii_alphanumeric :: "char \<Rightarrow> bool" where
  [rust_std]: "is_ascii_alphanumeric c \<longleftrightarrow> is_ascii_digit c \<or> is_ascii_upper c \<or> is_ascii_lower c"

definition is_ascii_hexdigit :: "char \<Rightarrow> bool" where
  [rust_std]: "is_ascii_hexdigit c \<longleftrightarrow>
     is_ascii_digit c \<or> (65 \<le> byte c \<and> byte c \<le> 70) \<or> (97 \<le> byte c \<and> byte c \<le> 102)"

definition to_ascii_uppercase :: "bytes \<Rightarrow> bytes" where
  [rust_std]: "to_ascii_uppercase = map (\<lambda>c. if is_ascii_lower c then char_of (byte c - 32) else c)"

definition to_ascii_lowercase :: "bytes \<Rightarrow> bytes" where
  [rust_std]: "to_ascii_lowercase = map (\<lambda>c. if is_ascii_upper c then char_of (byte c + 32) else c)"

definition eq_ignore_ascii_case :: "bytes \<Rightarrow> bytes \<Rightarrow> bool" where
  [rust_std]: "eq_ignore_ascii_case s t \<longleftrightarrow> to_ascii_lowercase s = to_ascii_lowercase t"

lemma byte_inject [simp]: "byte c = byte d \<longleftrightarrow> c = d"
  by (metis char_of_char)

lemma digit_byte_minus: "is_ascii_digit c \<Longrightarrow> byte c - 48 < 10"
  by (auto simp: is_ascii_digit_def)


section \<open>Splitting and trimming\<close>

text \<open>
  \<^verbatim>\<open>str::split\<close> on a character: always at least one piece.  \<^verbatim>\<open>str::split_once\<close>:
  the pieces around the first occurrence.  \<^verbatim>\<open>str::strip_prefix\<close>.
\<close>

fun split_on :: "char \<Rightarrow> bytes \<Rightarrow> bytes list" where
  "split_on c [] = [[]]"
| "split_on c (x # xs) =
     (if x = c then [] # split_on c xs
      else (case split_on c xs of [] \<Rightarrow> [[x]] | p # ps \<Rightarrow> (x # p) # ps))"

fun split_once :: "char \<Rightarrow> bytes \<Rightarrow> (bytes \<times> bytes) option" where
  "split_once c [] = None"
| "split_once c (x # xs) =
     (if x = c then Some ([], xs)
      else (case split_once c xs of None \<Rightarrow> None | Some (a, b) \<Rightarrow> Some (x # a, b)))"

fun starts_with :: "bytes \<Rightarrow> bytes \<Rightarrow> bool" where
  "starts_with s [] = True"
| "starts_with [] (p # ps) = False"
| "starts_with (x # xs) (p # ps) = (x = p \<and> starts_with xs ps)"

definition ends_with :: "bytes \<Rightarrow> bytes \<Rightarrow> bool" where
  [rust_std]: "ends_with s p = starts_with (rev s) (rev p)"

definition strip_prefix :: "bytes \<Rightarrow> bytes \<Rightarrow> bytes option" where
  [rust_std]: "strip_prefix s p = (if starts_with s p then Some (drop (length p) s) else None)"

lemma starts_with_prefix: "starts_with s p \<longleftrightarrow> prefix p s"
  by (induction s p rule: starts_with.induct) auto

lemma starts_with_iff: "starts_with s p \<longleftrightarrow> (\<exists>r. s = p @ r)"
  by (auto simp: starts_with_prefix prefix_def)

lemma ends_with_iff: "ends_with s p \<longleftrightarrow> (\<exists>r. s = r @ p)"
proof -
  have "ends_with s p \<longleftrightarrow> (\<exists>r. rev s = rev p @ r)"
    by (simp add: ends_with_def starts_with_iff)
  also have "\<dots> \<longleftrightarrow> (\<exists>r. s = r @ p)"
    by (metis rev_append rev_rev_ident)
  finally show ?thesis .
qed

lemma split_once_None: "split_once c s = None \<longleftrightarrow> c \<notin> set s"
  by (induction s) (auto split: option.splits)

lemma split_once_append: "c \<notin> set a \<Longrightarrow> split_once c (a @ c # b) = Some (a, b)"
  by (induction a) auto

lemma split_once_SomeD: "split_once c s = Some (a, b) \<Longrightarrow> s = a @ c # b \<and> c \<notin> set a"
  by (induction s arbitrary: a) (auto split: option.splits if_splits)

lemma split_once_Some:
  "split_once c s = Some (a, b) \<longleftrightarrow> s = a @ c # b \<and> c \<notin> set a"
  using split_once_append split_once_SomeD by blast

lemma sep_cancel:
  fixes c :: char
  shows
  "c \<notin> set a \<Longrightarrow> c \<notin> set b \<Longrightarrow> a @ c # r = b @ c # s \<longleftrightarrow> a = b \<and> r = s"
  by (metis option.inject prod.inject split_once_append)

lemma split_on_not_Nil [simp]: "split_on c s \<noteq> []"
  by (cases s) (auto split: list.splits)

lemma split_on_notin: "c \<notin> set s \<Longrightarrow> split_on c s = [s]"
  by (induction s) auto

lemma split_on_append:
  "c \<notin> set a \<Longrightarrow> split_on c (a @ c # b) = a # split_on c b"
  by (induction a) auto

lemma split_on_pieces: "p \<in> set (split_on c s) \<Longrightarrow> c \<notin> set p"
  by (induction s arbitrary: p) (auto split: list.splits if_splits)

text \<open>Joining with the separator is a left inverse of splitting.\<close>

fun join_with :: "bytes \<Rightarrow> bytes list \<Rightarrow> bytes" where
  "join_with c [] = []"
| "join_with c [p] = p"
| "join_with c (p # q # ps) = p @ c @ join_with c (q # ps)"

lemma split_on_join:
  "ps \<noteq> [] \<Longrightarrow> \<forall>p \<in> set ps. c \<notin> set p \<Longrightarrow> split_on c (join_with [c] ps) = ps"
  by (induction "[c]" ps rule: join_with.induct) (auto simp: split_on_notin split_on_append)

text \<open>
  \<^verbatim>\<open>str::trim\<close> removes leading and trailing code points with the Unicode
  property White\_Space; their UTF-8 encodings are listed here.
\<close>

definition ws_seqs :: "nat list list" where
  "ws_seqs = map (\<lambda>b. [b]) [9, 10, 11, 12, 13, 32]
     @ [[0xC2, 0x85], [0xC2, 0xA0], [0xE1, 0x9A, 0x80]]
     @ map (\<lambda>b. [0xE2, 0x80, b]) [0x80, 0x81, 0x82, 0x83, 0x84, 0x85, 0x86, 0x87, 0x88, 0x89, 0x8A,
                                0xA8, 0xA9, 0xAF]
     @ [[0xE2, 0x81, 0x9F], [0xE3, 0x80, 0x80]]"

definition ws_prefix_len :: "nat list list \<Rightarrow> bytes \<Rightarrow> nat" where
  "ws_prefix_len seqs s =
     (case find (\<lambda>w. starts_with s (map char_of w)) seqs of None \<Rightarrow> 0 | Some w \<Rightarrow> length w)"

fun trim_fuel :: "nat list list \<Rightarrow> nat \<Rightarrow> bytes \<Rightarrow> bytes" where
  "trim_fuel seqs 0 s = s"
| "trim_fuel seqs (Suc n) s =
     (let k = ws_prefix_len seqs s in if k = 0 then s else trim_fuel seqs n (drop k s))"

definition trim_start :: "bytes \<Rightarrow> bytes" where
  "trim_start s = trim_fuel ws_seqs (length s) s"

definition trim_end :: "bytes \<Rightarrow> bytes" where
  "trim_end s = rev (trim_fuel (map rev ws_seqs) (length s) (rev s))"

definition trim :: "bytes \<Rightarrow> bytes" where
  "trim s = trim_end (trim_start s)"

text \<open>A string that starts and ends with visible ASCII is its own trimming.\<close>

definition graphic :: "char \<Rightarrow> bool" where
  "graphic c \<longleftrightarrow> 33 \<le> byte c \<and> byte c \<le> 126"

definition not_graphic :: "nat \<Rightarrow> bool" where
  "not_graphic b \<longleftrightarrow> b < 256 \<and> (b < 33 \<or> 126 < b)"

lemma ws_prefix_len_graphic:
  assumes "s \<noteq> [] \<Longrightarrow> graphic (hd s)" "list_all (\<lambda>w. w \<noteq> [] \<and> not_graphic (hd w)) seqs"
  shows "ws_prefix_len seqs s = 0"
proof -
  have "\<not> starts_with s (map char_of w)" if "w \<in> set seqs" for w
  proof -
    have "w \<noteq> [] \<and> not_graphic (hd w)"
      using assms(2) that by (simp add: list_all_iff)
    then obtain b w' where w: "w = b # w'" "not_graphic b"
      by (cases w) simp_all
    show ?thesis
      using assms(1) w by (cases s) (auto simp: graphic_def not_graphic_def)
  qed
  then have "find (\<lambda>w. starts_with s (map char_of w)) seqs = None"
    by (auto simp: find_None_iff)
  then show ?thesis
    by (simp add: ws_prefix_len_def)
qed

lemma trim_fuel_graphic:
  "(s \<noteq> [] \<Longrightarrow> graphic (hd s)) \<Longrightarrow> list_all (\<lambda>w. w \<noteq> [] \<and> not_graphic (hd w)) seqs \<Longrightarrow> trim_fuel seqs n s = s"
  by (cases n) (simp_all add: ws_prefix_len_graphic)

lemma ws_seqs_not_graphic:
  "list_all (\<lambda>w. w \<noteq> [] \<and> not_graphic (hd w)) ws_seqs"
  "list_all (\<lambda>w. w \<noteq> [] \<and> not_graphic (hd w)) (map rev ws_seqs)"
  by (simp_all add: ws_seqs_def not_graphic_def)

lemma trim_graphic:
  assumes "s \<noteq> [] \<Longrightarrow> graphic (hd s) \<and> graphic (last s)"
  shows "trim s = s"
proof -
  have "trim_start s = s"
    unfolding trim_start_def using assms ws_seqs_not_graphic(1) by (intro trim_fuel_graphic) auto
  moreover have "trim_fuel (map rev ws_seqs) n (rev s) = rev s" for n
    using assms ws_seqs_not_graphic(2) by (intro trim_fuel_graphic) (auto simp: hd_rev)
  ultimately show ?thesis
    by (simp add: trim_def trim_end_def)
qed

text \<open>\<^verbatim>\<open>chars().count()\<close>: the bytes that are not UTF-8 continuation bytes.\<close>

definition chars_count :: "bytes \<Rightarrow> nat" where
  "chars_count s = length (filter (\<lambda>c. \<not> (128 \<le> byte c \<and> byte c < 192)) s)"


section \<open>Integer encodings\<close>

text \<open>
  \<^verbatim>\<open>to_be_bytes\<close> and \<^verbatim>\<open>to_le_bytes\<close> of an unsigned integer of \<open>n\<close> bytes.  A value
  that does not fit is truncated to its low bytes, which is what an
  \<^verbatim>\<open>as u32\<close> or \<^verbatim>\<open>as u64\<close> cast in front of the call does.
\<close>

fun le_bytes :: "nat \<Rightarrow> nat \<Rightarrow> bytes" where
  "le_bytes 0 x = []"
| "le_bytes (Suc n) x = char_of (x mod 256) # le_bytes n (x div 256)"

definition be_bytes :: "nat \<Rightarrow> nat \<Rightarrow> bytes" where
  [rust_std]: "be_bytes n x = rev (le_bytes n x)"

lemma le_bytes_length [simp]: "length (le_bytes n x) = n"
  by (induction n arbitrary: x) auto

lemma be_bytes_length [simp]: "length (be_bytes n x) = n"
  by (simp add: be_bytes_def)

lemma le_bytes_inj: "x < 256 ^ n \<Longrightarrow> y < 256 ^ n \<Longrightarrow> le_bytes n x = le_bytes n y \<Longrightarrow> x = y"
proof (induction n arbitrary: x y)
  case 0
  then show ?case by simp
next
  case (Suc n)
  have "x div 256 < 256 ^ n" "y div 256 < 256 ^ n"
    using Suc.prems by (auto simp: div_less_iff_less_mult mult.commute)
  moreover from Suc.prems(3) have "(char_of (x mod 256) :: char) = char_of (y mod 256)"
    and tails: "le_bytes n (x div 256) = le_bytes n (y div 256)"
    by auto
  then have "x mod 256 = y mod 256"
    by (metis mod_mod_trivial of_char_of)
  ultimately show ?case
    using Suc.IH tails by (metis div_mult_mod_eq)
qed

lemma be_bytes_inj: "x < 256 ^ n \<Longrightarrow> y < 256 ^ n \<Longrightarrow> be_bytes n x = be_bytes n y \<Longrightarrow> x = y"
  by (auto simp: be_bytes_def dest: le_bytes_inj)

text \<open>Display of an unsigned integer in base ten, and the value of a digit string.\<close>

fun show_nat :: "nat \<Rightarrow> bytes" where
  "show_nat n = (if n < 10 then [char_of (48 + n)]
                 else show_nat (n div 10) @ [char_of (48 + n mod 10)])"

declare show_nat.simps [simp del]

definition digit_val :: "char \<Rightarrow> nat" where
  [rust_std]: "digit_val c = byte c - 48"

definition dec_val :: "bytes \<Rightarrow> nat" where
  "dec_val s = foldl (\<lambda>n c. 10 * n + digit_val c) 0 s"

lemma dec_val_Nil [simp]: "dec_val [] = 0"
  by (simp add: dec_val_def)

lemma dec_val_snoc [simp]: "dec_val (s @ [c]) = 10 * dec_val s + digit_val c"
  by (simp add: dec_val_def)

lemma dec_val_append: "dec_val (s @ t) = dec_val s * 10 ^ length t + dec_val t"
proof (induction t rule: rev_induct)
  case Nil
  show ?case by simp
next
  case (snoc c t)
  show ?case
    using snoc by (simp flip: append_assoc add: algebra_simps)
qed

lemma dec_val_show_nat [simp]: "dec_val (show_nat n) = n"
  by (induction n rule: show_nat.induct)
     (subst show_nat.simps, auto simp: dec_val_def digit_val_def)

lemma show_nat_digits: "c \<in> set (show_nat n) \<Longrightarrow> is_ascii_digit c"
proof (induction n rule: show_nat.induct)
  case (1 n)
  then show ?case
    by (subst (asm) (2) show_nat.simps) (auto simp: is_ascii_digit_def split: if_splits)
qed

lemma show_nat_inj [simp]: "show_nat m = show_nat n \<longleftrightarrow> m = n"
  by (metis dec_val_show_nat)

lemma show_nat_not_Nil [simp]: "show_nat n \<noteq> []"
  by (subst show_nat.simps) simp


section \<open>Self-delimiting encoders\<close>

text \<open>
  The contract that makes a concatenation of encoded fields unambiguous: an
  encoded field can be cancelled from the front of a longer message.
\<close>

locale self_delimiting =
  fixes enc :: "'a \<Rightarrow> bytes"
    and ok :: "'a \<Rightarrow> bool"
  assumes cancel: "ok x \<Longrightarrow> ok y \<Longrightarrow> enc x @ r = enc y @ s \<Longrightarrow> x = y \<and> r = s"
begin

lemma cancel_iff: "ok x \<Longrightarrow> ok y \<Longrightarrow> enc x @ r = enc y @ s \<longleftrightarrow> x = y \<and> r = s"
  using cancel by blast

lemma inj: "ok x \<Longrightarrow> ok y \<Longrightarrow> enc x = enc y \<longleftrightarrow> x = y"
  using cancel_iff [of x y "[]" "[]"] by simp

lemma concat_cancel:
  assumes "length xs = length ys" "\<forall>x \<in> set xs. ok x" "\<forall>y \<in> set ys. ok y"
    and "concat (map enc xs) @ r = concat (map enc ys) @ s"
  shows "xs = ys \<and> r = s"
  using assms
proof (induction xs ys rule: list_induct2)
  case Nil
  then show ?case by simp
next
  case (Cons x xs y ys)
  then show ?case
    using cancel_iff [of x y] by simp
qed

end

text \<open>Fixed-width big-endian and little-endian integers.\<close>

definition fits :: "nat \<Rightarrow> nat \<Rightarrow> bool" where
  [rust_std]: "fits n x \<longleftrightarrow> x < 256 ^ n"

interpretation be: self_delimiting "be_bytes n" "fits n" for n
  by unfold_locales (auto simp: fits_def dest: be_bytes_inj)

interpretation le: self_delimiting "le_bytes n" "fits n" for n
  by unfold_locales (auto simp: fits_def dest: le_bytes_inj)

text \<open>A field behind a big-endian length prefix of \<open>n\<close> bytes.\<close>

definition len_prefixed :: "nat \<Rightarrow> bytes \<Rightarrow> bytes" where
  [rust_std]: "len_prefixed n s = be_bytes n (length s) @ s"

definition len_fits :: "nat \<Rightarrow> bytes \<Rightarrow> bool" where
  [rust_std]: "len_fits n s \<longleftrightarrow> fits n (length s)"

interpretation lp: self_delimiting "len_prefixed n" "len_fits n" for n
proof unfold_locales
  fix x y r s
  assume fit: "len_fits n x" "len_fits n y"
    and eq: "len_prefixed n x @ r = len_prefixed n y @ s"
  then have "length x = length y \<and> x @ r = y @ s"
    using be.cancel_iff [of n "length x" "length y" "x @ r" "y @ s"]
    by (simp add: len_prefixed_def len_fits_def)
  then show "x = y \<and> r = s"
    by (metis append_eq_append_conv)
qed

end
