(* ===== verification/Canonical.thy ===== *)
theory Canonical
  imports Prelude "HOL-Library.List_Lexorder" "HOL-Library.Char_ord"
begin

text \<open>
  JSON values as \<^verbatim>\<open>serde_json\<close> holds them (with \<^verbatim>\<open>preserve_order\<close>: objects are
  lists of entries) and the canonical serialisation of
  \<^verbatim>\<open>enclave/src/signer.rs\<close>: \<^verbatim>\<open>canonical_v1\<close>, \<^verbatim>\<open>jcs_string\<close>, the rejection of
  duplicate keys and the domain-tagged digest of attested data.  The text
  parser itself belongs to \<^verbatim>\<open>serde_json\<close>; what the sources add to it is modelled
  on the tree it delivers.  The main result is that the canonical bytes
  determine the value up to the order of object members.
\<close>

section \<open>Values\<close>

datatype json_number = PosInt "64 word" | NegInt "64 word" | FloatBits "64 word"

datatype json =
    Null
  | Bool bool
  | Number json_number
  | String bytes
  | Array "json list"
  | Object "(bytes \<times> json) list"

text \<open>\<^verbatim>\<open>Value::get\<close>, \<^verbatim>\<open>as_str\<close>, \<^verbatim>\<open>as_u64\<close>, \<^verbatim>\<open>as_array\<close>, \<^verbatim>\<open>as_object\<close>.\<close>

fun json_get :: "bytes \<Rightarrow> json \<Rightarrow> json option" where
  "json_get k (Object kvs) = map_of kvs k"
| "json_get k _ = None"

fun as_str :: "json \<Rightarrow> bytes option" where
  "as_str (String s) = Some s"
| "as_str _ = None"

fun as_u64 :: "json \<Rightarrow> 64 word option" where
  "as_u64 (Number (PosInt n)) = Some n"
| "as_u64 _ = None"

fun as_array :: "json \<Rightarrow> json list option" where
  "as_array (Array xs) = Some xs"
| "as_array _ = None"

text \<open>
  The duplicate-key visitor of \<^verbatim>\<open>parse_json_no_dup_keys\<close> on the stream of members
  in document order: a repeated key at any depth is an error.
\<close>

fun no_dup :: "json \<Rightarrow> bool" where
  "no_dup (Array xs) = list_all no_dup xs"
| "no_dup (Object kvs) = (distinct (map fst kvs) \<and> list_all (\<lambda>(k, v). no_dup v) kvs)"
| "no_dup _ = True"

definition parse_json_no_dup_keys :: "(bytes \<Rightarrow> json option) \<Rightarrow> bytes \<Rightarrow> json option" where
  "parse_json_no_dup_keys json_document s =
     (case json_document s of None \<Rightarrow> None | Some v \<Rightarrow> if no_dup v then Some v else None)"


section \<open>UTF-16 order of keys\<close>

text \<open>The UTF-16 code units of a UTF-8 string.\<close>

definition utf16_units :: "nat \<Rightarrow> nat list" where
  "utf16_units cp =
     (if cp < 0x10000 then [cp]
      else [0xD800 + (cp - 0x10000) div 0x400, 0xDC00 + (cp - 0x10000) mod 0x400])"

fun encode_utf16 :: "bytes \<Rightarrow> nat list" where
  "encode_utf16 [] = []"
| "encode_utf16 (a # s) =
     (if byte a < 0x80 then utf16_units (byte a) @ encode_utf16 s
      else if byte a < 0xE0 then
        utf16_units ((byte a mod 0x20) * 0x40 + byte (hd (s @ [a])) mod 0x40) @ encode_utf16 (drop 1 s)
      else if byte a < 0xF0 then
        utf16_units ((byte a mod 0x10) * 0x1000 + (byte ((s @ [a]) ! 0) mod 0x40) * 0x40
          + byte ((s @ [a, a]) ! 1) mod 0x40) @ encode_utf16 (drop 2 s)
      else
        utf16_units ((byte a mod 8) * 0x40000 + (byte ((s @ [a]) ! 0) mod 0x40) * 0x1000
          + (byte ((s @ [a, a]) ! 1) mod 0x40) * 0x40 + byte ((s @ [a, a, a]) ! 2) mod 0x40)
          @ encode_utf16 (drop 3 s))"


section \<open>Serialisation\<close>

definition hex_digit :: "nat \<Rightarrow> char" where
  "hex_digit n = (if n < 10 then char_of (48 + n) else char_of (87 + n))"

text \<open>
  The escape of one character.  Only ASCII characters are escaped, so the
  match of \<^verbatim>\<open>jcs_string\<close> on code points is a match on bytes.
\<close>

definition jcs_char :: "char \<Rightarrow> bytes" where
  "jcs_char c =
     (if c = CHR 0x22 then [CHR 0x5C, CHR 0x22]
      else if c = CHR 0x5C then [CHR 0x5C, CHR 0x5C]
      else if c = CHR 0x08 then [CHR 0x5C, CHR ''b'']
      else if c = CHR 0x09 then [CHR 0x5C, CHR ''t'']
      else if c = CHR 0x0A then [CHR 0x5C, CHR ''n'']
      else if c = CHR 0x0C then [CHR 0x5C, CHR ''f'']
      else if c = CHR 0x0D then [CHR 0x5C, CHR ''r'']
      else if byte c < 0x20 then
        [CHR 0x5C, CHR ''u'', CHR ''0'', CHR ''0'', hex_digit (byte c div 16), hex_digit (byte c mod 16)]
      else [c])"

definition jcs_string :: "bytes \<Rightarrow> bytes" where
  "jcs_string s = CHR 0x22 # concat (map jcs_char s) @ [CHR 0x22]"

datatype canonical_error = NumberForbidden

fun sequence_results :: "('e, 'a) result list \<Rightarrow> ('e, 'a list) result" where
  "sequence_results [] = Ok []"
| "sequence_results (r # rs) = try_res r (\<lambda>x. try_res (sequence_results rs) (\<lambda>xs. Ok (x # xs)))"

fun canonical_v1 :: "json \<Rightarrow> (canonical_error, bytes) result" where
  "canonical_v1 Null = Ok ''null''"
| "canonical_v1 (Bool b) = Ok (if b then ''true'' else ''false'')"
| "canonical_v1 (Number n) = Err NumberForbidden"
| "canonical_v1 (String s) = Ok (jcs_string s)"
| "canonical_v1 (Array xs) =
     try_res (sequence_results (map canonical_v1 xs)) (\<lambda>ps. Ok (''['' @ join_with '','' ps @ '']''))"
| "canonical_v1 (Object kvs) =
     try_res (sequence_results (map (\<lambda>(k, v). try_res (canonical_v1 v) (\<lambda>b. Ok (k, b))) kvs)) (\<lambda>ps.
       Ok (''{'' @ join_with '','' (map (\<lambda>(k, b). jcs_string k @ '':'' @ b)
                                (sort_key (\<lambda>p. encode_utf16 (fst p)) ps)) @ ''}''))"

definition ATTESTED_DATA_DOMAIN_V1 :: bytes where
  "ATTESTED_DATA_DOMAIN_V1 = ''usenami-attested-data-v1''"

definition attested_data_preimage :: "bytes \<Rightarrow> bytes" where
  "attested_data_preimage canonical = ATTESTED_DATA_DOMAIN_V1 @ canonical"

definition attested_data_digest_v1 :: "(bytes \<Rightarrow> bytes) \<Rightarrow> bytes \<Rightarrow> bytes" where
  "attested_data_digest_v1 keccak256 canonical = keccak256 (attested_data_preimage canonical)"


section \<open>The canonical bytes determine the value\<close>

text \<open>
  A value without numbers, its members sorted at every level, and the plain
  serialiser of such values: the specification of \<^const>\<open>canonical_v1\<close>.
\<close>

fun number_free :: "json \<Rightarrow> bool" where
  "number_free (Number n) = False"
| "number_free (Array xs) = list_all number_free xs"
| "number_free (Object kvs) = list_all (\<lambda>(k, v). number_free v) kvs"
| "number_free _ = True"

abbreviation key_order :: "bytes \<times> 'a \<Rightarrow> nat list" where
  "key_order p \<equiv> encode_utf16 (fst p)"

fun sort_members :: "json \<Rightarrow> json" where
  "sort_members (Array xs) = Array (map sort_members xs)"
| "sort_members (Object kvs) = Object (sort_key key_order (map (\<lambda>(k, v). (k, sort_members v)) kvs))"
| "sort_members v = v"

fun ser :: "json \<Rightarrow> bytes" where
  "ser Null = ''null''"
| "ser (Bool b) = (if b then ''true'' else ''false'')"
| "ser (Number n) = []"
| "ser (String s) = jcs_string s"
| "ser (Array xs) = ''['' @ join_with '','' (map ser xs) @ '']''"
| "ser (Object kvs) = ''{'' @ join_with '','' (map (\<lambda>(k, v). jcs_string k @ '':'' @ ser v) kvs) @ ''}''"

lemma sequence_results_ok: "sequence_results (map (\<lambda>x. Ok (f x)) xs) = Ok (map f xs)"
  by (induction xs) auto

lemma sequence_results_err: "Inl e \<in> set rs \<Longrightarrow> \<exists>e'. sequence_results rs = Inl e'"
proof (induction rs)
  case (Cons r rs)
  then show ?case by (cases r) auto
qed simp

lemma sort_key_map_snd:
  "sort_key key_order (map (\<lambda>(k, v). (k, f v)) kvs) = map (\<lambda>(k, v). (k, f v)) (sort_key key_order kvs)"
proof -
  have ins: "insort_key key_order (k, f v) (map (\<lambda>(k, v). (k, f v)) kvs)
      = map (\<lambda>(k, v). (k, f v)) (insort_key key_order (k, v) kvs)" for k v kvs
    by (induction kvs) (auto simp: split_def)
  show ?thesis
    by (induction kvs) (auto simp: ins sort_key_simps)
qed

lemma canonical_v1_spec:
  "canonical_v1 v = (if number_free v then Ok (ser (sort_members v)) else Err NumberForbidden)"
proof (induction v rule: canonical_v1.induct)
  case (5 xs)
  show ?case
  proof (cases "list_all number_free xs")
    case True
    then have "map canonical_v1 xs = map (\<lambda>x. Ok (ser (sort_members x))) xs"
      using 5 by (auto simp: list_all_iff)
    then have "sequence_results (map canonical_v1 xs) = Ok (map (\<lambda>x. ser (sort_members x)) xs)"
      by (simp only: sequence_results_ok)
    then show ?thesis
      using True by (simp add: comp_def)
  next
    case False
    then obtain x where x: "x \<in> set xs" "canonical_v1 x = Err NumberForbidden"
      using 5 by (auto simp: list_all_iff)
    have "Inl NumberForbidden \<in> set (map canonical_v1 xs)"
      unfolding set_map by (rule image_eqI [of _ _ x]) (simp_all add: x)
    from sequence_results_err [OF this] obtain e where "sequence_results (map canonical_v1 xs) = Inl e" ..
    then show ?thesis
      using False by (cases e) simp
  qed
next
  case (6 kvs)
  let ?f = "\<lambda>(k, v). try_res (canonical_v1 v) (\<lambda>b. Ok (k, b))"
  show ?case
  proof (cases "list_all (\<lambda>(k, v). number_free v) kvs")
    case True
    then have "map ?f kvs = map (\<lambda>p. Ok ((\<lambda>(k, v). (k, ser (sort_members v))) p)) kvs"
      using 6 by (auto simp: list_all_iff)
    then have seq: "sequence_results (map ?f kvs) = Ok (map (\<lambda>(k, v). (k, ser (sort_members v))) kvs)"
      by (simp only: sequence_results_ok)
    have "map (\<lambda>(k, v). (k, ser (sort_members v))) kvs = map (\<lambda>(k, v). (k, ser v)) (map (\<lambda>(k, v). (k, sort_members v)) kvs)"
      by (simp add: split_def)
    then have "sort_key key_order (map (\<lambda>(k, v). (k, ser (sort_members v))) kvs)
      = map (\<lambda>(k, v). (k, ser v)) (sort_key key_order (map (\<lambda>(k, v). (k, sort_members v)) kvs))"
      by (simp only: sort_key_map_snd)
    then show ?thesis
      using True seq by (simp add: split_def comp_def)
  next
    case False
    then obtain k v where kv: "(k, v) \<in> set kvs" "\<not> number_free v"
      by (auto simp: list_all_iff)
    have "canonical_v1 v = Inl NumberForbidden"
      using 6 [OF kv(1) refl] kv(2) by simp
    then have "Inl NumberForbidden \<in> set (map ?f kvs)"
      unfolding set_map by (intro image_eqI [of _ _ "(k, v)"]) (simp_all add: kv(1))
    from sequence_results_err [OF this] obtain e where "sequence_results (map ?f kvs) = Inl e" ..
    then show ?thesis
      using False by (cases e) simp
  qed
qed simp_all


text \<open>Strings: the inverse of the escape of one character.\<close>

lemma jcs_char_plain: "byte c \<ge> 0x20 \<Longrightarrow> c \<noteq> CHR 0x22 \<Longrightarrow> c \<noteq> CHR 0x5C \<Longrightarrow> jcs_char c = [c]"
  by (auto simp: jcs_char_def)

definition unescape :: "bytes \<Rightarrow> char \<times> bytes" where
  "unescape s = (case s of
       a # b # r \<Rightarrow>
         if a \<noteq> CHR 0x5C then (a, b # r)
         else if b = CHR ''b'' then (CHR 0x08, r)
         else if b = CHR ''t'' then (CHR 0x09, r)
         else if b = CHR ''n'' then (CHR 0x0A, r)
         else if b = CHR ''f'' then (CHR 0x0C, r)
         else if b = CHR ''r'' then (CHR 0x0D, r)
         else if b = CHR ''u'' then
           (case r of
              _ # _ # h # l # q \<Rightarrow>
                (char_of (digit_val h * 16 + (if is_ascii_digit l then digit_val l else byte l - 87)), q)
            | _ \<Rightarrow> (b, r))
         else (b, r)
     | _ \<Rightarrow> (hd s, tl s))"

lemma unescape_plain: "a \<noteq> CHR 0x5C \<Longrightarrow> unescape (a # r) = (a, r)"
  by (cases r) (auto simp: unescape_def)

lemma hex_digit_decode:
  "n < 16 \<Longrightarrow> (if is_ascii_digit (hex_digit n) then digit_val (hex_digit n) else byte (hex_digit n) - 87) = n"
  by (auto simp: hex_digit_def is_ascii_digit_def digit_val_def)

lemma unescape_unicode:
  assumes "byte c < 0x20"
  shows "unescape ([CHR 0x5C, CHR ''u'', CHR ''0'', CHR ''0'', hex_digit (byte c div 16), hex_digit (byte c mod 16)] @ r) = (c, r)"
proof -
  have "byte c div 16 < 10" using assms by simp
  then have hi: "digit_val (hex_digit (byte c div 16)) = byte c div 16"
    by (simp add: hex_digit_def digit_val_def)
  have "char_of (byte c div 16 * 16 + byte c mod 16) = c"
    by (simp only: div_mult_mod_eq char_of_char)
  then show ?thesis
    using hex_digit_decode [of "byte c mod 16"] hi by (simp add: unescape_def)
qed

lemma unescape_jcs: "unescape (jcs_char c @ r) = (c, r)"
proof (cases "c = CHR 0x22 \<or> c = CHR 0x5C \<or> c = CHR 0x08 \<or> c = CHR 0x09 \<or> c = CHR 0x0A \<or> c = CHR 0x0C \<or> c = CHR 0x0D")
  case True
  then show ?thesis
    by (elim disjE) (simp_all add: jcs_char_def unescape_def)
next
  case False
  then have shape: "jcs_char c = (if byte c < 0x20
      then [CHR 0x5C, CHR ''u'', CHR ''0'', CHR ''0'', hex_digit (byte c div 16), hex_digit (byte c mod 16)] else [c])"
    by (simp only: jcs_char_def simp_thms if_False de_Morgan_disj)
  show ?thesis
    using False unfolding shape by (simp add: unescape_unicode [simplified] unescape_plain)
qed

interpretation escape: self_delimiting jcs_char "\<lambda>_. True"
  by unfold_locales (metis prod.inject unescape_jcs)

lemma jcs_char_no_quote: "jcs_char c @ r \<noteq> CHR 0x22 # s"
proof -
  have "jcs_char c \<noteq> []" "hd (jcs_char c) \<noteq> CHR 0x22"
    by (simp_all add: jcs_char_def)
  then show ?thesis
    by (metis hd_append2 list.sel(1))
qed

lemma escaped_cancel:
  "concat (map jcs_char s) @ CHR 0x22 # r = concat (map jcs_char t) @ CHR 0x22 # q \<Longrightarrow> s = t \<and> r = q"
proof (induction s arbitrary: t)
  case Nil
  show ?case
  proof (cases t)
    case t: (Cons d t')
    then show ?thesis
      using Nil jcs_char_no_quote [of d "concat (map jcs_char t') @ CHR 0x22 # q" r] by simp
  qed (use Nil in simp)
next
  case (Cons c s)
  let ?S = "concat (map jcs_char s) @ CHR 0x22 # r"
  show ?case
  proof (cases t)
    case Nil
    then show ?thesis
      using Cons.prems jcs_char_no_quote [of c ?S q] by simp
  next
    case t: (Cons d t')
    have "c = d \<and> ?S = concat (map jcs_char t') @ CHR 0x22 # q"
      using Cons.prems escape.cancel [where x = c and y = d and r = ?S] by (simp add: t)
    then show ?thesis
      using Cons.IH t by simp
  qed
qed

interpretation jcs: self_delimiting jcs_string "\<lambda>_. True"
  by unfold_locales (auto simp: jcs_string_def dest: escaped_cancel)


text \<open>Comma-separated sequences closed by a bracket.\<close>

lemma join_with_Cons: "join_with c (p # ps) = p @ concat (map (\<lambda>q. c @ q) ps)"
  by (induction ps arbitrary: p) simp_all

definition cancels :: "('a \<Rightarrow> bytes) \<Rightarrow> ('a \<Rightarrow> bool) \<Rightarrow> 'a \<Rightarrow> bool" where
  "cancels f ok x \<longleftrightarrow> (\<forall>y r s. ok y \<longrightarrow> f x @ r = f y @ s \<longrightarrow> x = y \<and> r = s)"

lemma cancelsD: "cancels f ok x \<Longrightarrow> ok y \<Longrightarrow> f x @ r = f y @ s \<Longrightarrow> x = y \<and> r = s"
  by (simp add: cancels_def)

lemma commas_cancel:
  assumes "list_all (cancels f ok) xs" "list_all ok ys" "C \<noteq> CHR '',''"
    and "concat (map (\<lambda>x. '','' @ f x) xs) @ C # r = concat (map (\<lambda>x. '','' @ f x) ys) @ C # s"
  shows "xs = ys \<and> r = s"
  using assms
proof (induction xs arbitrary: ys)
  case Nil
  then show ?case by (cases ys) auto
next
  case (Cons x xs)
  let ?t = "\<lambda>us q. concat (map (\<lambda>x. '','' @ f x) us) @ C # q"
  obtain y ys' where ys: "ys = y # ys'"
    using Cons.prems by (cases ys) auto
  have "x = y \<and> ?t xs r = ?t ys' s"
    using Cons.prems(1,2,4) by (intro cancelsD [of f ok]) (simp_all add: ys)
  then show ?case
    using Cons.IH [of ys'] Cons.prems by (simp add: ys)
qed

lemma bracketed_cancel:
  assumes "list_all (cancels f ok) xs" "list_all ok xs" "list_all ok ys" "C \<noteq> CHR '',''"
    and close: "\<And>x r s. ok x \<Longrightarrow> f x @ r \<noteq> C # s"
    and eq: "join_with '','' (map f xs) @ C # r = join_with '','' (map f ys) @ C # s"
  shows "xs = ys \<and> r = s"
proof -
  let ?t = "\<lambda>us q. concat (map (\<lambda>x. '','' @ f x) us) @ C # q"
  have joined: "join_with '','' (map f (z # zs)) @ C # q = f z @ ?t zs q" for z zs q
    by (simp add: join_with_Cons comp_def)
  show ?thesis
  proof (cases xs)
    case Nil
    then show ?thesis
    proof (cases ys)
      case (Cons y ys')
      then show ?thesis
        using close [of y "?t ys' s" r] assms(3) eq Nil joined [of y ys' s] by simp
    qed (use eq in simp)
  next
    case xs: (Cons x xs')
    show ?thesis
    proof (cases ys)
      case Nil
      then show ?thesis
        using close [of x "?t xs' r" s] assms(2) eq xs joined [of x xs' r] by simp
    next
      case ys: (Cons y ys')
      have "x = y \<and> ?t xs' r = ?t ys' s"
        using assms(1,3) eq joined [of x xs' r] joined [of y ys' s]
        by (intro cancelsD [of f ok]) (simp_all add: xs ys)
      then show ?thesis
        using commas_cancel [of f ok xs' ys' C r s] assms(1,3,4) by (simp add: xs ys)
    qed
  qed
qed

lemma ser_first:
  "number_free v \<Longrightarrow>
   \<exists>c t. ser v = c # t \<and> (c = CHR ''n'' \<or> c = CHR ''t'' \<or> c = CHR ''f'' \<or> c = CHR 0x22 \<or> c = CHR ''['' \<or> c = CHR ''{'')"
  by (cases v) (auto simp: jcs_string_def)

lemma ser_no_close: "number_free v \<Longrightarrow> ser v @ r \<noteq> CHR '']'' # s"
  using ser_first [of v] by auto

lemma ser_string_cancel: "number_free w \<Longrightarrow> ser (String t) @ r = ser w @ s \<Longrightarrow> String t = w \<and> r = s"
  by (cases w) (auto simp: jcs_string_def dest: escaped_cancel split: if_splits)

lemma ser_cancels: "number_free v \<Longrightarrow> cancels ser number_free v"
proof (induction v rule: ser.induct)
  case (4 t)
  then show ?case
    unfolding cancels_def using ser_string_cancel by blast
next
  case (5 xs)
  show ?case
    unfolding cancels_def
  proof (intro allI impI)
    fix w r s
    assume w: "number_free w" and eq: "ser (Array xs) @ r = ser w @ s"
    then obtain ys where ys: "w = Array ys"
      by (cases w) (auto simp: jcs_string_def split: if_splits)
    have "xs = ys \<and> r = s"
      by (rule bracketed_cancel [where f = ser and ok = number_free and C = "CHR '']''"])
         (use 5 w eq ys ser_no_close in \<open>auto simp: list_all_iff\<close>)
    then show "Array xs = w \<and> r = s" by (simp add: ys)
  qed
next
  case (6 kvs)
  let ?ok = "\<lambda>(k, v). number_free v" and ?f = "\<lambda>(k, v). jcs_string k @ '':'' @ ser v"
  have each: "cancels ?f ?ok p" if "p \<in> set kvs" for p
    unfolding cancels_def
  proof (intro allI impI)
    fix q t u
    assume q: "?ok q" and eq: "?f p @ t = ?f q @ u"
    obtain k v k' v' where pq: "p = (k, v)" "q = (k', v')" by fastforce
    have v: "cancels ser number_free v"
      using 6 that by (auto simp: pq list_all_iff)
    have "jcs_string k @ (CHR '':'' # ser v @ t) = jcs_string k' @ (CHR '':'' # ser v' @ u)"
      using eq by (simp add: pq)
    from jcs.cancel [OF TrueI TrueI this] have "k = k' \<and> ser v @ t = ser v' @ u"
      by simp
    then show "p = q \<and> t = u"
      using cancelsD [OF v, of v' t u] q by (simp add: pq)
  qed
  show ?case
    unfolding cancels_def
  proof (intro allI impI)
    fix w r s
    assume w: "number_free w" and eq: "ser (Object kvs) @ r = ser w @ s"
    then obtain kvs' where kvs': "w = Object kvs'"
      by (cases w) (auto simp: jcs_string_def split: if_splits)
    have "kvs = kvs' \<and> r = s"
    proof (rule bracketed_cancel [where f = ?f and ok = ?ok and C = "CHR ''}''"])
      show "list_all (cancels ?f ?ok) kvs"
        using each by (simp add: list_all_iff)
      show "?f p @ t \<noteq> CHR ''}'' # u" for p t u
        by (cases p) (simp add: jcs_string_def)
    qed (use 6 w eq kvs' in auto)
    then show "Object kvs = w \<and> r = s" by (simp add: kvs')
  qed
next
  case 1
  show ?case
    unfolding cancels_def
  proof (intro allI impI)
    fix w r s
    assume "number_free w" "ser Null @ r = ser w @ s"
    then show "Null = w \<and> r = s" by (cases w) (auto simp: jcs_string_def split: if_splits)
  qed
next
  case (2 b)
  show ?case
    unfolding cancels_def
  proof (intro allI impI)
    fix w r s
    assume "number_free w" "ser (Bool b) @ r = ser w @ s"
    then show "Bool b = w \<and> r = s" by (cases w) (auto simp: jcs_string_def split: if_splits)
  qed
qed simp

interpretation canonical_json: self_delimiting ser number_free
  by unfold_locales (rule cancelsD [OF ser_cancels])


lemma number_free_sort_members: "number_free (sort_members v) = number_free v"
proof (induction v rule: sort_members.induct)
  case (2 kvs)
  then show ?case
    by (fastforce simp: list_all_iff)
qed (simp_all add: list_all_iff)

text \<open>
  C25: Canonicalisation succeeds exactly on values without JSON numbers, and two values have the
  same canonical bytes exactly when they are equal once the members of every object are
  put in UTF-16 key order: the canonical bytes determine the data payload.
\<close>

theorem canonical_v1_determines:
  "(\<exists>b. canonical_v1 v = Ok b \<and> canonical_v1 w = Ok b)
   \<longleftrightarrow> number_free v \<and> number_free w \<and> sort_members v = sort_members w"
  using canonical_json.inj [of "sort_members v" "sort_members w"]
  by (auto simp: canonical_v1_spec number_free_sort_members)

end
