(* ===== verification/Externals.thy ===== *)
theory Externals
  imports Prelude Canonical
begin

text \<open>
  What the enclave calls and does not contain: the third-party crates for hex,
  base64, hashing, Ed25519, secp256k1, AES-GCM, MessagePack and JSON text.  They
  are one record of functions, an argument of every definition that uses
  them.  The sample record at the end gives each of them a simple concrete
  value; it serves only to evaluate the model on examples.
\<close>

record externals =
  hex_decode :: "bytes \<Rightarrow> bytes option"
  hex_encode :: "bytes \<Rightarrow> bytes"
  b64_decode :: "bytes \<Rightarrow> bytes option"
  b64_encode :: "bytes \<Rightarrow> bytes"
  sha256 :: "bytes \<Rightarrow> bytes"
  keccak256 :: "bytes \<Rightarrow> bytes"
  hmac_sha256 :: "bytes \<Rightarrow> bytes \<Rightarrow> bytes"
  ed_key_ok :: "bytes \<Rightarrow> bool"
  ed_verify :: "bytes \<Rightarrow> bytes \<Rightarrow> bytes \<Rightarrow> bool"
  secp_key_ok :: "bytes \<Rightarrow> bool"
  secp_uncompressed :: "bytes \<Rightarrow> bytes"
  secp_compressed :: "bytes \<Rightarrow> bytes"
  secp_sign :: "bytes \<Rightarrow> bytes \<Rightarrow> (bytes \<times> bytes \<times> 8 word) option"
  aes_open :: "bytes \<Rightarrow> bytes \<Rightarrow> bytes \<Rightarrow> bytes \<Rightarrow> bytes option"
  aes_seal :: "bytes \<Rightarrow> bytes \<Rightarrow> bytes \<Rightarrow> bytes \<Rightarrow> bytes option"
  msgpack :: "json \<Rightarrow> bytes option"
  json_text :: "bytes \<Rightarrow> json option"

text \<open>
  A sample: hex as two-byte groups of which the first is kept, hashes that
  pad or cut to 32 bytes, signatures that always verify.
\<close>

fun every_other :: "bytes \<Rightarrow> bytes" where
  "every_other (a # b # s) = a # every_other s"
| "every_other s = []"

definition fixed_len :: "nat \<Rightarrow> bytes \<Rightarrow> bytes" where
  "fixed_len n s = take n (s @ replicate n CHR ''0'')"

definition sample_ext :: externals where
  "sample_ext = \<lparr>
     hex_decode = (\<lambda>s. if even (length s) then Some (every_other s) else None),
     hex_encode = (\<lambda>s. concat (map (\<lambda>c. [c, c]) s)),
     b64_decode = Some, b64_encode = (\<lambda>s. s),
     sha256 = fixed_len 32, keccak256 = fixed_len 32, hmac_sha256 = (\<lambda>k s. fixed_len 32 s),
     ed_key_ok = (\<lambda>_. True), ed_verify = (\<lambda>_ _ _. True),
     secp_key_ok = (\<lambda>_. True), secp_uncompressed = (\<lambda>k. CHR 0x04 # fixed_len 64 k), secp_compressed = fixed_len 33,
     secp_sign = (\<lambda>k d. Some (fixed_len 32 d, fixed_len 32 d, 0)),
     aes_open = (\<lambda>k n c a. Some c), aes_seal = (\<lambda>k n p a. Some p),
     msgpack = (\<lambda>v. Some []), json_text = (\<lambda>s. Some Null)\<rparr>"

end
