(* ===== verification/Proto.thy ===== *)
theory Proto
  imports Externals
begin

text \<open>
  \<^verbatim>\<open>enclave/src/proto.rs\<close>: the wire types between gateway and enclave, the
  sealed secrets and the policy that is sealed with them, and the closed set of
  error codes.  Field names carry a prefix per record.  The wiping of secrets in
  \<^verbatim>\<open>Drop\<close> and the redacting \<^verbatim>\<open>Debug\<close> implementations have no counterpart in a
  functional model.
\<close>

section \<open>Error codes\<close>

datatype err_code =
    BAD_REQUEST | PAYLOAD_TOO_LARGE | INTERNAL_ERROR | KMS_DECRYPT_DENIED | POLICY_DENIED | POLICY_REQUIRED
  | CONTEXT_REQUIRED | RATE_LIMITED | UNIMPLEMENTED_POLICY_FIELD | RECEIPTS_UNAVAILABLE | VERIFY_FAILED
  | REGISTRY_NONCE_REJECTED | REGISTRY_SIGNATURE_REJECTED | REGISTRY_ENTRIES_REJECTED | REGISTRY_VERSION_REJECTED
  | PROVISION_KEY_DERIVATION_FAILED | PROVISION_WRAP_FAILED | PROVISION_SEAL_FAILED
  | ACTION_NOT_ALLOWED | SIZE_OVER_CAP | NOTIONAL_OVER_CAP | WITHDRAWAL_NOT_SIGNABLE | MODE_CANCEL_ONLY | MODE_HALTED

fun err_str :: "err_code \<Rightarrow> bytes" where
  "err_str BAD_REQUEST = ''bad_request''"
| "err_str PAYLOAD_TOO_LARGE = ''payload_too_large''"
| "err_str INTERNAL_ERROR = ''internal_error''"
| "err_str KMS_DECRYPT_DENIED = ''kms_decrypt_denied''"
| "err_str POLICY_DENIED = ''policy_denied''"
| "err_str POLICY_REQUIRED = ''policy_required''"
| "err_str CONTEXT_REQUIRED = ''context_required''"
| "err_str RATE_LIMITED = ''rate_limited''"
| "err_str UNIMPLEMENTED_POLICY_FIELD = ''unimplemented_policy_field''"
| "err_str RECEIPTS_UNAVAILABLE = ''receipts_unavailable''"
| "err_str VERIFY_FAILED = ''verify_failed''"
| "err_str REGISTRY_NONCE_REJECTED = ''registry_nonce_rejected''"
| "err_str REGISTRY_SIGNATURE_REJECTED = ''registry_signature_rejected''"
| "err_str REGISTRY_ENTRIES_REJECTED = ''registry_entries_rejected''"
| "err_str REGISTRY_VERSION_REJECTED = ''registry_version_rejected''"
| "err_str PROVISION_KEY_DERIVATION_FAILED = ''provision_key_derivation_failed''"
| "err_str PROVISION_WRAP_FAILED = ''provision_wrap_failed''"
| "err_str PROVISION_SEAL_FAILED = ''provision_seal_failed''"
| "err_str ACTION_NOT_ALLOWED = ''action_not_allowed''"
| "err_str SIZE_OVER_CAP = ''size_over_cap''"
| "err_str NOTIONAL_OVER_CAP = ''notional_over_cap''"
| "err_str WITHDRAWAL_NOT_SIGNABLE = ''withdrawal_not_signable''"
| "err_str MODE_CANCEL_ONLY = ''mode_cancel_only''"
| "err_str MODE_HALTED = ''mode_halted''"


section \<open>Requests\<close>

definition MAX_MESSAGE_BYTES :: nat where
  "MAX_MESSAGE_BYTES = 64 * 1024"

definition LENGTH_PREFIX_BYTES :: nat where
  "LENGTH_PREFIX_BYTES = 4"

record aws_credentials =
  ac_access_key_id :: bytes
  ac_secret_access_key :: bytes
  ac_session_token :: bytes

record registry_refresh_params =
  rr_nonce_hex :: bytes
  rr_version :: "64 word"
  rr_signature_hex :: bytes

record order_request =
  or_symbol :: bytes
  or_side :: bytes
  or_qty :: bytes
  or_ord_type :: bytes
  or_price :: "bytes option"
  or_reduce_only :: bool
  or_client_order_id :: "bytes option"

record cancel_request =
  cr_symbol :: bytes
  cr_order_id :: bytes

record x402_request =
  xr_token_name :: bytes
  xr_token_version :: bytes
  xr_chain_id :: "64 word"
  xr_token_address :: bytes
  xr_from :: bytes
  xr_to :: bytes
  xr_value :: bytes
  xr_valid_after :: "64 word"
  xr_valid_before :: "64 word"
  xr_nonce :: bytes

record permit2_request =
  pr_chain_id :: "64 word"
  pr_verifying_contract :: bytes
  pr_token :: bytes
  pr_amount :: bytes
  pr_expiration :: "64 word"
  pr_nonce :: "64 word"
  pr_spender :: bytes
  pr_sig_deadline :: bytes

record sign_request =
  rq_action :: bytes
  rq_proto_version :: "8 word"
  rq_opaque_token :: "bytes option"
  rq_method :: "bytes option"
  rq_path :: "bytes option"
  rq_body :: "bytes option"
  rq_timestamp_ms :: "64 word option"
  rq_key_blob_s3_key :: "bytes option"
  rq_key_id :: "bytes option"
  rq_aws_credentials :: "aws_credentials option"
  rq_ciphertext_blob_base64 :: "bytes option"
  rq_query :: "bytes option"
  rq_op :: "bytes option"
  rq_payload :: "bytes option"
  rq_hl_action :: "json option"
  rq_nonce :: "64 word option"
  rq_vault_address :: "bytes option"
  rq_x402 :: "x402_request option"
  rq_permit2 :: "permit2_request option"
  rq_order :: "order_request option"
  rq_cancel :: "cancel_request option"
  rq_data :: "bytes option"
  rq_registry_refresh :: "registry_refresh_params option"
  rq_intent_signature :: "bytes option"
  rq_intent_nonce :: "bytes option"
  rq_attestation_nonce :: "bytes option"
  rq_attestation_user_data :: "bytes option"
  rq_client_nonce :: "bytes option"
  rq_provision_venue :: "bytes option"
  rq_provision_customer_id :: "bytes option"
  rq_provision_policy :: "bytes option"


text \<open>A request to evaluate examples on.\<close>

definition sample_sign_request :: sign_request where
  "sample_sign_request = \<lparr>rq_action = ''sign_binance'', rq_proto_version = 1, rq_opaque_token = None, rq_method = Some ''GET'',
     rq_path = None, rq_body = None, rq_timestamp_ms = Some 7, rq_key_blob_s3_key = None, rq_key_id = None,
     rq_aws_credentials = None, rq_ciphertext_blob_base64 = None, rq_query = Some ''a=1'', rq_op = None,
     rq_payload = None, rq_hl_action = None, rq_nonce = None, rq_vault_address = None, rq_x402 = None,
     rq_permit2 = None, rq_order = None, rq_cancel = None, rq_data = None, rq_registry_refresh = None,
     rq_intent_signature = None, rq_intent_nonce = None, rq_attestation_nonce = None,
     rq_attestation_user_data = None, rq_client_nonce = None, rq_provision_venue = None,
     rq_provision_customer_id = None, rq_provision_policy = None\<rparr>"


section \<open>Responses\<close>

record hl_signature =
  hs_r :: bytes
  hs_s :: bytes
  hs_v :: "8 word"

record attested_data_response =
  ad_signature :: hl_signature
  ad_pubkey_compressed :: bytes
  ad_pubkey_address :: bytes

record provision_response =
  pv_envelope_b64 :: bytes
  pv_pubkey_compressed :: bytes
  pv_pubkey_address :: bytes

text \<open>\<^verbatim>\<open>DecisionReceipt\<close> and \<^verbatim>\<open>ReceiptHeartbeat\<close> of \<^verbatim>\<open>receipt.rs\<close>, which a response may carry.\<close>

record decision_receipt =
  dr_v :: bytes
  dr_decision :: bytes
  dr_reason_code :: bytes
  dr_customer_id :: bytes
  dr_action :: bytes
  dr_request_hash :: bytes
  dr_intent_sig_hash :: bytes
  dr_policy_hash :: bytes
  dr_supplied_ts_ms :: bytes
  dr_boot_id :: bytes
  dr_seq :: bytes
  dr_signature :: hl_signature

record receipt_heartbeat =
  hb_v :: bytes
  hb_boot_id :: bytes
  hb_customer_id :: bytes
  hb_seq_next :: bytes
  hb_client_nonce :: bytes
  hb_registry_version :: bytes
  hb_entry_hash :: bytes
  hb_signature :: hl_signature

record sign_response =
  rs_signature_base64 :: bytes
  rs_headers :: "(bytes \<times> bytes) list option"
  rs_hl_signature :: "hl_signature option"
  rs_attested :: "attested_data_response option"
  rs_provision :: "provision_response option"
  rs_error :: "bytes option"
  rs_receipt :: "decision_receipt option"
  rs_policy_hash :: "bytes option"
  rs_plaintext_sha256 :: "bytes option"
  rs_plaintext_len :: "64 word option"
  rs_canonical_body :: "bytes option"
  rs_heartbeat :: "receipt_heartbeat option"
  rs_attestation_document_b64 :: "bytes option"

definition rsp_ok :: "bytes \<Rightarrow> sign_response" where
  "rsp_ok signature_base64 =
     \<lparr>rs_signature_base64 = signature_base64, rs_headers = None, rs_hl_signature = None, rs_attested = None,
      rs_provision = None, rs_error = None, rs_receipt = None, rs_policy_hash = None, rs_plaintext_sha256 = None,
      rs_plaintext_len = None, rs_canonical_body = None, rs_heartbeat = None, rs_attestation_document_b64 = None\<rparr>"

definition rsp_ok_verify_blob :: "bytes \<Rightarrow> 64 word \<Rightarrow> sign_response" where
  "rsp_ok_verify_blob plaintext_sha256_hex plaintext_len =
     (rsp_ok [])\<lparr>rs_plaintext_sha256 := Some plaintext_sha256_hex, rs_plaintext_len := Some plaintext_len\<rparr>"

definition rsp_ok_headers :: "(bytes \<times> bytes) list \<Rightarrow> sign_response" where
  "rsp_ok_headers headers = (rsp_ok [])\<lparr>rs_headers := Some headers\<rparr>"

definition rsp_err :: "err_code \<Rightarrow> sign_response" where
  "rsp_err code = (rsp_ok [])\<lparr>rs_error := Some (err_str code)\<rparr>"

definition rsp_ok_attestation :: "bytes \<Rightarrow> sign_response" where
  "rsp_ok_attestation doc = (rsp_ok [])\<lparr>rs_attestation_document_b64 := Some doc\<rparr>"

definition rsp_ok_hl_signature :: "hl_signature \<Rightarrow> sign_response" where
  "rsp_ok_hl_signature sig = (rsp_ok [])\<lparr>rs_hl_signature := Some sig\<rparr>"

definition rsp_ok_attested_data :: "attested_data_response \<Rightarrow> sign_response" where
  "rsp_ok_attested_data attested = (rsp_ok [])\<lparr>rs_attested := Some attested\<rparr>"

definition rsp_ok_provision :: "provision_response \<Rightarrow> sign_response" where
  "rsp_ok_provision provision = (rsp_ok [])\<lparr>rs_provision := Some provision\<rparr>"

definition with_policy_hash :: "bytes option \<Rightarrow> sign_response \<Rightarrow> sign_response" where
  "with_policy_hash hash resp = resp\<lparr>rs_policy_hash := hash\<rparr>"

definition with_canonical_body :: "bytes \<Rightarrow> sign_response \<Rightarrow> sign_response" where
  "with_canonical_body body resp = resp\<lparr>rs_canonical_body := Some body\<rparr>"

lemmas rsp_defs = rsp_ok_def rsp_ok_verify_blob_def rsp_ok_headers_def rsp_err_def rsp_ok_attestation_def
  rsp_ok_hl_signature_def rsp_ok_attested_data_def rsp_ok_provision_def with_policy_hash_def with_canonical_body_def

lemma rsp_err_simps [simp]:
  "rs_error (rsp_err c) = Some (err_str c)" "rs_policy_hash (rsp_err c) = None" "rs_receipt (rsp_err c) = None"
  by (simp_all add: rsp_defs)

text \<open>
  A response that carries key-derived material: a signature, authenticated
  headers, attested data or a sealed new key.
\<close>

definition carries_signature :: "sign_response \<Rightarrow> bool" where
  "carries_signature r \<longleftrightarrow> rs_signature_base64 r \<noteq> [] \<or> rs_headers r \<noteq> None \<or> rs_hl_signature r \<noteq> None
     \<or> rs_attested r \<noteq> None \<or> rs_provision r \<noteq> None"

lemma carries_signature_err [simp]: "\<not> carries_signature (rsp_err c)"
  by (simp add: carries_signature_def rsp_defs)

lemma carries_signature_with [simp]:
  "carries_signature (with_policy_hash h r) = carries_signature r"
  "carries_signature (with_canonical_body b r) = carries_signature r"
  "carries_signature (r\<lparr>rs_receipt := x\<rparr>) = carries_signature r"
  by (simp_all add: carries_signature_def rsp_defs)


section \<open>Secrets\<close>

record key_secret =
  ks_key :: bytes
  ks_secret :: bytes

record pass_secret =
  ps_key :: bytes
  ps_secret :: bytes
  ps_passphrase :: bytes

record hyperliquid_secret =
  hl_exchange :: bytes
  hl_private_key :: bytes
  hl_wallet_address :: bytes
  hl_vault_address :: "bytes option"

record asterdex_secret =
  as_exchange :: bytes
  as_private_key :: bytes
  as_signer_address :: bytes

definition key_secret_is_complete :: "key_secret \<Rightarrow> bool" where
  "key_secret_is_complete s \<longleftrightarrow> ks_key s \<noteq> [] \<and> ks_secret s \<noteq> []"

definition pass_secret_is_complete :: "pass_secret \<Rightarrow> bool" where
  "pass_secret_is_complete s \<longleftrightarrow> ps_key s \<noteq> [] \<and> ps_secret s \<noteq> [] \<and> ps_passphrase s \<noteq> []"

definition hex_0x :: "nat \<Rightarrow> bytes \<Rightarrow> bool" where
  "hex_0x n s \<longleftrightarrow> length s = n \<and> starts_with s ''0x'' \<and> list_all is_ascii_hexdigit (drop 2 s)"

definition hyperliquid_is_complete :: "hyperliquid_secret \<Rightarrow> bool" where
  "hyperliquid_is_complete s \<longleftrightarrow>
     hex_0x 66 (hl_private_key s) \<and> hex_0x 42 (hl_wallet_address s)
     \<and> (case hl_vault_address s of None \<Rightarrow> True | Some v \<Rightarrow> v = [] \<or> hex_0x 42 v)"

definition asterdex_is_complete :: "asterdex_secret \<Rightarrow> bool" where
  "asterdex_is_complete s \<longleftrightarrow> hex_0x 66 (as_private_key s) \<and> hex_0x 42 (as_signer_address s)"


section \<open>Policy\<close>

record x402_policy =
  xp_chain_id :: "64 word option"
  xp_token_address :: "bytes option"
  xp_max_value :: "bytes option"
  xp_allowed_recipients :: "bytes list option"

record permit2_policy =
  pp_chain_id :: "64 word option"
  pp_verifying_contract :: "bytes option"
  pp_allowed_tokens :: "bytes list option"
  pp_allowed_spenders :: "bytes list option"
  pp_max_amount :: "bytes option"
  pp_max_expiration :: "64 word option"

record order_asset_cap =
  oc_symbol :: bytes
  oc_max_qty :: bytes
  oc_max_notional :: "bytes option"

record hl_order_cap =
  hc_asset :: "64 word"
  hc_max_size :: bytes
  hc_max_notional :: "bytes option"

record policy =
  pl_allowed_actions :: "bytes list option"
  pl_allowed_methods :: "bytes list option"
  pl_allowed_path_prefixes :: "bytes list option"
  pl_denied_path_prefixes :: "bytes list option"
  pl_max_requests_per_minute :: "32 word option"
  pl_label :: "bytes option"
  pl_allowed_asterdex_endpoints :: "bytes list option"
  pl_x402 :: "x402_policy option"
  pl_permit2 :: "permit2_policy option"
  pl_order_caps :: "order_asset_cap list option"
  pl_allowed_vaults :: "bytes list option"
  pl_hl_order_caps :: "hl_order_cap list option"
  pl_signer_pubkey :: "bytes option"
  pl_policy_signature :: "bytes option"
  pl_policy_authority_sig :: "bytes option"
  pl_intent_pubkey :: "bytes option"

definition policy_default :: policy where
  "policy_default =
     \<lparr>pl_allowed_actions = None, pl_allowed_methods = None, pl_allowed_path_prefixes = None,
      pl_denied_path_prefixes = None, pl_max_requests_per_minute = None, pl_label = None,
      pl_allowed_asterdex_endpoints = None, pl_x402 = None, pl_permit2 = None, pl_order_caps = None,
      pl_allowed_vaults = None, pl_hl_order_caps = None, pl_signer_pubkey = None, pl_policy_signature = None,
      pl_policy_authority_sig = None, pl_intent_pubkey = None\<rparr>"

datatype parsed_blob = WithPolicy policy json | Legacy json

text \<open>
  The derived (de)serialisers of \<^verbatim>\<open>serde\<close>, parameters: the policy wrapper, the
  venue secrets, and the compact JSON text of a policy and of the typed request
  fields.
\<close>

record enclave_ext = externals +
  de_policy_wrapped :: "json \<Rightarrow> (policy \<times> json) option"
  de_policy :: "bytes \<Rightarrow> policy option"
  de_key_secret :: "json \<Rightarrow> key_secret option"
  de_pass_secret :: "json \<Rightarrow> pass_secret option"
  de_hyperliquid :: "json \<Rightarrow> hyperliquid_secret option"
  de_asterdex :: "json \<Rightarrow> asterdex_secret option"
  policy_json :: "policy \<Rightarrow> bytes"
  json_print :: "json \<Rightarrow> bytes"

definition sample_enclave :: enclave_ext where
  "sample_enclave = externals.extend sample_ext
     (enclave_ext.fields (\<lambda>_. None) (\<lambda>_. None) (\<lambda>_. None) (\<lambda>_. None) (\<lambda>_. None) (\<lambda>_. None) (\<lambda>_. []) (\<lambda>_. ''{}''))"

definition from_plaintext :: "'x enclave_ext_scheme \<Rightarrow> bytes \<Rightarrow> parsed_blob option" where
  "from_plaintext X plaintext =
     (case json_text X plaintext of
        None \<Rightarrow> None
      | Some val \<Rightarrow>
          if json_get ''policy'' val \<noteq> None
          then (case de_policy_wrapped X val of None \<Rightarrow> None | Some (p, s) \<Rightarrow> Some (WithPolicy p s))
          else Some (Legacy val))"

fun blob_policy :: "parsed_blob \<Rightarrow> policy option" where
  "blob_policy (WithPolicy p s) = Some p"
| "blob_policy (Legacy v) = None"

fun blob_secret_json :: "parsed_blob \<Rightarrow> json" where
  "blob_secret_json (WithPolicy p s) = s"
| "blob_secret_json (Legacy v) = v"

end
