(* ===== verification/Text_Search.thy ===== *)
theory Text_Search
  imports Prelude
begin

text \<open>
  The rest of the Rust string library that the sources call: \<^verbatim>\<open>str::find\<close> and \<^verbatim>\<open>contains\<close>,
  \<^verbatim>\<open>str::from_utf8\<close>, \<^verbatim>\<open>lines\<close> and \<^verbatim>\<open>char::is_whitespace\<close>, with the lemmas that relate substring
  search to splitting at a separator.
\<close>

section \<open>Substring search\<close>

text \<open>\<^verbatim>\<open>str::find\<close>: the offset of the first occurrence.\<close>

fun str_find :: "bytes \<Rightarrow> bytes \<Rightarrow> nat option" where
  "str_find [] p = (if p = [] then Some 0 else None)"
| "str_find (x # xs) p = (if starts_with (x # xs) p then Some 0 else map_option Suc (str_find xs p))"

lemma occurs_Cons:
  "(\<exists>a b. x # xs = a @ p @ b) \<longleftrightarrow> starts_with (x # xs) p \<or> (\<exists>a b. xs = a @ p @ b)"
proof -
  have "x # xs = a @ p @ b \<longleftrightarrow> a = [] \<and> x # xs = p @ b \<or> (\<exists>a'. a = x # a' \<and> xs = a' @ p @ b)" for a b
    by (cases a) auto
  then show ?thesis
    unfolding starts_with_iff by metis
qed

lemma str_find_None: "str_find s p = None \<longleftrightarrow> (\<nexists>a b. s = a @ p @ b)"
proof (induction s)
  case (Cons x s)
  then show ?case
    unfolding occurs_Cons by simp
qed simp

lemma str_find_Some:
  "str_find s p = Some i \<Longrightarrow> s = take i s @ p @ drop (i + length p) s \<and> i + length p \<le> length s"
proof (induction s arbitrary: i)
  case (Cons x s)
  show ?case
  proof (cases "starts_with (x # s) p")
    case True
    then obtain r where "x # s = p @ r"
      unfolding starts_with_iff by blast
    moreover have "i = 0"
      using Cons(2) True by simp
    ultimately show ?thesis
      by simp
  next
    case False
    then obtain j where "i = Suc j" "str_find s p = Some j"
      using Cons(2) by auto
    then show ?thesis
      using Cons(1) [of j] by simp
  qed
qed (simp split: if_splits)

lemma str_find_first: "str_find s p = Some i \<Longrightarrow> s = a @ p @ b \<Longrightarrow> i \<le> length a"
proof (induction s arbitrary: i a)
  case (Cons x s)
  show ?case
  proof (cases "starts_with (x # s) p")
    case False
    then obtain j where j: "i = Suc j" "str_find s p = Some j"
      using Cons(2) by auto
    have "a \<noteq> []"
      using False Cons(3) by (auto simp: starts_with_iff)
    then obtain a' where "a = x # a'" "s = a' @ p @ b"
      using Cons(3) by (cases a) auto
    then show ?thesis
      using Cons(1) [OF j(2)] j by simp
  next
    case True
    then have "i = 0"
      using Cons(2) by simp
    then show ?thesis
      by simp
  qed
qed (simp split: if_splits)

lemma split_on_append_sep: "split_on c (a @ c # b) = split_on c a @ split_on c b"
proof (induction a)
  case (Cons x a)
  then show ?case
    by (cases "split_on c a") auto
qed simp

lemma split_on_occurs:
  "seg \<in> set (split_on c s) \<Longrightarrow> (\<exists>r. s = seg @ r) \<or> (\<exists>a r. s = a @ c # seg @ r)"
proof (induction s rule: length_induct)
  case (1 s)
  show ?case
  proof (cases "split_once c s")
    case None
    then show ?thesis
      using 1(2) by (simp add: split_once_None split_on_notin)
  next
    case (Some ab)
    obtain a b where s: "s = a @ c # b" "c \<notin> set a"
      using Some split_once_SomeD by (cases ab) blast
    then consider "seg = a" | "seg \<in> set (split_on c b)"
      using 1(2) by (auto simp: split_on_append)
    then show ?thesis
    proof cases
      case 2
      then have "(\<exists>r. b = seg @ r) \<or> (\<exists>a r. b = a @ c # seg @ r)"
        using 1(1) s by simp
      then show ?thesis
        using s by (metis append_Cons append_assoc)
    qed (use s in blast)
  qed
qed


section \<open>Text\<close>

text \<open>\<^verbatim>\<open>s.contains(p)\<close>.\<close>

definition str_contains :: "bytes \<Rightarrow> bytes \<Rightarrow> bool" where
  [rust_std]: "str_contains s p \<longleftrightarrow> str_find s p \<noteq> None"

lemma str_contains_iff: "str_contains s p \<longleftrightarrow> (\<exists>a b. s = a @ p @ b)"
  by (simp add: str_contains_def str_find_None)

text \<open>
  \<^verbatim>\<open>std::str::from_utf8\<close> succeeds exactly on these byte sequences: no stray or missing
  continuation byte, no over-long form, no surrogate, nothing above U+10FFFF.
\<close>

definition utf8_cont :: "char \<Rightarrow> bool" where
  "utf8_cont c \<longleftrightarrow> 128 \<le> byte c \<and> byte c < 192"

fun utf8_valid :: "bytes \<Rightarrow> bool" where
  "utf8_valid [] = True"
| "utf8_valid (a # s) =
     (if byte a < 128 then utf8_valid s
      else if 0xC2 \<le> byte a \<and> byte a \<le> 0xDF
      then (case s of b # s' \<Rightarrow> utf8_cont b \<and> utf8_valid s' | _ \<Rightarrow> False)
      else if 0xE0 \<le> byte a \<and> byte a \<le> 0xEF
      then (case s of b # c # s' \<Rightarrow> utf8_cont b \<and> utf8_cont c \<and> (byte a = 0xE0 \<longrightarrow> 0xA0 \<le> byte b)
              \<and> (byte a = 0xED \<longrightarrow> byte b < 0xA0) \<and> utf8_valid s' | _ \<Rightarrow> False)
      else if 0xF0 \<le> byte a \<and> byte a \<le> 0xF4
      then (case s of b # c # d # s' \<Rightarrow> utf8_cont b \<and> utf8_cont c \<and> utf8_cont d \<and> (byte a = 0xF0 \<longrightarrow> 0x90 \<le> byte b)
              \<and> (byte a = 0xF4 \<longrightarrow> byte b < 0x90) \<and> utf8_valid s' | _ \<Rightarrow> False)
      else False)"

lemma utf8_valid_ascii: "list_all (\<lambda>c. byte c < 128) s \<Longrightarrow> utf8_valid s"
  by (induction s) auto

text \<open>\<^verbatim>\<open>str::lines\<close>: a final empty piece is no line, and a carriage return before the line feed is dropped.\<close>

definition strip_cr :: "bytes \<Rightarrow> bytes" where
  "strip_cr l = (if l \<noteq> [] \<and> last l = CHR 0x0D then butlast l else l)"

definition str_lines :: "bytes \<Rightarrow> bytes list" where
  "str_lines s =
     (let ps = split_on (CHR 0x0A) s in
      map strip_cr (butlast ps) @ (if last ps = [] then [] else [last ps]))"

text \<open>\<^verbatim>\<open>s.chars().any(|c| c.is_whitespace())\<close> on UTF-8 text.\<close>

definition has_whitespace :: "bytes \<Rightarrow> bool" where
  "has_whitespace s \<longleftrightarrow> list_ex (\<lambda>w. str_contains s (map char_of w)) ws_seqs"

lemma has_whitespace_graphic:
  assumes "list_all graphic s"
  shows "\<not> has_whitespace s"
proof
  assume "has_whitespace s"
  then obtain w a b where w: "w \<in> set ws_seqs" "s = a @ map char_of w @ b"
    by (auto simp: has_whitespace_def str_contains_iff list_ex_iff)
  moreover have "w \<noteq> [] \<and> not_graphic (hd w)"
    using w(1) ws_seqs_not_graphic(1) by (simp add: list_all_iff)
  ultimately have "char_of (hd w) \<in> set s" "not_graphic (hd w)"
    by (cases w; simp)+
  then show False
    using assms by (auto simp: list_all_iff graphic_def not_graphic_def)
qed

end
