(* ===== verification/Dek_Cache.thy ===== *)
theory Dek_Cache
  imports Prelude "HOL-Library.List_Lexorder" "HOL-Library.Char_ord"
begin

text \<open>
  \<^verbatim>\<open>enclave/src/dek_cache.rs\<close>: the time-limited LRU cache of unwrapped data keys
  and the derivation of its lookup key.  Time is the monotonic clock in
  nanoseconds; \<^verbatim>\<open>Instant::duration_since\<close> saturates at zero, as subtraction on
  the naturals does.  A poisoned mutex is a flag of the state.  The lemmas keep
  map and recency queue in step, bound them, and show that a hit returns the
  key most recently stored under the same lookup key, never older than the
  time limit.
\<close>

section \<open>State and operations\<close>

definition DEFAULT_TTL_SECS :: nat where
  "DEFAULT_TTL_SECS = 60"

definition DEFAULT_MAX_ENTRIES :: nat where
  "DEFAULT_MAX_ENTRIES = 256"

definition MAX_ENTRIES_CEILING :: nat where
  "MAX_ENTRIES_CEILING = 1024"

datatype cache_error = Poisoned

record dek_entry =
  de_dek :: bytes
  de_inserted :: nat

record dek_cache =
  dc_ttl :: nat
  dc_max :: nat
  dc_poisoned :: bool
  dc_map :: "bytes \<rightharpoonup> dek_entry"
  dc_order :: "bytes list"

definition clamp :: "nat \<Rightarrow> nat \<Rightarrow> nat \<Rightarrow> nat" where
  [rust_std]: "clamp lo hi n = (if n < lo then lo else if n > hi then hi else n)"

definition dek_new :: "nat \<Rightarrow> nat \<Rightarrow> dek_cache" where
  "dek_new ttl mx = \<lparr>dc_ttl = ttl, dc_max = clamp 1 MAX_ENTRIES_CEILING mx, dc_poisoned = False,
     dc_map = Map.empty, dc_order = []\<rparr>"

definition dek_enabled :: "dek_cache \<Rightarrow> bool" where
  "dek_enabled c \<longleftrightarrow> dc_ttl c \<noteq> 0"

text \<open>Removal of the first occurrence of a key from the recency queue.\<close>

definition remove_from_order :: "bytes list \<Rightarrow> bytes \<Rightarrow> bytes list" where
  "remove_from_order order key = remove1 key order"

definition dek_get :: "bytes \<Rightarrow> nat \<Rightarrow> dek_cache \<Rightarrow> (cache_error, bytes option) result \<times> dek_cache" where
  "dek_get key now c =
     (if \<not> dek_enabled c then (Ok None, c)
      else if dc_poisoned c then (Err Poisoned, c)
      else case dc_map c key of
             None \<Rightarrow> (Ok None, c)
           | Some e \<Rightarrow>
               if now - de_inserted e \<ge> dc_ttl c
               then (Ok None, c\<lparr>dc_map := (dc_map c)(key := None),
                                dc_order := remove_from_order (dc_order c) key\<rparr>)
               else (Ok (Some (de_dek e)),
                     c\<lparr>dc_order := remove_from_order (dc_order c) key @ [key]\<rparr>))"

text \<open>The eviction loop of \<^verbatim>\<open>put\<close>: pop the least recently used key while the map is over its bound.\<close>

fun dek_evict :: "nat \<Rightarrow> bytes list \<Rightarrow> (bytes \<rightharpoonup> dek_entry) \<Rightarrow> bytes list \<times> (bytes \<rightharpoonup> dek_entry)" where
  "dek_evict mx [] m = ([], m)"
| "dek_evict mx (oldest # rest) m =
     (if card (dom m) > mx then dek_evict mx rest (m(oldest := None)) else (oldest # rest, m))"

definition dek_put :: "bytes \<Rightarrow> bytes \<Rightarrow> nat \<Rightarrow> dek_cache \<Rightarrow> (cache_error, unit) result \<times> dek_cache" where
  "dek_put key dek now c =
     (if \<not> dek_enabled c then (Ok (), c)
      else if dc_poisoned c then (Err Poisoned, c)
      else let order = (if dc_map c key \<noteq> None then remove_from_order (dc_order c) key else dc_order c);
               m = (dc_map c)(key \<mapsto> \<lparr>de_dek = dek, de_inserted = now\<rparr>);
               (order', m') = dek_evict (dc_max c) (order @ [key]) m
           in (Ok (), c\<lparr>dc_map := m', dc_order := order'\<rparr>))"

definition dek_flush :: "dek_cache \<Rightarrow> dek_cache" where
  "dek_flush c = c\<lparr>dc_map := Map.empty, dc_order := []\<rparr>"

text \<open>
  \<^verbatim>\<open>env_ttl\<close> and \<^verbatim>\<open>env_max\<close> on the parsed value of the environment variable (\<open>None\<close> when it
  is absent or does not parse).
\<close>

definition env_ttl :: "nat option \<Rightarrow> nat" where
  "env_ttl v = (case v of Some secs \<Rightarrow> secs | None \<Rightarrow> DEFAULT_TTL_SECS)"

definition env_max :: "nat option \<Rightarrow> nat" where
  "env_max v = min MAX_ENTRIES_CEILING
     (case v of Some n \<Rightarrow> if n > 0 then n else DEFAULT_MAX_ENTRIES | None \<Rightarrow> DEFAULT_MAX_ENTRIES)"

text \<open>
  The lookup key: SHA-256, a parameter, of the length-prefixed wrapped key and
  the context entries sorted by name.  The context is the list of the hash
  map's entries.
\<close>

fun context_bytes :: "(bytes \<times> bytes) list \<Rightarrow> bytes" where
  "context_bytes [] = []"
| "context_bytes ((k, v) # kvs) = k @ [char_of (0x1E :: nat)] @ v @ [char_of (0x1D :: nat)] @ context_bytes kvs"

definition derive_key_preimage :: "bytes \<Rightarrow> (bytes \<times> bytes) list option \<Rightarrow> bytes" where
  "derive_key_preimage wrapped_dek enc_ctx =
     le_bytes 8 (length wrapped_dek) @ wrapped_dek @ [char_of (0x1F :: nat)] @
     (case enc_ctx of None \<Rightarrow> [] | Some ctx \<Rightarrow> context_bytes (sort_key fst ctx))"

definition derive_key :: "(bytes \<Rightarrow> bytes) \<Rightarrow> bytes \<Rightarrow> (bytes \<times> bytes) list option \<Rightarrow> bytes" where
  "derive_key sha256 wrapped_dek enc_ctx = sha256 (derive_key_preimage wrapped_dek enc_ctx)"

section \<open>Invariant\<close>

definition dek_inv :: "dek_cache \<Rightarrow> bool" where
  "dek_inv c \<longleftrightarrow> dom (dc_map c) = set (dc_order c) \<and> distinct (dc_order c)
     \<and> length (dc_order c) \<le> dc_max c \<and> 1 \<le> dc_max c \<and> dc_max c \<le> MAX_ENTRIES_CEILING"

lemma dek_inv_new [simp]: "dek_inv (dek_new ttl mx)"
  by (simp add: dek_inv_def dek_new_def clamp_def MAX_ENTRIES_CEILING_def)

lemma dek_inv_flush: "dek_inv c \<Longrightarrow> dek_inv (dek_flush c)"
  by (simp add: dek_inv_def dek_flush_def)

lemma dek_inv_get:
  assumes "dek_inv c"
  shows "dek_inv (snd (dek_get key now c))"
proof (cases "dc_map c key")
  case None
  then show ?thesis using assms by (simp add: dek_get_def)
next
  case (Some e)
  then have "key \<in> set (dc_order c)"
    using assms by (auto simp: dek_inv_def)
  moreover from this have "length (dc_order c) > 0" by auto
  ultimately show ?thesis
    using assms Some by (auto simp: dek_get_def dek_inv_def remove_from_order_def length_remove1)
qed

lemma dek_evict_le: "card (dom m) \<le> mx \<Longrightarrow> dek_evict mx order m = (order, m)"
  by (cases order) auto

lemma dek_evict_one:
  assumes "dom m = set order" "distinct order" "length order \<le> Suc mx" "1 \<le> mx"
  shows "dek_evict mx order m =
    (if length order \<le> mx then (order, m) else (tl order, m(hd order := None)))"
proof (cases order)
  case (Cons k ks)
  have card: "card (dom m) = length order"
    using assms by (simp add: distinct_card)
  have "dom (m(k := None)) = set ks"
    using assms Cons by auto
  then have "card (dom (m(k := None))) = length ks"
    using assms Cons by (simp add: distinct_card)
  then show ?thesis
    using assms Cons card dek_evict_le [of "m(k := None)" mx ks] by auto
qed simp

text \<open>The recency queue and map just before the eviction loop of a store.\<close>

lemma dek_put_cases:
  fixes key dek now
  assumes "dek_inv c" "dek_enabled c" "\<not> dc_poisoned c"
  defines "order \<equiv> remove1 key (dc_order c) @ [key]"
    and "m \<equiv> (dc_map c)(key \<mapsto> \<lparr>de_dek = dek, de_inserted = now\<rparr>)"
  shows "dek_put key dek now c = (Ok (),
    (if length order \<le> dc_max c then c\<lparr>dc_map := m, dc_order := order\<rparr>
     else c\<lparr>dc_map := m(hd order := None), dc_order := tl order\<rparr>))"
    "dom m = set order" "distinct order" "length order \<le> Suc (dc_max c)"
proof -
  have inv: "dom (dc_map c) = set (dc_order c)" "distinct (dc_order c)" "length (dc_order c) \<le> dc_max c" "1 \<le> dc_max c"
    using assms(1) by (auto simp: dek_inv_def)
  have same: "(if dc_map c key \<noteq> None then remove_from_order (dc_order c) key else dc_order c) = remove1 key (dc_order c)"
    using inv(1) by (metis domIff remove1_idem remove_from_order_def)
  show dom: "dom m = set order" "distinct order"
    using inv by (auto simp: order_def m_def)
  have "length (remove1 key (dc_order c)) \<le> length (dc_order c)"
    by (simp add: length_remove1)
  then show len: "length order \<le> Suc (dc_max c)"
    using inv(3) by (simp add: order_def)
  show "dek_put key dek now c = (Ok (),
    (if length order \<le> dc_max c then c\<lparr>dc_map := m, dc_order := order\<rparr>
     else c\<lparr>dc_map := m(hd order := None), dc_order := tl order\<rparr>))"
    using assms(2,3) dek_evict_one [OF dom len inv(4)] same
    by (simp add: dek_put_def Let_def order_def m_def)
qed

lemma dek_inv_put:
  assumes "dek_inv c"
  shows "dek_inv (snd (dek_put key dek now c))"
proof (cases "dek_enabled c \<and> \<not> dc_poisoned c")
  case False
  then show ?thesis using assms by (auto simp: dek_put_def)
next
  case True
  then have en: "dek_enabled c" "\<not> dc_poisoned c" by auto
  let ?o = "remove1 key (dc_order c) @ [key]"
  obtain k ks where o: "?o = k # ks" by (cases ?o) auto
  show ?thesis
    using dek_put_cases(1,2) [OF assms en, of key dek now] dek_put_cases(3,4) [OF assms en, of key] assms o
    by (auto simp: dek_inv_def)
qed


section \<open>Traces\<close>

text \<open>
  A history of the cache, each store and lookup with the clock reading it
  made.  \<open>last_put\<close> is the specification: what a cache without expiry and
  eviction would remember for a key.
\<close>

datatype dek_op = Put bytes bytes nat | Get bytes nat | Flush

fun dek_step :: "dek_op \<Rightarrow> dek_cache \<Rightarrow> dek_cache" where
  "dek_step (Put k d t) c = snd (dek_put k d t c)"
| "dek_step (Get k t) c = snd (dek_get k t c)"
| "dek_step Flush c = dek_flush c"

fun last_put_step :: "bytes \<Rightarrow> dek_op \<Rightarrow> (bytes \<times> nat) option \<Rightarrow> (bytes \<times> nat) option" where
  "last_put_step k (Put k' d t) r = (if k' = k then Some (d, t) else r)"
| "last_put_step k (Get k' t) r = r"
| "last_put_step k Flush r = None"

definition dek_run :: "dek_op list \<Rightarrow> dek_cache \<Rightarrow> dek_cache" where
  "dek_run ops c = fold dek_step ops c"

definition last_put :: "bytes \<Rightarrow> dek_op list \<Rightarrow> (bytes \<times> nat) option" where
  "last_put k ops = fold (last_put_step k) ops None"

definition remembers :: "dek_cache \<Rightarrow> (bytes \<Rightarrow> (bytes \<times> nat) option) \<Rightarrow> bool" where
  "remembers c f \<longleftrightarrow> (\<forall>k e. dc_map c k = Some e \<longrightarrow> f k = Some (de_dek e, de_inserted e))"

lemma dek_step_config [simp]:
  "dc_ttl (dek_step op c) = dc_ttl c" "dc_max (dek_step op c) = dc_max c"
  "dc_poisoned (dek_step op c) = dc_poisoned c"
  by (cases op; simp add: dek_put_def dek_get_def dek_flush_def Let_def split: option.splits prod.splits)+

lemma dek_run_config [simp]: "dc_ttl (dek_run ops c) = dc_ttl c" "dc_poisoned (dek_run ops c) = dc_poisoned c"
  by (induction ops arbitrary: c) (simp_all add: dek_run_def)

lemma dek_step_inv: "dek_inv c \<Longrightarrow> dek_inv (dek_step op c)"
  by (cases op) (simp_all add: dek_inv_put dek_inv_get dek_inv_flush)

lemma dek_run_inv: "dek_inv c \<Longrightarrow> dek_inv (dek_run ops c)"
  by (induction ops arbitrary: c) (simp_all add: dek_run_def dek_step_inv)

lemma dek_evict_sub: "dek_evict mx order m = (order', m') \<Longrightarrow> m' \<subseteq>\<^sub>m m"
proof (induction mx order m rule: dek_evict.induct)
  case (2 mx k ks m)
  then show ?case
    by (fastforce simp: map_le_def split: if_splits)
qed simp

lemma dek_step_remembers:
  assumes "remembers c f" "dek_enabled c" "\<not> dc_poisoned c"
  shows "remembers (dek_step op c) (\<lambda>k. last_put_step k op (f k))"
proof (cases op)
  case (Put k d t)
  obtain order' m' where ev:
    "dek_evict (dc_max c) ((if dc_map c k \<noteq> None then remove_from_order (dc_order c) k else dc_order c) @ [k])
       ((dc_map c)(k \<mapsto> \<lparr>de_dek = d, de_inserted = t\<rparr>)) = (order', m')"
    by fastforce
  have sub: "m' \<subseteq>\<^sub>m (dc_map c)(k \<mapsto> \<lparr>de_dek = d, de_inserted = t\<rparr>)"
    using dek_evict_sub [OF ev] .
  have "dc_map (dek_step op c) = m'"
    using assms(2,3) ev by (simp add: Put dek_put_def Let_def)
  then show ?thesis
    using sub assms(1) by (force simp: remembers_def Put map_le_def dom_def split: if_splits)
next
  case (Get k t)
  then show ?thesis
    using assms by (auto simp: remembers_def dek_get_def split: option.splits if_splits)
next
  case Flush
  then show ?thesis
    by (simp add: remembers_def dek_flush_def)
qed

lemma dek_run_remembers:
  "remembers c f \<Longrightarrow> dek_enabled c \<Longrightarrow> \<not> dc_poisoned c \<Longrightarrow>
   remembers (dek_run ops c) (\<lambda>k. fold (last_put_step k) ops (f k))"
proof (induction ops arbitrary: c f)
  case (Cons op ops)
  then show ?case
    using Cons.IH [OF dek_step_remembers [OF Cons.prems]] by (simp add: dek_run_def dek_enabled_def)
qed (simp add: dek_run_def)


section \<open>Properties\<close>

abbreviation sep_field :: char where
  "sep_field \<equiv> char_of (0x1E :: nat)"

abbreviation sep_entry :: char where
  "sep_entry \<equiv> char_of (0x1D :: nat)"

definition clean_context :: "(bytes \<times> bytes) list \<Rightarrow> bool" where
  "clean_context ctx = list_all (\<lambda>(k, v). sep_field \<notin> set k \<and> sep_entry \<notin> set v) ctx"

lemma context_bytes_inj:
  "clean_context ctx \<Longrightarrow> clean_context ctx' \<Longrightarrow> context_bytes ctx = context_bytes ctx' \<Longrightarrow> ctx = ctx'"
proof (induction ctx arbitrary: ctx' rule: context_bytes.induct)
  case 1
  then show ?case by (cases ctx' rule: context_bytes.cases) auto
next
  case (2 k v kvs)
  then obtain k' v' kvs' where ctx': "ctx' = (k', v') # kvs'"
    by (cases ctx' rule: context_bytes.cases) auto
  have clean: "sep_field \<notin> set k" "sep_field \<notin> set k'" "sep_entry \<notin> set v" "sep_entry \<notin> set v'"
    using "2.prems" by (simp_all add: ctx' clean_context_def)
  have eq: "k @ sep_field # (v @ sep_entry # context_bytes kvs) = k' @ sep_field # (v' @ sep_entry # context_bytes kvs')"
    using "2.prems"(3) by (simp only: ctx' context_bytes.simps append_Cons append_Nil)
  have "k = k'" "v = v'" "context_bytes kvs = context_bytes kvs'"
    using eq unfolding sep_cancel [OF clean(1,2)] sep_cancel [OF clean(3,4)] by auto
  then show ?case
    using 2 by (simp add: ctx' clean_context_def)
qed

lemma clean_context_sort [simp]: "clean_context (sort_key fst ctx) = clean_context ctx"
  by (auto simp: clean_context_def list_all_iff)

text \<open>
  C29: A cache hit at time \<open>now\<close>, after any history of stores, lookups and flushes, returns the
  data key that was stored last under the same lookup key, with no flush since, and less
  than the time limit ago: no other customer's key, no superseded key, no expired key.
\<close>

theorem dek_hit_sound:
  assumes "dek_get k now (dek_run ops (dek_new ttl mx)) = (Ok (Some d), c')"
  shows "\<exists>t. last_put k ops = Some (d, t) \<and> now - t < ttl"
proof -
  let ?c = "dek_run ops (dek_new ttl mx)"
  have new: "remembers (dek_new ttl mx) (\<lambda>_. None)" "\<not> dc_poisoned (dek_new ttl mx)"
    by (simp_all add: remembers_def dek_new_def)
  obtain e where e: "dc_map ?c k = Some e" "d = de_dek e" "now - de_inserted e < dc_ttl ?c" "dek_enabled ?c"
    using assms by (auto simp: dek_get_def split: if_splits option.splits)
  have "dc_ttl ?c = ttl" "dek_enabled (dek_new ttl mx)"
    using e(4) by (simp_all add: dek_new_def dek_enabled_def)
  then show ?thesis
    using dek_run_remembers [OF new(1) _ new(2), of ops] e by (auto simp: remembers_def last_put_def)
qed

lemma dek_hit_sound_witness:
  "dek_get ''k'' 7 (dek_run [Put ''k'' ''D'' 3] (dek_new 5 2))
     = (Ok (Some ''D''), dek_run [Put ''k'' ''D'' 3] (dek_new 5 2))
   \<and> (\<exists>t. last_put ''k'' [Put ''k'' ''D'' 3] = Some (''D'', t) \<and> 7 - t < (5::nat))"
proof -
  have "dek_get ''k'' 7 (dek_run [Put ''k'' ''D'' 3] (dek_new 5 2))
     = (Ok (Some ''D''), dek_run [Put ''k'' ''D'' 3] (dek_new 5 2))"
    by (simp add: dek_run_def dek_new_def dek_put_def dek_get_def dek_enabled_def clamp_def
          MAX_ENTRIES_CEILING_def remove_from_order_def)
  then show ?thesis
    using dek_hit_sound [of "''k''" 7 "[Put ''k'' ''D'' 3]" 5 2 "''D''"] by blast
qed

text \<open>
  C30: After any history the map and the recency queue hold the same lookup keys, each once,
  and never more than the configured bound, itself between 1 and 1024; and with the cache
  enabled a data key just stored is found again until the time limit has passed, and not from
  then on.
\<close>

theorem dek_cache_bounded_and_live:
  fixes ops ttl mx
  defines "c \<equiv> dek_run ops (dek_new ttl mx)"
  shows "dom (dc_map c) = set (dc_order c) \<and> distinct (dc_order c)
    \<and> card (dom (dc_map c)) \<le> clamp 1 MAX_ENTRIES_CEILING mx
    \<and> fst (dek_get k now (snd (dek_put k d t c))) = Ok (if ttl \<noteq> 0 \<and> now - t < ttl then Some d else None)"
proof -
  have inv: "dek_inv c" and cfg: "dc_ttl c = ttl" "\<not> dc_poisoned c"
    by (simp_all add: c_def dek_run_inv) (simp_all add: dek_new_def)
  have mx: "dc_max c = clamp 1 MAX_ENTRIES_CEILING mx"
    unfolding c_def dek_run_def by (induction ops arbitrary: rule: rev_induct) (simp_all add: dek_new_def)
  have "fst (dek_get k now (snd (dek_put k d t c))) = Ok (if ttl \<noteq> 0 \<and> now - t < ttl then Some d else None)"
  proof (cases "dek_enabled c")
    case False
    then show ?thesis using cfg by (simp add: dek_put_def dek_get_def dek_enabled_def)
  next
    case True
    let ?o = "remove1 k (dc_order c) @ [k]"
    note put = dek_put_cases(1) [OF inv True cfg(2), of k d t]
    have "length ?o > dc_max c \<Longrightarrow> hd ?o \<noteq> k"
    proof
      assume "length ?o > dc_max c" "hd ?o = k"
      moreover have "1 \<le> dc_max c" "distinct (dc_order c)" using inv by (auto simp: dek_inv_def)
      moreover have "k \<notin> set (remove1 k (dc_order c))"
        using inv by (auto simp: dek_inv_def)
      ultimately show False by (cases "remove1 k (dc_order c)") auto
    qed
    then have "dc_map (snd (dek_put k d t c)) k = Some \<lparr>de_dek = d, de_inserted = t\<rparr>"
      by (auto simp: put intro: leI)
    moreover have "dc_ttl (snd (dek_put k d t c)) = ttl" "\<not> dc_poisoned (snd (dek_put k d t c))"
      using dek_step_config [of "Put k d t" c] cfg by auto
    ultimately show ?thesis
      using True cfg by (auto simp: dek_get_def dek_enabled_def)
  qed
  then show ?thesis
    using inv by (simp add: dek_inv_def distinct_card mx)
qed

lemma derive_key_preimage_cancel:
  assumes "length w < 2 ^ 64" "length w' < 2 ^ 64" "clean_context ctx" "clean_context ctx'"
    and "derive_key_preimage w (Some ctx) = derive_key_preimage w' (Some ctx')"
  shows "w = w' \<and> sort_key fst ctx = sort_key fst ctx'"
proof -
  have "fits 8 (length w)" "fits 8 (length w')"
    using assms(1,2) by (simp_all add: fits_def)
  then have "length w = length w' \<and>
      w @ [char_of (0x1F :: nat)] @ context_bytes (sort_key fst ctx)
      = w' @ [char_of (0x1F :: nat)] @ context_bytes (sort_key fst ctx')"
    using le.cancel [of 8 "length w" "length w'"] assms(5) unfolding derive_key_preimage_def by fastforce
  then have "w = w'" "context_bytes (sort_key fst ctx) = context_bytes (sort_key fst ctx')"
    by (auto dest: append_eq_append_conv [THEN iffD1, rotated])
  then show ?thesis
    using context_bytes_inj assms(3,4) by simp
qed

text \<open>
  The string hashed into the lookup key determines the wrapped key and, when no context
  name holds the byte 0x1E and no context value the byte 0x1D, the context entries as well.
\<close>

theorem derive_key_preimage_inj:
  assumes "length w < 2 ^ 64" "length w' < 2 ^ 64" "clean_context ctx" "clean_context ctx'"
    and "derive_key_preimage w (Some ctx) = derive_key_preimage w' (Some ctx')"
  shows "w = w' \<and> sort_key fst ctx = sort_key fst ctx'"
  using assms by (rule derive_key_preimage_cancel)

lemma derive_key_preimage_inj_witness:
  "clean_context [(''venue_id'', ''okx''), (''customer_id'', ''a'')]
   \<and> derive_key_preimage ''W'' (Some [(''venue_id'', ''okx''), (''customer_id'', ''a'')])
     = derive_key_preimage ''W'' (Some [(''customer_id'', ''a''), (''venue_id'', ''okx'')])
   \<and> sort_key fst [(''venue_id'', ''okx''), (''customer_id'', ''a'')]
     = sort_key fst [(''customer_id'', ''a''), (''venue_id'', ''okx'')]"
proof -
  have 1: "clean_context [(''venue_id'', ''okx''), (''customer_id'', ''a'')]"
    "clean_context [(''customer_id'', ''a''), (''venue_id'', ''okx'')]"
    by (simp_all add: clean_context_def char_of_def)
  have 2: "derive_key_preimage ''W'' (Some [(''venue_id'', ''okx''), (''customer_id'', ''a'')])
     = derive_key_preimage ''W'' (Some [(''customer_id'', ''a''), (''venue_id'', ''okx'')])"
    by code_simp
  show ?thesis
    using derive_key_preimage_inj [of "''W''" "''W''", OF _ _ 1 2] 1 2 by simp
qed

text \<open>
  For contexts whose keys or values hold the separators, which no registered identity has, the bytes do not determine the
  context: one of one entry and one of two entries are hashed alike, whatever the hash.
\<close>

lemma derive_key_separator_collision:
  "derive_key sha256 w (Some [(''a'', ''b'' @ [sep_entry] @ ''c'' @ [sep_field] @ ''d'')])
   = derive_key sha256 w (Some [(''a'', ''b''), (''c'', ''d'')])"
  by (simp add: derive_key_def derive_key_preimage_def sort_key_simps)

end
