(* ===== verification/Kms_Client.thy ===== *)
theory Kms_Client
  imports Proto Text_Search Dek_Cache
begin

text \<open>
  \<^verbatim>\<open>enclave/src/kms_client.rs\<close>: the calls of the \<^verbatim>\<open>kmstool_enclave_cli\<close> child process that
  decrypts and wraps data keys.  The process is a parameter: what it answers to an
  argument vector and a text on its standard input, or that it could not be run.
  The functions here build both, classify a failure and read the answer.

  Shown here: the text on standard input has one line per secret and nothing else, so
  no secret can smuggle a second assignment, and it determines the credentials.
\<close>

record kms_output =
  ko_success :: bool
  ko_stdout :: bytes
  ko_stderr :: bytes

record kms_ext = enclave_ext +
  kmstool :: "bytes list \<Rightarrow> bytes \<Rightarrow> kms_output option"

datatype decrypt_error = DecryptAccessDenied | DecryptInternal

datatype gen_key_error = GenKeyAccessDenied | GenKeyInternal

definition REGION :: bytes where
  "REGION = ''us-east-1''"

definition PROXY_PORT :: nat where
  "PROXY_PORT = 8000"


section \<open>What the child process is given\<close>

definition stdin_value_ok :: "bytes \<Rightarrow> bool" where
  "stdin_value_ok v \<longleftrightarrow> CHR 0x0A \<notin> set v \<and> CHR 0x0D \<notin> set v \<and> v \<noteq> []"

definition stdin_line :: "bytes \<Rightarrow> bytes \<Rightarrow> bytes" where
  "stdin_line k v = k @ ''='' @ v @ [CHR 0x0A]"

definition stdin_secrets :: "aws_credentials \<Rightarrow> bytes option \<Rightarrow> (bytes \<times> bytes) list" where
  "stdin_secrets creds dek_b64 =
     [(''AWS_ACCESS_KEY_ID'', ac_access_key_id creds), (''AWS_SECRET_ACCESS_KEY'', ac_secret_access_key creds),
      (''AWS_SESSION_TOKEN'', ac_session_token creds)]
     @ (case dek_b64 of None \<Rightarrow> [] | Some d \<Rightarrow> [(''PLAINTEXT_B64'', d)])"

definition build_stdin_secrets :: "aws_credentials \<Rightarrow> bytes option \<Rightarrow> (unit, bytes) result" where
  "build_stdin_secrets creds dek_b64 =
     (if list_all (\<lambda>(k, v). stdin_value_ok v) (stdin_secrets creds dek_b64)
      then Ok (concat (map (\<lambda>(k, v). stdin_line k v) (stdin_secrets creds dek_b64)))
      else Err ())"

definition encrypt_argv :: "bytes list \<Rightarrow> bytes list" where
  "encrypt_argv tail =
     [''encrypt'', ''--secrets-from-stdin'', ''--region'', REGION, ''--proxy-port'', show_nat PROXY_PORT] @ tail"

definition decrypt_argv :: "bytes \<Rightarrow> bytes list" where
  "decrypt_argv ciphertext_b64 =
     [''decrypt'', ''--secrets-from-stdin'', ''--region'', REGION, ''--proxy-port'', show_nat PROXY_PORT,
      ''--ciphertext'', ciphertext_b64]"

definition has_forbidden :: "bytes \<Rightarrow> bool" where
  "has_forbidden s \<longleftrightarrow> CHR ''='' \<in> set s \<or> CHR 0x00 \<in> set s \<or> has_whitespace s"

definition validate_context_pair :: "bytes \<Rightarrow> bytes \<Rightarrow> (decrypt_error, unit) result" where
  "validate_context_pair key value =
     (if key = [] \<or> value = [] \<or> has_forbidden key \<or> has_forbidden value then Err DecryptInternal else Ok ())"

fun context_args :: "(bytes \<times> bytes) list \<Rightarrow> (decrypt_error, bytes list) result" where
  "context_args [] = Ok []"
| "context_args ((k, v) # kvs) =
     try_res (validate_context_pair k v) (\<lambda>_.
     try_res (context_args kvs) (\<lambda>args.
     Ok (''--encryption-context'' # (k @ ''='' @ v) # args)))"

definition build_encrypt_args :: "bytes \<Rightarrow> (bytes \<times> bytes) list \<Rightarrow> (gen_key_error, bytes list) result" where
  "build_encrypt_args key_id ctx =
     (if ctx = [] then Err GenKeyInternal
      else try_res (map_err (\<lambda>_. GenKeyInternal) (context_args (sort_key fst ctx))) (\<lambda>args.
        Ok (''--key-id'' # key_id # args)))"


section \<open>What the child process answers\<close>

text \<open>
  The prefix test looks at the first bytes of the trimmed line, where the source's
  \<^verbatim>\<open>get(..n)\<close> also asks that the cut is no continuation byte.
\<close>

definition line_value :: "bytes \<Rightarrow> bytes \<Rightarrow> bytes option" where
  "line_value pfx line =
     (let trimmed = trim line in
      if length pfx \<le> length trimmed \<and> (length pfx = length trimmed \<or> \<not> utf8_cont (trimmed ! length pfx))
         \<and> eq_ignore_ascii_case (take (length pfx) trimmed) pfx
      then Some (trim (drop (length pfx) trimmed)) else None)"

fun first_value :: "bytes \<Rightarrow> bytes list \<Rightarrow> bytes option" where
  "first_value pfx [] = None"
| "first_value pfx (l # ls) = (case line_value pfx l of Some v \<Rightarrow> Some v | None \<Rightarrow> first_value pfx ls)"

definition parse_kmstool_line :: "bytes \<Rightarrow> bytes \<Rightarrow> bytes option" where
  "parse_kmstool_line stdout pfx = (if utf8_valid stdout then first_value pfx (str_lines stdout) else None)"

definition parse_kmstool_stdout :: "bytes \<Rightarrow> bytes option" where
  "parse_kmstool_stdout stdout = parse_kmstool_line stdout ''PLAINTEXT:''"

lemma line_value_graphic:
  assumes "list_all graphic (pfx @ v)"
  shows "line_value pfx (pfx @ v) = Some v"
proof -
  have "trim (pfx @ v) = pfx @ v" "trim v = v"
    using assms by (intro trim_graphic; cases v; cases pfx; simp add: list_all_iff)+
  moreover have "length pfx = length (pfx @ v) \<or> \<not> utf8_cont ((pfx @ v) ! length pfx)"
    using assms by (cases v) (auto simp: nth_append graphic_def utf8_cont_def)
  ultimately show ?thesis
    by (simp add: line_value_def Let_def eq_ignore_ascii_case_def)
qed

text \<open>
  The denial signals in the error text.  Full lower-casing and ASCII lower-casing agree on
  whether one of these ASCII words occurs.
\<close>

definition denied_signal :: "bytes list \<Rightarrow> bytes \<Rightarrow> bool" where
  "denied_signal signals stderr \<longleftrightarrow> list_ex (str_contains (to_ascii_lowercase stderr)) signals"

definition DECRYPT_SIGNALS :: "bytes list" where
  "DECRYPT_SIGNALS = [''accessdenied'', ''access denied'', ''not authorized'', ''invalidciphertext'', ''pcr'']"

definition ENCRYPT_SIGNALS :: "bytes list" where
  "ENCRYPT_SIGNALS = [''accessdenied'', ''access denied'', ''not authorized'', ''pcr'']"

definition run_with_stdin_secrets :: "'x kms_ext_scheme \<Rightarrow> bytes list \<Rightarrow> bytes \<Rightarrow> (unit, kms_output) result" where
  "run_with_stdin_secrets X argv payload = ok_or () (kmstool X argv payload)"

definition decrypt_output :: "'x kms_ext_scheme \<Rightarrow> kms_output \<Rightarrow> (decrypt_error, bytes) result" where
  "decrypt_output X output =
     (if \<not> ko_success output
      then Err (if denied_signal DECRYPT_SIGNALS (ko_stderr output) then DecryptAccessDenied else DecryptInternal)
      else try_res (ok_or DecryptInternal (parse_kmstool_stdout (ko_stdout output))) (\<lambda>plaintext_b64.
        ok_or DecryptInternal (b64_decode X plaintext_b64)))"

definition kms_client_decrypt ::
  "'x kms_ext_scheme \<Rightarrow> aws_credentials \<Rightarrow> bytes \<Rightarrow> (bytes \<times> bytes) list option \<Rightarrow> (decrypt_error, bytes) result" where
  "kms_client_decrypt X creds ciphertext enc_ctx =
     try_res (case enc_ctx of None \<Rightarrow> Ok [] | Some ctx \<Rightarrow> context_args (sort_key fst ctx)) (\<lambda>args.
     try_res (map_err (\<lambda>_. DecryptInternal) (build_stdin_secrets creds None)) (\<lambda>payload.
     try_res (map_err (\<lambda>_. DecryptInternal)
       (run_with_stdin_secrets X (decrypt_argv (b64_encode X ciphertext) @ args) payload)) (\<lambda>output.
     decrypt_output X output)))"

definition wrap_output :: "'x kms_ext_scheme \<Rightarrow> kms_output \<Rightarrow> (gen_key_error, bytes) result" where
  "wrap_output X output =
     (if \<not> ko_success output
      then Err (if denied_signal ENCRYPT_SIGNALS (ko_stderr output) then GenKeyAccessDenied else GenKeyInternal)
      else try_res (ok_or GenKeyInternal (parse_kmstool_line (ko_stdout output) ''CIPHERTEXT:'')) (\<lambda>ciphertext_b64.
        try_res (ok_or GenKeyInternal (b64_decode X ciphertext_b64)) (\<lambda>wrapped.
        if wrapped = [] then Err GenKeyInternal else Ok wrapped)))"

definition wrap_dek_with_context ::
  "'x kms_ext_scheme \<Rightarrow> aws_credentials \<Rightarrow> bytes \<Rightarrow> bytes \<Rightarrow> (bytes \<times> bytes) list option \<Rightarrow> (gen_key_error, bytes) result" where
  "wrap_dek_with_context X creds key_id dek enc_ctx =
     (case enc_ctx of
        None \<Rightarrow> Err GenKeyInternal
      | Some ctx \<Rightarrow>
          if ctx = [] then Err GenKeyInternal
          else if length dek \<noteq> 32 then Err GenKeyInternal
          else try_res (build_encrypt_args key_id ctx) (\<lambda>tail.
            try_res (map_err (\<lambda>_. GenKeyInternal) (build_stdin_secrets creds (Some (b64_encode X dek)))) (\<lambda>payload.
            try_res (map_err (\<lambda>_. GenKeyInternal) (run_with_stdin_secrets X (encrypt_argv tail) payload)) (\<lambda>output.
            wrap_output X output))))"


section \<open>The payload carries the secrets and nothing else\<close>

lemma stdin_lines:
  assumes "list_all (\<lambda>(k, v). CHR 0x0A \<notin> set k \<and> stdin_value_ok v) kvs"
  shows "split_on (CHR 0x0A) (concat (map (\<lambda>(k, v). stdin_line k v) kvs)) = map (\<lambda>(k, v). k @ ''='' @ v) kvs @ [[]]"
  using assms
proof (induction kvs)
  case (Cons kv kvs)
  obtain k v where kv: "kv = (k, v)"
    by (cases kv)
  have "split_on (CHR 0x0A) ((k @ ''='' @ v) @ CHR 0x0A # concat (map (\<lambda>(k, v). stdin_line k v) kvs)) =
      (k @ ''='' @ v) # split_on (CHR 0x0A) (concat (map (\<lambda>(k, v). stdin_line k v) kvs))"
    by (rule split_on_append) (use Cons(2) kv in \<open>simp add: stdin_value_ok_def\<close>)
  then show ?case
    using Cons kv by (simp add: stdin_line_def)
qed simp

lemma stdin_payload_lines:
  assumes "build_stdin_secrets creds dek = Ok p"
  shows "split_on (CHR 0x0A) p = map (\<lambda>(k, v). k @ ''='' @ v) (stdin_secrets creds dek) @ [[]]"
proof -
  have "list_all (\<lambda>(k, v). stdin_value_ok v) (stdin_secrets creds dek)"
    "p = concat (map (\<lambda>(k, v). stdin_line k v) (stdin_secrets creds dek))"
    using assms by (simp_all add: build_stdin_secrets_def split: if_splits)
  moreover from this(1)
  have "list_all (\<lambda>(k, v). CHR 0x0A \<notin> set k \<and> stdin_value_ok v) (stdin_secrets creds dek)"
    by (cases dek) (simp_all add: stdin_secrets_def)
  ultimately show ?thesis
    using stdin_lines by blast
qed

text \<open>
  C39: No injection through the child's standard input.  When a payload is built, splitting it at line
  feeds gives one \<open>KEY=value\<close> line for each of the three credential parts, in order, and one for the
  data key exactly when there is one, and nothing after the last line feed; no value is empty or
  contains a line delimiter.
\<close>

theorem kms_payload_no_injection:
  assumes "build_stdin_secrets creds dek = Ok p"
  shows "split_on (CHR 0x0A) p =
      [''AWS_ACCESS_KEY_ID='' @ ac_access_key_id creds, ''AWS_SECRET_ACCESS_KEY='' @ ac_secret_access_key creds,
       ''AWS_SESSION_TOKEN='' @ ac_session_token creds]
      @ (case dek of None \<Rightarrow> [] | Some d \<Rightarrow> [''PLAINTEXT_B64='' @ d]) @ [[]]
    \<and> (\<forall>(k, v) \<in> set (stdin_secrets creds dek). v \<noteq> [] \<and> CHR 0x0A \<notin> set v \<and> CHR 0x0D \<notin> set v)"
proof -
  have "list_all (\<lambda>(k, v). stdin_value_ok v) (stdin_secrets creds dek)"
    using assms by (simp add: build_stdin_secrets_def split: if_splits)
  then show ?thesis
    using stdin_payload_lines [OF assms]
    by (cases dek) (simp_all add: stdin_secrets_def stdin_value_ok_def)
qed

theorem kms_payload_no_injection_witness:
  "(\<exists>p. build_stdin_secrets \<lparr>ac_access_key_id = ''A'', ac_secret_access_key = ''S'', ac_session_token = ''T''\<rparr> (Some ''D'') = Ok p
      \<and> split_on (CHR 0x0A) p = [''AWS_ACCESS_KEY_ID=A'', ''AWS_SECRET_ACCESS_KEY=S'', ''AWS_SESSION_TOKEN=T'', ''PLAINTEXT_B64=D'', []])
   \<and> build_stdin_secrets \<lparr>ac_access_key_id = ''A'', ac_secret_access_key = ''S'', ac_session_token = CHR 0x0A # ''PLAINTEXT_B64=x''\<rparr>
       None = Err ()"
proof -
  let ?c = "\<lparr>ac_access_key_id = ''A'', ac_secret_access_key = ''S'', ac_session_token = ''T''\<rparr>"
  have "is_ok (build_stdin_secrets ?c (Some ''D''))"
    by code_simp
  then obtain p where p: "build_stdin_secrets ?c (Some ''D'') = Ok p"
    by (auto simp: result_simps)
  have "build_stdin_secrets \<lparr>ac_access_key_id = ''A'', ac_secret_access_key = ''S'',
      ac_session_token = CHR 0x0A # ''PLAINTEXT_B64=x''\<rparr> None = Err ()"
    by code_simp
  then show ?thesis
    using p kms_payload_no_injection [OF p] by simp
qed

end
