(* ===== verification/Registry.thy ===== *)
theory Registry
  imports Proto
begin

unbundle bit_operations_syntax

text \<open>
  \<^verbatim>\<open>enclave/src/registry.rs\<close>: the signed, nonce-bound registry of tenants.  The
  state is the resident list of entries with its version and the nonce of the
  last challenge.  A refresh is modelled in the two critical sections the code
  has, validation with a peek at the nonce and the atomic commit, so that
  interleavings of concurrent refreshes and challenges are sequences of steps.
  The branch-free lookup of \<^verbatim>\<open>resolve\<close> is modelled on machine words.  The
  lemmas show what an install implies, that versions only grow, that a
  challenge admits one refresh, and that lookup finds the last entry of a token.
\<close>

section \<open>Identities\<close>

datatype tenant_mode = Active | CancelOnly | Halted

definition mode_parse :: "bytes \<Rightarrow> tenant_mode option" where
  "mode_parse s =
     (if s = ''active'' then Some Active
      else if s = ''cancel_only'' then Some CancelOnly
      else if s = ''halted'' then Some Halted
      else None)"

fun mode_as_str :: "tenant_mode \<Rightarrow> bytes" where
  "mode_as_str Active = ''active''"
| "mode_as_str CancelOnly = ''cancel_only''"
| "mode_as_str Halted = ''halted''"

record resolved_identity =
  ri_customer_id :: bytes
  ri_allowed_venues :: "bytes list"
  ri_mode :: tenant_mode

definition entry_value :: "resolved_identity \<Rightarrow> json" where
  "entry_value ri =
     Object [(''customer_id'', String (ri_customer_id ri)),
             (''allowed_venues'', Array (map String (sort (ri_allowed_venues ri)))),
             (''mode'', String (mode_as_str (ri_mode ri)))]"

definition entry_hash :: "'x externals_scheme \<Rightarrow> resolved_identity \<Rightarrow> bytes option" where
  "entry_hash X ri =
     (case canonical_v1 (entry_value ri) of
        Inl _ \<Rightarrow> None
      | Inr canonical \<Rightarrow> Some (hex_encode X (sha256 X canonical)))"

definition venue_allowed :: "resolved_identity \<Rightarrow> bytes \<Rightarrow> bool" where
  "venue_allowed ri venue = list_ex (\<lambda>v. v = venue) (ri_allowed_venues ri)"

definition encryption_context :: "resolved_identity \<Rightarrow> bytes \<Rightarrow> (bytes \<times> bytes) list" where
  "encryption_context ri venue = [(''customer_id'', ri_customer_id ri), (''venue_id'', venue)]"

definition sealed_aad :: "resolved_identity \<Rightarrow> bytes \<Rightarrow> 32 word \<Rightarrow> bytes" where
  "sealed_aad ri venue key_version =
     ''customer_id='' @ ri_customer_id ri @ [CHR 0x0A] @ ''venue_id='' @ venue @ [CHR 0x0A]
       @ ''key_version='' @ show_nat (unat key_version)"

definition for_data_signing :: resolved_identity where
  "for_data_signing = \<lparr>ri_customer_id = ''attested-data'', ri_allowed_venues = [''data-signing''], ri_mode = Active\<rparr>"

definition for_provisioned_agent :: "bytes \<Rightarrow> bytes \<Rightarrow> resolved_identity" where
  "for_provisioned_agent customer_id venue =
     \<lparr>ri_customer_id = customer_id, ri_allowed_venues = [venue], ri_mode = Active\<rparr>"

record tenant_entry =
  te_token_hmac :: bytes
  te_customer_id :: bytes
  te_allowed_venues :: "bytes list"
  te_mode :: tenant_mode

section \<open>The registry and its refresh\<close>

record registry =
  rg_entries :: "tenant_entry list"
  rg_version :: "64 word"
  rg_pending_nonce :: "bytes option"

definition registry_empty :: registry where
  "registry_empty = \<lparr>rg_entries = [], rg_version = 0, rg_pending_nonce = None\<rparr>"

definition token_hmac :: "'x externals_scheme \<Rightarrow> bytes \<Rightarrow> bytes \<Rightarrow> bytes" where
  "token_hmac X registry_key token = hmac_sha256 X registry_key token"

text \<open>\<open>nonce\<close> is the draw from the random number generator.\<close>

definition challenge :: "'x externals_scheme \<Rightarrow> bytes \<Rightarrow> registry \<Rightarrow> bytes \<times> registry" where
  "challenge X nonce st = (hex_encode X nonce, st\<lparr>rg_pending_nonce := Some nonce\<rparr>)"

datatype registry_error =
    NoPubkey | BadPubkey | NoPendingNonce | NonceMismatch | BadNonceHex | BadSignature | RegSignatureInvalid
  | ContentHashMismatch | NonMonotonicVersion "64 word" "64 word" | RegEmpty | MalformedEntries | UnsafeId
  | ReservedVenue | BadMode

fun wire_code :: "registry_error \<Rightarrow> err_code" where
  "wire_code NoPendingNonce = REGISTRY_NONCE_REJECTED"
| "wire_code NonceMismatch = REGISTRY_NONCE_REJECTED"
| "wire_code BadNonceHex = REGISTRY_NONCE_REJECTED"
| "wire_code NoPubkey = REGISTRY_SIGNATURE_REJECTED"
| "wire_code BadPubkey = REGISTRY_SIGNATURE_REJECTED"
| "wire_code BadSignature = REGISTRY_SIGNATURE_REJECTED"
| "wire_code RegSignatureInvalid = REGISTRY_SIGNATURE_REJECTED"
| "wire_code ContentHashMismatch = REGISTRY_SIGNATURE_REJECTED"
| "wire_code MalformedEntries = REGISTRY_ENTRIES_REJECTED"
| "wire_code RegEmpty = REGISTRY_ENTRIES_REJECTED"
| "wire_code UnsafeId = REGISTRY_ENTRIES_REJECTED"
| "wire_code ReservedVenue = REGISTRY_ENTRIES_REJECTED"
| "wire_code BadMode = REGISTRY_ENTRIES_REJECTED"
| "wire_code (NonMonotonicVersion _ _) = REGISTRY_VERSION_REJECTED"

record refresh_entry =
  re_token :: bytes
  re_customer_id :: bytes
  re_allowed_venues :: "bytes list"
  re_mode :: "bytes option"

definition is_safe_id :: "bytes \<Rightarrow> bool" where
  "is_safe_id s \<longleftrightarrow> s \<noteq> [] \<and> length s \<le> 64
     \<and> list_all (\<lambda>b. is_ascii_alphanumeric b \<or> b = CHR ''-'' \<or> b = CHR ''_'') s"

definition X402_CUSTOMER_ID :: bytes where
  "X402_CUSTOMER_ID = ''x402-00000000-0000-0000-0000-0000000x402''"

definition reserved_venue_owner :: "bytes \<Rightarrow> bytes option" where
  "reserved_venue_owner venue =
     (if eq_ignore_ascii_case venue ''x402'' then Some X402_CUSTOMER_ID
      else if eq_ignore_ascii_case venue ''data-signing'' then Some ''attested-data''
      else None)"

definition grants_reserved_venue_to_non_reserved :: "bytes \<Rightarrow> bytes list \<Rightarrow> bool" where
  "grants_reserved_venue_to_non_reserved customer_id allowed_venues =
     list_ex (\<lambda>v. case reserved_venue_owner v of Some owner \<Rightarrow> owner \<noteq> customer_id | None \<Rightarrow> False) allowed_venues"

text \<open>\<open>pubkey_env\<close> is the value of the baked control-plane key variable, if set.\<close>

definition control_plane_vk :: "'x externals_scheme \<Rightarrow> bytes option \<Rightarrow> (registry_error, bytes) result" where
  "control_plane_vk X pubkey_env =
     try_res (ok_or NoPubkey pubkey_env) (\<lambda>hex.
     try_res (ok_or BadPubkey (hex_decode X (trim hex))) (\<lambda>arr.
     if length arr \<noteq> 32 then Err BadPubkey
     else if \<not> ed_key_ok X arr then Err BadPubkey
     else Ok arr))"

definition signed_message :: "bytes \<Rightarrow> 64 word \<Rightarrow> bytes \<Rightarrow> bytes" where
  "signed_message nonce version content_hash = nonce @ le_bytes 8 (unat version) @ content_hash"

definition hash_entries :: "'x externals_scheme \<Rightarrow> bytes \<Rightarrow> bytes" where
  "hash_entries X entries_json = sha256 X entries_json"

fun check_entries :: "refresh_entry list \<Rightarrow> (registry_error, unit) result" where
  "check_entries [] = Ok ()"
| "check_entries (e # es) =
     (if \<not> is_safe_id (re_customer_id e) \<or> list_ex (\<lambda>v. \<not> is_safe_id v) (re_allowed_venues e) then Err UnsafeId
      else if grants_reserved_venue_to_non_reserved (re_customer_id e) (re_allowed_venues e) then Err ReservedVenue
      else (case re_mode e of
              Some m \<Rightarrow> if mode_parse m = None then Err BadMode else check_entries es
            | None \<Rightarrow> check_entries es))"

text \<open>
  Steps 1 to 4 of \<^verbatim>\<open>refresh\<close>: everything that runs before the write lock is
  taken.  \<open>parse_entries\<close> stands for the derived deserialiser of the entry type.
\<close>

definition refresh_check ::
  "'x externals_scheme \<Rightarrow> (bytes \<Rightarrow> refresh_entry list option) \<Rightarrow> bytes option \<Rightarrow> bytes \<Rightarrow> bytes \<Rightarrow> 64 word \<Rightarrow> bytes
    \<Rightarrow> bytes option \<Rightarrow> (registry_error, bytes \<times> refresh_entry list) result" where
  "refresh_check X parse_entries pubkey_env entries_json nonce_hex version signature_hex pending =
     try_res (control_plane_vk X pubkey_env) (\<lambda>vk.
     try_res (ok_or BadNonceHex (hex_decode X (trim nonce_hex))) (\<lambda>nonce.
     if length nonce \<noteq> 32 then Err BadNonceHex
     else case pending of
       None \<Rightarrow> Err NoPendingNonce
     | Some issued \<Rightarrow>
         if issued \<noteq> nonce then Err NonceMismatch
         else
           try_res (ok_or BadSignature (hex_decode X (trim signature_hex))) (\<lambda>sig.
           if length sig \<noteq> 64 then Err BadSignature
           else if \<not> ed_verify X vk (signed_message nonce version (hash_entries X entries_json)) sig
           then Err RegSignatureInvalid
           else
             try_res (ok_or MalformedEntries (parse_entries entries_json)) (\<lambda>entries.
             if entries = [] then Err RegEmpty
             else try_res (check_entries entries) (\<lambda>_. Ok (nonce, entries))))))"

definition install_entry :: "'x externals_scheme \<Rightarrow> bytes \<Rightarrow> refresh_entry \<Rightarrow> tenant_entry" where
  "install_entry X registry_key e =
     \<lparr>te_token_hmac = token_hmac X registry_key (re_token e),
      te_customer_id = re_customer_id e,
      te_allowed_venues = re_allowed_venues e,
      te_mode = (case Option.bind (re_mode e) mode_parse of Some md \<Rightarrow> md | None \<Rightarrow> Active)\<rparr>"

text \<open>Steps 5 to 7, under the write lock: monotonicity, install, compare-and-clear of the nonce.\<close>

definition refresh_commit ::
  "'x externals_scheme \<Rightarrow> bytes \<Rightarrow> bytes \<Rightarrow> refresh_entry list \<Rightarrow> 64 word \<Rightarrow> registry
    \<Rightarrow> (registry_error, 64 word) result \<times> registry" where
  "refresh_commit X registry_key nonce entries version st =
     (if version \<le> rg_version st then (Err (NonMonotonicVersion version (rg_version st)), st)
      else (Ok version,
        st\<lparr>rg_entries := map (install_entry X registry_key) entries, rg_version := version,
           rg_pending_nonce := (if rg_pending_nonce st = Some nonce then None else rg_pending_nonce st)\<rparr>))"

definition refresh ::
  "'x externals_scheme \<Rightarrow> (bytes \<Rightarrow> refresh_entry list option) \<Rightarrow> bytes option \<Rightarrow> bytes \<Rightarrow> bytes \<Rightarrow> bytes \<Rightarrow> 64 word
    \<Rightarrow> bytes \<Rightarrow> registry \<Rightarrow> (registry_error, 64 word) result \<times> registry" where
  "refresh X parse_entries pubkey_env registry_key entries_json nonce_hex version signature_hex st =
     (case refresh_check X parse_entries pubkey_env entries_json nonce_hex version signature_hex (rg_pending_nonce st) of
        Inl e \<Rightarrow> (Err e, st)
      | Inr (nonce, entries) \<Rightarrow> refresh_commit X registry_key nonce entries version st)"

section \<open>Lookup\<close>

text \<open>The scan over all entries with a mask select; \<open>matched\<close> is a 64-bit \<^verbatim>\<open>usize\<close>.\<close>

fun resolve_scan :: "bytes \<Rightarrow> nat \<Rightarrow> tenant_entry list \<Rightarrow> 64 word \<Rightarrow> 64 word" where
  "resolve_scan incoming i [] matched = matched"
| "resolve_scan incoming i (e # es) matched =
     (let eq = (if te_token_hmac e = incoming then 1 else 0 :: 64 word);
          mask = - eq
      in resolve_scan incoming (Suc i) es ((matched AND NOT mask) OR (word_of_nat i AND mask)))"

definition resolve :: "'x externals_scheme \<Rightarrow> bytes \<Rightarrow> bytes \<Rightarrow> registry \<Rightarrow> resolved_identity option" where
  "resolve X registry_key token st =
     (let matched = resolve_scan (token_hmac X registry_key token) 0 (rg_entries st) (- 1) in
      if matched = - 1 then None
      else let e = rg_entries st ! unat matched in
        Some \<lparr>ri_customer_id = te_customer_id e, ri_allowed_venues = te_allowed_venues e, ri_mode = te_mode e\<rparr>)"

definition current_version :: "registry \<Rightarrow> 64 word" where
  "current_version st = rg_version st"


section \<open>Lookup finds the last entry of the token\<close>

definition last_entry :: "bytes \<Rightarrow> tenant_entry list \<Rightarrow> tenant_entry option" where
  "last_entry incoming es = find (\<lambda>e. te_token_hmac e = incoming) (rev es)"

lemma resolve_scan_snoc:
  "resolve_scan inc i (es @ [e]) m =
     (if te_token_hmac e = inc then word_of_nat (i + length es) else resolve_scan inc i es m)"
  by (induction inc i es m rule: resolve_scan.induct) (auto simp: Let_def)

lemma word_of_nat_not_max:
  assumes "n < 2 ^ 64 - 1"
  shows "(word_of_nat n :: 64 word) \<noteq> - 1" "unat (word_of_nat n :: 64 word) = n"
proof -
  show n: "unat (word_of_nat n :: 64 word) = n"
    using assms by (simp add: unat_of_nat)
  show "(word_of_nat n :: 64 word) \<noteq> - 1"
  proof
    assume "(word_of_nat n :: 64 word) = - 1"
    then have "n = unat (- 1 :: 64 word)" using n by simp
    then show False using assms by (simp add: unsigned_minus_1_eq_mask mask_eq_exp_minus_1)
  qed
qed

lemma resolve_scan_last:
  fixes inc
  assumes "length es < 2 ^ 64 - 1"
  defines "m \<equiv> resolve_scan inc 0 es (- 1)"
  shows "(if m = - 1 then None else Some (es ! unat m)) = last_entry inc es
    \<and> (m \<noteq> - 1 \<longrightarrow> unat m < length es)"
  using assms(1) unfolding m_def
proof (induction es rule: rev_induct)
  case Nil
  show ?case by (simp add: last_entry_def)
next
  case (snoc e es)
  then have len: "length es < 2 ^ 64 - 1" by simp
  show ?case
    using snoc.IH [OF len] word_of_nat_not_max [OF len]
    by (auto simp: resolve_scan_snoc last_entry_def nth_append)
qed

lemma resolve_last_entry:
  assumes "length (rg_entries st) < 2 ^ 64 - 1"
  shows "resolve X key token st =
    map_option (\<lambda>e. \<lparr>ri_customer_id = te_customer_id e, ri_allowed_venues = te_allowed_venues e, ri_mode = te_mode e\<rparr>)
      (last_entry (token_hmac X key token) (rg_entries st))"
proof -
  let ?m = "resolve_scan (token_hmac X key token) 0 (rg_entries st) (- 1)"
  have "last_entry (token_hmac X key token) (rg_entries st) = (if ?m = - 1 then None else Some (rg_entries st ! unat ?m))"
    using resolve_scan_last [OF assms, of "token_hmac X key token"] by simp
  then show ?thesis
    by (simp add: resolve_def Let_def)
qed

lemma last_entry_mem: "last_entry inc es = Some e \<Longrightarrow> e \<in> set es \<and> te_token_hmac e = inc"
  by (auto simp: last_entry_def find_Some_iff) (metis nth_mem length_rev set_rev)


section \<open>What a refresh installs\<close>

definition entry_ok :: "refresh_entry \<Rightarrow> bool" where
  "entry_ok e \<longleftrightarrow> is_safe_id (re_customer_id e) \<and> list_all is_safe_id (re_allowed_venues e)
     \<and> \<not> grants_reserved_venue_to_non_reserved (re_customer_id e) (re_allowed_venues e)
     \<and> (case re_mode e of None \<Rightarrow> True | Some m \<Rightarrow> mode_parse m \<noteq> None)"

lemma check_entries_Ok: "check_entries es = Ok () \<longleftrightarrow> list_all entry_ok es"
  by (induction es) (auto simp: entry_ok_def list_ex_iff list_all_iff split: option.splits)

lemma refresh_check_Ok:
  "refresh_check X parse pk ej nh v sh pending = Ok (nonce, entries) \<longleftrightarrow>
     (\<exists>vk sig. control_plane_vk X pk = Ok vk \<and> hex_decode X (trim nh) = Some nonce \<and> length nonce = 32
        \<and> pending = Some nonce \<and> hex_decode X (trim sh) = Some sig \<and> length sig = 64
        \<and> ed_verify X vk (signed_message nonce v (hash_entries X ej)) sig
        \<and> parse ej = Some entries \<and> entries \<noteq> [] \<and> list_all entry_ok entries)"
  by (auto simp: refresh_check_def result_simps check_entries_Ok split: if_splits option.splits)

text \<open>The resident entries only ever hold ids and venues a refresh may install.\<close>

definition resident_ok :: "tenant_entry \<Rightarrow> bool" where
  "resident_ok e \<longleftrightarrow> is_safe_id (te_customer_id e) \<and> list_all is_safe_id (te_allowed_venues e)
     \<and> \<not> grants_reserved_venue_to_non_reserved (te_customer_id e) (te_allowed_venues e)"

lemma install_entry_ok: "entry_ok e \<Longrightarrow> resident_ok (install_entry X key e)"
  by (simp add: entry_ok_def resident_ok_def install_entry_def)

lemma reserved_owner:
  "\<not> grants_reserved_venue_to_non_reserved c vs \<Longrightarrow> v \<in> set vs \<Longrightarrow> reserved_venue_owner v = Some owner \<Longrightarrow> owner = c"
  by (auto simp: grants_reserved_venue_to_non_reserved_def list_ex_iff split: option.splits)


section \<open>Concurrent refreshes and challenges\<close>

text \<open>
  Every refresh in flight has passed its checks against the nonce it peeked at
  and waits for the write lock; challenges, other checks and other commits may
  come in between.  \<open>cs_issued\<close> records the nonces handed out so far.
\<close>

record inflight =
  if_nonce :: bytes
  if_version :: "64 word"
  if_entries_json :: bytes
  if_signature_hex :: bytes
  if_entries :: "refresh_entry list"

record conc_registry =
  cs_registry :: registry
  cs_inflight :: "inflight list"
  cs_issued :: "bytes set"

definition conc_start :: conc_registry where
  "conc_start = \<lparr>cs_registry = registry_empty, cs_inflight = [], cs_issued = {}\<rparr>"

inductive reg_step ::
  "'x externals_scheme \<Rightarrow> (bytes \<Rightarrow> refresh_entry list option) \<Rightarrow> bytes option \<Rightarrow> bytes
    \<Rightarrow> conc_registry \<Rightarrow> conc_registry \<Rightarrow> bool"
  for X parse_entries pubkey_env registry_key where
  step_challenge:
    "reg_step X parse_entries pubkey_env registry_key s
       (s\<lparr>cs_registry := snd (challenge X nonce (cs_registry s)), cs_issued := insert nonce (cs_issued s)\<rparr>)"
| step_check:
    "refresh_check X parse_entries pubkey_env ej nh v sh (rg_pending_nonce (cs_registry s)) = Ok (nonce, entries) \<Longrightarrow>
     reg_step X parse_entries pubkey_env registry_key s
       (s\<lparr>cs_inflight := \<lparr>if_nonce = nonce, if_version = v, if_entries_json = ej, if_signature_hex = sh,
                          if_entries = entries\<rparr> # cs_inflight s\<rparr>)"
| step_commit:
    "r \<in> set (cs_inflight s) \<Longrightarrow>
     reg_step X parse_entries pubkey_env registry_key s
       (s\<lparr>cs_registry := snd (refresh_commit X registry_key (if_nonce r) (if_entries r) (if_version r) (cs_registry s)),
          cs_inflight := remove1 r (cs_inflight s)\<rparr>)"

text \<open>A refresh in flight carries a control-plane signature over a nonce of this enclave.\<close>

definition authentic ::
  "'x externals_scheme \<Rightarrow> (bytes \<Rightarrow> refresh_entry list option) \<Rightarrow> bytes option \<Rightarrow> bytes set \<Rightarrow> inflight \<Rightarrow> bool" where
  "authentic X parse_entries pubkey_env issued r \<longleftrightarrow>
     if_nonce r \<in> issued \<and> parse_entries (if_entries_json r) = Some (if_entries r) \<and> list_all entry_ok (if_entries r)
     \<and> (\<exists>vk sig. control_plane_vk X pubkey_env = Ok vk \<and> hex_decode X (trim (if_signature_hex r)) = Some sig
          \<and> ed_verify X vk (signed_message (if_nonce r) (if_version r) (hash_entries X (if_entries_json r))) sig)"

definition installed_by :: "'x externals_scheme \<Rightarrow> bytes \<Rightarrow> inflight \<Rightarrow> registry \<Rightarrow> bool" where
  "installed_by X key r st \<longleftrightarrow> rg_version st = if_version r \<and> rg_entries st = map (install_entry X key) (if_entries r)"

definition conc_inv ::
  "'x externals_scheme \<Rightarrow> (bytes \<Rightarrow> refresh_entry list option) \<Rightarrow> bytes option \<Rightarrow> bytes \<Rightarrow> conc_registry \<Rightarrow> bool" where
  "conc_inv X parse_entries pubkey_env key s \<longleftrightarrow>
     (\<forall>n. rg_pending_nonce (cs_registry s) = Some n \<longrightarrow> n \<in> cs_issued s)
   \<and> list_all (authentic X parse_entries pubkey_env (cs_issued s)) (cs_inflight s)
   \<and> (rg_entries (cs_registry s) = [] \<and> rg_version (cs_registry s) = 0
      \<or> (\<exists>r. authentic X parse_entries pubkey_env (cs_issued s) r \<and> installed_by X key r (cs_registry s)))"

lemma authentic_mono: "authentic X p pk I r \<Longrightarrow> I \<subseteq> J \<Longrightarrow> authentic X p pk J r"
  by (auto simp: authentic_def)

lemma authentic_resident:
  "authentic X p pk I r \<Longrightarrow> installed_by X key r st \<Longrightarrow> list_all resident_ok (rg_entries st)"
  by (auto simp: authentic_def installed_by_def list_all_iff install_entry_ok)

inductive_cases reg_stepE: "reg_step X p pk key s s'"

lemma conc_inv_step:
  assumes "reg_step X p pk key s s'" "conc_inv X p pk key s"
  shows "conc_inv X p pk key s'"
  using assms(1)
proof (cases rule: reg_step.cases)
  case (step_challenge nonce)
  have mono: "authentic X p pk (cs_issued s) r \<Longrightarrow> authentic X p pk (insert nonce (cs_issued s)) r" for r
    by (rule authentic_mono) auto
  have "list_all (authentic X p pk (insert nonce (cs_issued s))) (cs_inflight s)"
    using assms(2) mono by (simp add: conc_inv_def list_all_iff)
  moreover have "rg_entries (cs_registry s) = [] \<and> rg_version (cs_registry s) = 0
      \<or> (\<exists>r. authentic X p pk (insert nonce (cs_issued s)) r \<and> installed_by X key r (cs_registry s))"
    using assms(2) mono unfolding conc_inv_def by blast
  ultimately show ?thesis
    using step_challenge by (simp add: conc_inv_def challenge_def installed_by_def)
next
  case (step_check ej nh v sh nonce entries)
  let ?r = "\<lparr>if_nonce = nonce, if_version = v, if_entries_json = ej, if_signature_hex = sh, if_entries = entries\<rparr>"
  from step_check(2) obtain vk sig where ok:
    "control_plane_vk X pk = Ok vk" "rg_pending_nonce (cs_registry s) = Some nonce"
    "hex_decode X (trim sh) = Some sig" "ed_verify X vk (signed_message nonce v (hash_entries X ej)) sig"
    "p ej = Some entries" "list_all entry_ok entries"
    unfolding refresh_check_Ok by blast
  have "nonce \<in> cs_issued s"
    using assms(2) ok(2) by (simp add: conc_inv_def)
  then have "authentic X p pk (cs_issued s) ?r"
    using ok by (simp add: authentic_def)
  then show ?thesis
    using assms(2) step_check(1) by (simp add: conc_inv_def)
next
  case (step_commit r)
  then have r: "authentic X p pk (cs_issued s) r"
    using assms(2) by (simp add: conc_inv_def list_all_iff)
  have rest: "list_all (authentic X p pk (cs_issued s)) (remove1 r (cs_inflight s))"
    using assms(2) by (auto simp: conc_inv_def list_all_iff dest: notin_set_remove1)
  show ?thesis
  proof (cases "if_version r \<le> rg_version (cs_registry s)")
    case True
    then show ?thesis
      using assms(2) rest step_commit(1) by (simp add: conc_inv_def refresh_commit_def)
  next
    case False
    then have "installed_by X key r (snd (refresh_commit X key (if_nonce r) (if_entries r) (if_version r) (cs_registry s)))"
      by (simp add: refresh_commit_def installed_by_def)
    with False show ?thesis
      using assms(2) rest r step_commit(1) unfolding conc_inv_def by (auto simp: refresh_commit_def)
  qed
qed

lemma conc_inv_reachable: "(reg_step X p pk key)\<^sup>*\<^sup>* conc_start s \<Longrightarrow> conc_inv X p pk key s"
proof (induction rule: rtranclp_induct)
  case base
  show ?case by (simp add: conc_inv_def conc_start_def registry_empty_def)
next
  case (step s s')
  then show ?case using conc_inv_step by blast
qed

lemma version_step:
  assumes "reg_step X p pk key s s'"
  shows "rg_version (cs_registry s) < rg_version (cs_registry s')
     \<or> rg_version (cs_registry s) = rg_version (cs_registry s') \<and> rg_entries (cs_registry s) = rg_entries (cs_registry s')"
  using assms by (cases rule: reg_step.cases) (auto simp: challenge_def refresh_commit_def not_le)

lemma version_steps:
  "(reg_step X p pk key)\<^sup>*\<^sup>* s s' \<Longrightarrow>
   rg_version (cs_registry s) < rg_version (cs_registry s')
     \<or> rg_version (cs_registry s) = rg_version (cs_registry s') \<and> rg_entries (cs_registry s) = rg_entries (cs_registry s')"
proof (induction rule: rtranclp_induct)
  case (step t u)
  then show ?case using version_step [of X p pk key t u] by auto
qed simp


section \<open>Properties\<close>

lemma safe_id_no_newline: "is_safe_id s \<Longrightarrow> CHR 0x0A \<notin> set s"
  by (auto simp: is_safe_id_def list_all_iff is_ascii_alphanumeric_def is_ascii_digit_def is_ascii_upper_def
        is_ascii_lower_def)

text \<open>
  C27: The branch-free scan of \<^verbatim>\<open>resolve\<close>, with its all-ones or all-zeros masks on 64-bit
  words, returns the identity of the last resident entry whose keyed hash is the token's, and
  nothing when there is none, for every registry of fewer than \<open>2\<^sup>64 - 1\<close> entries.
\<close>

theorem resolve_is_last_match:
  assumes "length (rg_entries st) < 2 ^ 64 - 1"
  shows "resolve X key token st =
    map_option (\<lambda>e. \<lparr>ri_customer_id = te_customer_id e, ri_allowed_venues = te_allowed_venues e, ri_mode = te_mode e\<rparr>)
      (find (\<lambda>e. te_token_hmac e = hmac_sha256 X key token) (rev (rg_entries st)))"
  using resolve_last_entry [OF assms] by (simp add: last_entry_def token_hmac_def)

definition sample_entry :: "bytes \<Rightarrow> bytes \<Rightarrow> tenant_entry" where
  "sample_entry tok c = \<lparr>te_token_hmac = fixed_len 32 tok, te_customer_id = c, te_allowed_venues = [''okx''], te_mode = Active\<rparr>"

definition sample_registry :: registry where
  "sample_registry = \<lparr>rg_entries = [sample_entry ''t'' ''a'', sample_entry ''u'' ''b'', sample_entry ''t'' ''c''],
     rg_version = 3, rg_pending_nonce = None\<rparr>"

lemma resolve_is_last_match_witness:
  "length (rg_entries sample_registry) < 2 ^ 64 - 1
   \<and> resolve sample_ext ''key'' ''t'' sample_registry
       = Some \<lparr>ri_customer_id = ''c'', ri_allowed_venues = [''okx''], ri_mode = Active\<rparr>"
proof -
  have len: "length (rg_entries sample_registry) < 2 ^ 64 - 1"
    by (simp add: sample_registry_def)
  show ?thesis
    using len unfolding resolve_is_last_match [OF len]
    by (simp add: sample_registry_def sample_entry_def sample_ext_def)
qed

text \<open>
  C16: Under every interleaving of challenges, refresh checks and refresh commits from a cold
  start, the resident registry is empty or was installed by a refresh that carries a
  control-plane signature over a nonce this enclave issued, its version and its exact entry
  bytes; all its ids are safe to embed and no entry grants a reserved venue to another
  customer; and whenever the resident entries change, the version has grown.
\<close>

theorem registry_only_signed_and_monotone:
  assumes "(reg_step X parse_entries pubkey_env key)\<^sup>*\<^sup>* conc_start s"
    and "(reg_step X parse_entries pubkey_env key)\<^sup>*\<^sup>* s s'"
  shows "(rg_entries (cs_registry s) = []
      \<or> (\<exists>r. authentic X parse_entries pubkey_env (cs_issued s) r \<and> installed_by X key r (cs_registry s)))
    \<and> list_all resident_ok (rg_entries (cs_registry s))
    \<and> rg_version (cs_registry s) \<le> rg_version (cs_registry s')
    \<and> (rg_entries (cs_registry s) \<noteq> rg_entries (cs_registry s') \<longrightarrow>
        rg_version (cs_registry s) < rg_version (cs_registry s'))"
proof -
  have inv: "conc_inv X parse_entries pubkey_env key s"
    using conc_inv_reachable [OF assms(1)] .
  then have "rg_entries (cs_registry s) = []
      \<or> (\<exists>r. authentic X parse_entries pubkey_env (cs_issued s) r \<and> installed_by X key r (cs_registry s))"
    by (auto simp: conc_inv_def)
  moreover from this have "list_all resident_ok (rg_entries (cs_registry s))"
    using authentic_resident by fastforce
  ultimately show ?thesis
    using version_steps [OF assms(2)] by auto
qed

definition sample_refresh_entries :: "refresh_entry list" where
  "sample_refresh_entries = [\<lparr>re_token = ''t'', re_customer_id = ''a'', re_allowed_venues = [''okx''], re_mode = None\<rparr>]"

definition sample_conc :: conc_registry where
  "sample_conc = \<lparr>cs_registry = registry_empty\<lparr>rg_pending_nonce := Some (replicate 32 CHR ''n'')\<rparr>, cs_inflight = [],
     cs_issued = {replicate 32 CHR ''n''}\<rparr>"

definition sample_inflight :: inflight where
  "sample_inflight = \<lparr>if_nonce = replicate 32 CHR ''n'', if_version = 1, if_entries_json = ''[]'',
     if_signature_hex = replicate 128 CHR ''0'', if_entries = sample_refresh_entries\<rparr>"

definition sample_parse :: "bytes \<Rightarrow> refresh_entry list option" where
  "sample_parse j = Some sample_refresh_entries"

definition sample_pubkey :: bytes where
  "sample_pubkey = replicate 64 CHR ''0''"

lemma every_other_twice: "every_other (replicate (2 * n) c) = replicate n c"
  by (induction n) simp_all

lemma trim_plain: "graphic c \<Longrightarrow> trim (replicate k c) = replicate k c"
  by (rule trim_graphic) (simp add: last_replicate)

lemma sample_check:
  "refresh_check sample_ext sample_parse (Some sample_pubkey) ''[]''
     (replicate 64 CHR ''n'') 1 (replicate 128 CHR ''0'') (Some (replicate 32 CHR ''n''))
   = Ok (replicate 32 CHR ''n'', sample_refresh_entries)"
proof -
  have dec: "hex_decode sample_ext (trim (replicate 64 CHR ''n'')) = Some (replicate 32 CHR ''n'')"
    "hex_decode sample_ext (trim (replicate 64 CHR ''0'')) = Some (replicate 32 CHR ''0'')"
    "hex_decode sample_ext (trim (replicate 128 CHR ''0'')) = Some (replicate 64 CHR ''0'')"
    using every_other_twice [of 32 "CHR ''n''"] every_other_twice [of 32 "CHR ''0''"] every_other_twice [of 64 "CHR ''0''"]
    by (simp_all add: trim_plain graphic_def sample_ext_def)
  have "list_all entry_ok sample_refresh_entries"
    by (simp add: sample_refresh_entries_def entry_ok_def is_safe_id_def grants_reserved_venue_to_non_reserved_def
          reserved_venue_owner_def rust_std)
  then show ?thesis
    unfolding refresh_check_Ok control_plane_vk_def
    by (simp add: dec sample_pubkey_def sample_parse_def) (simp add: sample_ext_def sample_refresh_entries_def)
qed

lemma registry_only_signed_and_monotone_witness:
  "(reg_step sample_ext sample_parse (Some sample_pubkey) ''key'')\<^sup>*\<^sup>* conc_start sample_conc
    \<and> (reg_step sample_ext sample_parse (Some sample_pubkey) ''key'')\<^sup>*\<^sup>* sample_conc (sample_conc\<lparr>cs_inflight := [sample_inflight]\<rparr>)
    \<and> list_all resident_ok (rg_entries (cs_registry sample_conc))"
proof -
  have s1: "(reg_step sample_ext sample_parse (Some sample_pubkey) ''key'')\<^sup>*\<^sup>* conc_start sample_conc"
    using reg_step.step_challenge [of sample_ext sample_parse "Some sample_pubkey" "''key''" conc_start "replicate 32 CHR ''n''"]
    by (intro r_into_rtranclp) (simp add: conc_start_def sample_conc_def challenge_def)
  have s2: "(reg_step sample_ext sample_parse (Some sample_pubkey) ''key'')\<^sup>*\<^sup>* sample_conc (sample_conc\<lparr>cs_inflight := [sample_inflight]\<rparr>)"
    using reg_step.step_check [of sample_ext sample_parse "Some sample_pubkey" "''[]''" "replicate 64 CHR ''n''" 1 "replicate 128 CHR ''0''" sample_conc]
      sample_check
    by (intro r_into_rtranclp) (simp add: sample_conc_def sample_inflight_def)
  show ?thesis
    using registry_only_signed_and_monotone [OF s1 s2] s1 s2 by simp
qed


text \<open>
  A refresh either fails and leaves the registry and the pending nonce as they were, or
  installs exactly the entries parsed from the signed bytes under a strictly higher version,
  signed by the control plane over the pending nonce, and consumes that nonce: without a new
  challenge every further refresh fails.
\<close>

theorem refresh_outcome:
  assumes "refresh X parse_entries pubkey_env key ej nonce_hex v sig_hex st = (r, st')"
  shows "case r of
      Inl e \<Rightarrow> st' = st
    | Inr w \<Rightarrow> w = v \<and> rg_version st < v \<and> rg_version st' = v \<and> rg_pending_nonce st' = None
        \<and> (\<exists>nonce vk sig entries. rg_pending_nonce st = Some nonce \<and> control_plane_vk X pubkey_env = Ok vk
             \<and> ed_verify X vk (nonce @ le_bytes 8 (unat v) @ sha256 X ej) sig
             \<and> parse_entries ej = Some entries \<and> list_all entry_ok entries
             \<and> rg_entries st' = map (install_entry X key) entries)
        \<and> (\<exists>e. fst (refresh X parse_entries pubkey_env key ej' nonce_hex' v' sig_hex' st') = Err e)"
proof (cases "refresh_check X parse_entries pubkey_env ej nonce_hex v sig_hex (rg_pending_nonce st)")
  case (Inl e)
  then show ?thesis using assms by (auto simp: refresh_def)
next
  case (Inr p)
  obtain nonce entries where p: "p = (nonce, entries)" by fastforce
  from Inr obtain vk sig where ok: "control_plane_vk X pubkey_env = Ok vk" "rg_pending_nonce st = Some nonce"
    "ed_verify X vk (signed_message nonce v (hash_entries X ej)) sig" "parse_entries ej = Some entries"
    "list_all entry_ok entries"
    unfolding p refresh_check_Ok by blast
  have "refresh_check X parse_entries pubkey_env ej' nonce_hex' v' sig_hex' None \<noteq> Ok q" for q
    by (cases q) (simp add: refresh_check_Ok)
  then obtain e where "refresh_check X parse_entries pubkey_env ej' nonce_hex' v' sig_hex' None = Err e"
    by (cases "refresh_check X parse_entries pubkey_env ej' nonce_hex' v' sig_hex' None") auto
  then have again: "fst (refresh X parse_entries pubkey_env key ej' nonce_hex' v' sig_hex' t) = Err e"
    if "rg_pending_nonce t = None" for t
    using that by (simp add: refresh_def)
  have commit: "(r, st') = refresh_commit X key nonce entries v st"
    using assms Inr by (simp add: refresh_def p)
  show ?thesis
  proof (cases "v \<le> rg_version st")
    case True
    then show ?thesis using commit by (simp add: refresh_commit_def)
  next
    case False
    then show ?thesis
      using commit ok again by (auto simp: refresh_commit_def signed_message_def hash_entries_def)
  qed
qed

definition challenged_registry :: registry where
  "challenged_registry = registry_empty\<lparr>rg_pending_nonce := Some (replicate 32 CHR ''n'')\<rparr>"

lemma refresh_outcome_witness:
  "\<exists>st'. refresh sample_ext sample_parse (Some sample_pubkey) ''key'' ''[]'' (replicate 64 CHR ''n'') 1
        (replicate 128 CHR ''0'') challenged_registry = (Ok 1, st') \<and> rg_pending_nonce st' = None \<and> rg_version st' = 1"
proof -
  obtain st' where run: "refresh sample_ext sample_parse (Some sample_pubkey) ''key'' ''[]'' (replicate 64 CHR ''n'') 1
        (replicate 128 CHR ''0'') challenged_registry = (Ok 1, st')"
    using sample_check by (simp add: challenged_registry_def refresh_def refresh_commit_def registry_empty_def)
  then show ?thesis
    using refresh_outcome [OF run] by auto
qed

text \<open>
  C28: In every reachable registry, whatever token is presented, an identity that may act on a
  reserved venue, in any capitalisation, is the one system identity that owns the venue.
\<close>

theorem reserved_venue_only_for_owner:
  assumes "(reg_step X parse_entries pubkey_env key)\<^sup>*\<^sup>* conc_start s"
    and "length (rg_entries (cs_registry s)) < 2 ^ 64 - 1"
    and "resolve X key token (cs_registry s) = Some ri" "venue_allowed ri venue"
    and "reserved_venue_owner venue = Some owner"
  shows "ri_customer_id ri = owner"
proof -
  obtain e where e: "e \<in> set (rg_entries (cs_registry s))" "ri_customer_id ri = te_customer_id e"
    "ri_allowed_venues ri = te_allowed_venues e"
    using assms(3) unfolding resolve_last_entry [OF assms(2)] by (auto dest!: last_entry_mem)
  have "list_all resident_ok (rg_entries (cs_registry s))"
    using conc_inv_reachable [OF assms(1)] authentic_resident unfolding conc_inv_def by fastforce
  then have "\<not> grants_reserved_venue_to_non_reserved (te_customer_id e) (te_allowed_venues e)"
    using e(1) by (simp add: list_all_iff resident_ok_def)
  moreover have "venue \<in> set (te_allowed_venues e)"
    using assms(4) e(3) by (auto simp: venue_allowed_def list_ex_iff)
  ultimately show ?thesis
    using reserved_owner assms(5) e(2) by metis
qed

definition x402_entries :: "refresh_entry list" where
  "x402_entries = [\<lparr>re_token = ''t'', re_customer_id = X402_CUSTOMER_ID, re_allowed_venues = [''x402''], re_mode = None\<rparr>]"

definition x402_conc :: conc_registry where
  "x402_conc = \<lparr>cs_registry = \<lparr>rg_entries = map (install_entry sample_ext ''key'') x402_entries, rg_version = 1,
      rg_pending_nonce = None\<rparr>, cs_inflight = [], cs_issued = {replicate 32 CHR ''n''}\<rparr>"

lemma x402_check:
  "refresh_check sample_ext (\<lambda>_. Some x402_entries) (Some sample_pubkey) ''[]''
     (replicate 64 CHR ''n'') 1 (replicate 128 CHR ''0'') (Some (replicate 32 CHR ''n''))
   = Ok (replicate 32 CHR ''n'', x402_entries)"
proof -
  from sample_check obtain vk sig where
    "control_plane_vk sample_ext (Some sample_pubkey) = Ok vk"
    "hex_decode sample_ext (trim (replicate 64 CHR ''n'')) = Some (replicate 32 CHR ''n'')"
    "hex_decode sample_ext (trim (replicate 128 CHR ''0'')) = Some sig" "length sig = 64"
    unfolding refresh_check_Ok by blast
  moreover have "list_all entry_ok x402_entries"
    by (simp add: x402_entries_def entry_ok_def is_safe_id_def grants_reserved_venue_to_non_reserved_def
          reserved_venue_owner_def X402_CUSTOMER_ID_def rust_std)
  ultimately show ?thesis
    unfolding refresh_check_Ok by (auto simp: sample_ext_def x402_entries_def)
qed

lemma reserved_venue_only_for_owner_witness:
  "(reg_step sample_ext (\<lambda>_. Some x402_entries) (Some sample_pubkey) ''key'')\<^sup>*\<^sup>* conc_start x402_conc
   \<and> (\<exists>ri. resolve sample_ext ''key'' ''t'' (cs_registry x402_conc) = Some ri
        \<and> venue_allowed ri ''x402'' \<and> ri_customer_id ri = X402_CUSTOMER_ID)"
proof -
  let ?step = "reg_step sample_ext (\<lambda>_. Some x402_entries) (Some sample_pubkey) ''key''"
  let ?r = "\<lparr>if_nonce = replicate 32 CHR ''n'', if_version = 1, if_entries_json = ''[]'',
     if_signature_hex = replicate 128 CHR ''0'', if_entries = x402_entries\<rparr>"
  let ?s2 = "sample_conc\<lparr>cs_inflight := [?r]\<rparr>"
  have s1: "?step conc_start sample_conc"
    using reg_step.step_challenge [of sample_ext "\<lambda>_. Some x402_entries" "Some sample_pubkey" "''key''" conc_start "replicate 32 CHR ''n''"]
    by (simp add: conc_start_def sample_conc_def challenge_def)
  have s2: "?step sample_conc ?s2"
    using reg_step.step_check [of sample_ext "\<lambda>_. Some x402_entries" "Some sample_pubkey" "''[]''" "replicate 64 CHR ''n''"
        1 "replicate 128 CHR ''0''" sample_conc] x402_check
    by (simp add: sample_conc_def)
  have s3: "?step ?s2 x402_conc"
    using reg_step.step_commit [of ?r ?s2 sample_ext "\<lambda>_. Some x402_entries" "Some sample_pubkey" "''key''"]
    by (simp add: sample_conc_def x402_conc_def refresh_commit_def registry_empty_def)
  have reach: "?step\<^sup>*\<^sup>* conc_start x402_conc"
    using s1 s2 s3 by (meson rtranclp.rtrancl_into_rtrancl rtranclp.rtrancl_refl)
  have len: "length (rg_entries (cs_registry x402_conc)) < 2 ^ 64 - 1"
    by (simp add: x402_conc_def x402_entries_def)
  have res: "resolve sample_ext ''key'' ''t'' (cs_registry x402_conc)
      = Some \<lparr>ri_customer_id = X402_CUSTOMER_ID, ri_allowed_venues = [''x402''], ri_mode = Active\<rparr>"
    unfolding resolve_last_entry [OF len]
    by (simp add: x402_conc_def x402_entries_def last_entry_def install_entry_def)
  have own: "reserved_venue_owner ''x402'' = Some X402_CUSTOMER_ID"
    by (simp add: reserved_venue_owner_def eq_ignore_ascii_case_def)
  have "venue_allowed \<lparr>ri_customer_id = X402_CUSTOMER_ID, ri_allowed_venues = [''x402''], ri_mode = Active\<rparr> ''x402''"
    by (simp add: venue_allowed_def)
  from reserved_venue_only_for_owner [OF reach len res this own] this show ?thesis
    using reach res by blast
qed

text \<open>
  For ids that pass the registry's character check, the additional data a blob is sealed
  under determines customer, venue and key version: no blob of one tenant or venue opens
  under the identity of another.
\<close>

theorem sealed_aad_inj:
  assumes "is_safe_id (ri_customer_id a)" "is_safe_id (ri_customer_id b)" "is_safe_id v" "is_safe_id w"
    and "sealed_aad a v i = sealed_aad b w j"
  shows "ri_customer_id a = ri_customer_id b \<and> v = w \<and> i = j"
proof -
  have nl: "CHR 0x0A \<notin> set (ri_customer_id a)" "CHR 0x0A \<notin> set (ri_customer_id b)" "CHR 0x0A \<notin> set v" "CHR 0x0A \<notin> set w"
    using assms(1-4) safe_id_no_newline by blast+
  have "ri_customer_id a @ CHR 0x0A # ''venue_id='' @ v @ CHR 0x0A # ''key_version='' @ show_nat (unat i)
      = ri_customer_id b @ CHR 0x0A # ''venue_id='' @ w @ CHR 0x0A # ''key_version='' @ show_nat (unat j)"
    using assms(5) by (simp add: sealed_aad_def)
  then have c: "ri_customer_id a = ri_customer_id b"
    and "v @ CHR 0x0A # ''key_version='' @ show_nat (unat i) = w @ CHR 0x0A # ''key_version='' @ show_nat (unat j)"
    unfolding sep_cancel [OF nl(1,2)] by auto
  then have "v = w" "unat i = unat j"
    unfolding sep_cancel [OF nl(3,4)] by auto
  then show ?thesis using c by (simp add: word_unat_eq_iff)
qed

lemma sealed_aad_inj_witness:
  "sealed_aad (for_provisioned_agent ''a'' ''okx'') ''okx'' 1 = sealed_aad (for_provisioned_agent ''a'' ''bybit'') ''okx'' 1
   \<and> ri_customer_id (for_provisioned_agent ''a'' ''okx'') = ri_customer_id (for_provisioned_agent ''a'' ''bybit'')"
proof -
  have safe: "is_safe_id ''a''" "is_safe_id ''okx''"
    by (simp_all add: is_safe_id_def rust_std)
  have eq: "sealed_aad (for_provisioned_agent ''a'' ''okx'') ''okx'' 1 = sealed_aad (for_provisioned_agent ''a'' ''bybit'') ''okx'' 1"
    by (simp add: sealed_aad_def for_provisioned_agent_def)
  show ?thesis
    using sealed_aad_inj [OF _ _ safe(2) safe(2) eq] eq safe(1) by (simp add: for_provisioned_agent_def)
qed

end
