(* ===== verification/Venue_Sign.thy ===== *)
theory Venue_Sign
  imports Proto "HOL-Library.Signed_Division"
begin

text \<open>
  The HMAC venues of \<^verbatim>\<open>enclave/src/signer.rs\<close>: the canonical strings of KuCoin,
  Binance, Bybit and OKX, the header sets, the order and cancel builders of
  Binance and OKX, and the ISO-8601 timestamp of OKX.  An \<^verbatim>\<open>anyhow::Result\<close> is a
  result whose error is its message.  \<^verbatim>\<open>HmacSha256::new_from_slice\<close> accepts keys
  of every length, so the HMAC is a total function.

  Shown here: the order builders emit exactly the parameters of the request
  they were given and no others (a value cannot smuggle in a further parameter
  or JSON member), and the hand-written calendar conversion agrees with
  counting days one at a time from 1970-01-01.
\<close>

type_synonym anyhow = bytes

text \<open>A \<^verbatim>\<open>BTreeMap<String, String>\<close> built by insertions, in key order.\<close>

fun str_less :: "bytes \<Rightarrow> bytes \<Rightarrow> bool" where
  "str_less s [] = False"
| "str_less [] (y # ys) = True"
| "str_less (x # xs) (y # ys) = (byte x < byte y \<or> (x = y \<and> str_less xs ys))"

fun btree_insert :: "bytes \<Rightarrow> bytes \<Rightarrow> (bytes \<times> bytes) list \<Rightarrow> (bytes \<times> bytes) list" where
  "btree_insert k v [] = [(k, v)]"
| "btree_insert k v ((k', v') # m) =
     (if k = k' then (k, v) # m
      else if str_less k k' then (k, v) # (k', v') # m
      else (k', v') # btree_insert k v m)"

definition headers_of :: "(bytes \<times> bytes) list \<Rightarrow> (bytes \<times> bytes) list" where
  "headers_of kvs = fold (\<lambda>(k, v) m. btree_insert k v m) kvs []"

lemma btree_insert_map_of: "map_of (btree_insert k v m) = (map_of m)(k \<mapsto> v)"
  by (induction k v m rule: btree_insert.induct) auto

lemma headers_of_map_of: "map_of (headers_of kvs) = map_of (rev kvs)"
proof -
  have "map_of (fold (\<lambda>(k, v) m. btree_insert k v m) kvs m) = map_of m ++ map_of (rev kvs)" for m
  proof (induction kvs arbitrary: m)
    case Nil
    show ?case by simp
  next
    case (Cons kv kvs)
    show ?case
      by (cases kv) (auto simp: Cons.IH btree_insert_map_of map_add_def fun_eq_iff split: option.splits)
  qed
  from this [of "[]"] show ?thesis
    by (simp add: headers_of_def)
qed


section \<open>KuCoin\<close>

text \<open>
  \<^verbatim>\<open>char::to_uppercase\<close> is modelled on ASCII; the callers have restricted the method
  to the four ASCII names of \<^verbatim>\<open>ALLOWED_METHODS\<close>.
\<close>

definition kucoin_canonical :: "64 word \<Rightarrow> bytes \<Rightarrow> bytes \<Rightarrow> bytes \<Rightarrow> bytes" where
  "kucoin_canonical timestamp_ms method path body =
     show_nat (unat timestamp_ms) @ to_ascii_uppercase method @ path @ body"

definition sign_kucoin ::
  "'x externals_scheme \<Rightarrow> bytes \<Rightarrow> 64 word \<Rightarrow> bytes \<Rightarrow> bytes \<Rightarrow> bytes \<Rightarrow> (anyhow, bytes) result" where
  "sign_kucoin X secret timestamp_ms method path body =
     Ok (b64_encode X (hmac_sha256 X secret (kucoin_canonical timestamp_ms method path body)))"

definition encrypt_kucoin_passphrase :: "'x externals_scheme \<Rightarrow> bytes \<Rightarrow> bytes \<Rightarrow> (anyhow, bytes) result" where
  "encrypt_kucoin_passphrase X secret passphrase = Ok (b64_encode X (hmac_sha256 X secret passphrase))"

definition compute_kucoin_headers ::
  "'x externals_scheme \<Rightarrow> bytes \<Rightarrow> bytes \<Rightarrow> bytes \<Rightarrow> 64 word \<Rightarrow> bytes \<Rightarrow> bytes \<Rightarrow> bytes
     \<Rightarrow> (anyhow, (bytes \<times> bytes) list) result" where
  "compute_kucoin_headers X secret passphrase key timestamp_ms method path body =
     try_res (sign_kucoin X secret timestamp_ms method path body) (\<lambda>sign_b64.
     try_res (encrypt_kucoin_passphrase X secret passphrase) (\<lambda>passphrase_b64.
       Ok (headers_of [(''KC-API-KEY'', key), (''KC-API-SIGN'', sign_b64),
                       (''KC-API-TIMESTAMP'', show_nat (unat timestamp_ms)),
                       (''KC-API-PASSPHRASE'', passphrase_b64), (''KC-API-KEY-VERSION'', ''2'')])))"


section \<open>Binance\<close>

definition binance_canonical :: "bytes \<Rightarrow> bytes \<Rightarrow> bytes" where
  "binance_canonical query body = query @ body"

definition sign_binance :: "'x externals_scheme \<Rightarrow> bytes \<Rightarrow> bytes \<Rightarrow> bytes \<Rightarrow> (anyhow, bytes) result" where
  "sign_binance X secret query body = Ok (hex_encode X (hmac_sha256 X secret (binance_canonical query body)))"

definition is_safe_binance_param_value :: "bytes \<Rightarrow> bool" where
  "is_safe_binance_param_value v \<longleftrightarrow>
     v \<noteq> [] \<and> list_all (\<lambda>b. is_ascii_alphanumeric b \<or> b = CHR ''-'' \<or> b = CHR ''_'' \<or> b = CHR ''.'') v"

definition side_message :: anyhow where
  "side_message = ''side must be '' @ CHR 0x27 # ''buy'' @ CHR 0x27 # '' or '' @ CHR 0x27 # ''sell'' @ [CHR 0x27]"

definition binance_side :: "bytes \<Rightarrow> (anyhow, bytes) result" where
  "binance_side side =
     (if side = ''buy'' then Ok ''BUY'' else if side = ''sell'' then Ok ''SELL''
      else Err side_message)"

definition unsupported_ord_type :: "bytes \<Rightarrow> anyhow" where
  "unsupported_ord_type t =
     (if t \<in> {''fok'', ''ioc'', ''post_only''}
      then ''ord_type '' @ t @ '' not supported in v0 (limit/market only)''
      else ''unknown ord_type: '' @ t)"

definition binance_ord_type :: "bytes \<Rightarrow> (anyhow, bytes \<times> bool) result" where
  "binance_ord_type t =
     (if t = ''market'' then Ok (''MARKET'', False) else if t = ''limit'' then Ok (''LIMIT'', True)
      else Err (unsupported_ord_type t))"

text \<open>The price section of both order builders: required for a limit order, refused for a market order.\<close>

definition price_part ::
  "(bytes \<Rightarrow> bool) \<Rightarrow> bool \<Rightarrow> bytes option \<Rightarrow> (bytes \<Rightarrow> bytes) \<Rightarrow> (anyhow, bytes) result" where
  "price_part safe needs_price price render =
     (if needs_price
      then try_res (ok_or ''limit order requires price'' price) (\<lambda>p.
             if safe p then Ok (render p) else Err ''price has illegal characters'')
      else if price \<noteq> None then Err ''market order must not carry a price''
      else Ok [])"

definition coid_part :: "(bytes \<Rightarrow> bool) \<Rightarrow> bytes option \<Rightarrow> (bytes \<Rightarrow> bytes) \<Rightarrow> (anyhow, bytes) result" where
  "coid_part safe coid render =
     (case coid of
        None \<Rightarrow> Ok []
      | Some c \<Rightarrow> if safe c then Ok (render c) else Err ''client_order_id has illegal characters'')"

definition build_binance_order_query :: "order_request \<Rightarrow> (anyhow, bytes) result" where
  "build_binance_order_query req =
     (if \<not> is_safe_binance_param_value (or_symbol req) then Err ''symbol has illegal characters''
      else if \<not> is_safe_binance_param_value (or_qty req) then Err ''qty has illegal characters''
      else try_res (binance_side (or_side req)) (\<lambda>side.
           try_res (binance_ord_type (or_ord_type req)) (\<lambda>(order_type, needs_price).
           try_res (price_part is_safe_binance_param_value needs_price (or_price req)
                      (\<lambda>p. ''&price='' @ p @ ''&timeInForce=GTC'')) (\<lambda>price.
           try_res (coid_part is_safe_binance_param_value (or_client_order_id req)
                      (\<lambda>c. ''&newClientOrderId='' @ c)) (\<lambda>coid.
             Ok (''symbol='' @ or_symbol req @ ''&side='' @ side @ ''&type='' @ order_type
                 @ ''&quantity='' @ or_qty req @ price
                 @ (if or_reduce_only req then ''&reduceOnly=true'' else []) @ coid))))))"

definition build_binance_cancel_query :: "cancel_request \<Rightarrow> (anyhow, bytes) result" where
  "build_binance_cancel_query req =
     (if \<not> is_safe_binance_param_value (cr_symbol req) then Err ''symbol has illegal characters''
      else if \<not> is_safe_binance_param_value (cr_order_id req) then Err ''order_id has illegal characters''
      else Ok (''symbol='' @ cr_symbol req @ ''&orderId='' @ cr_order_id req))"

definition binance_full_query :: "64 word \<Rightarrow> bytes \<Rightarrow> bytes" where
  "binance_full_query timestamp_ms user_query =
     (if user_query = [] then [] else user_query @ ''&'')
     @ ''timestamp='' @ show_nat (unat timestamp_ms) @ ''&recvWindow='' @ ''5000''"

definition compute_binance_headers ::
  "'x externals_scheme \<Rightarrow> bytes \<Rightarrow> bytes \<Rightarrow> 64 word \<Rightarrow> bytes \<Rightarrow> bytes \<Rightarrow> (anyhow, (bytes \<times> bytes) list) result" where
  "compute_binance_headers X secret key timestamp_ms user_query body =
     try_res (sign_binance X secret (binance_full_query timestamp_ms user_query) body) (\<lambda>sign_hex.
       Ok (headers_of [(''X-MBX-APIKEY'', key), (''signature'', sign_hex),
                       (''timestamp'', show_nat (unat timestamp_ms)), (''recvWindow'', ''5000'')]))"


section \<open>Bybit\<close>

definition bybit_canonical :: "64 word \<Rightarrow> bytes \<Rightarrow> bytes \<Rightarrow> bytes \<Rightarrow> bytes" where
  "bybit_canonical timestamp_ms api_key recv_window query_or_body =
     show_nat (unat timestamp_ms) @ api_key @ recv_window @ query_or_body"

definition sign_bybit ::
  "'x externals_scheme \<Rightarrow> bytes \<Rightarrow> 64 word \<Rightarrow> bytes \<Rightarrow> bytes \<Rightarrow> bytes \<Rightarrow> (anyhow, bytes) result" where
  "sign_bybit X secret timestamp_ms api_key recv_window query_or_body =
     Ok (hex_encode X (hmac_sha256 X secret (bybit_canonical timestamp_ms api_key recv_window query_or_body)))"

definition compute_bybit_headers ::
  "'x externals_scheme \<Rightarrow> bytes \<Rightarrow> bytes \<Rightarrow> 64 word \<Rightarrow> bytes \<Rightarrow> bytes \<Rightarrow> bytes
     \<Rightarrow> (anyhow, (bytes \<times> bytes) list) result" where
  "compute_bybit_headers X secret key timestamp_ms method query body =
     (let upper_method = to_ascii_uppercase method;
          payload = (if upper_method = ''GET'' \<or> upper_method = ''DELETE'' then query else body)
      in try_res (sign_bybit X secret timestamp_ms key ''5000'' payload) (\<lambda>sign_hex.
           Ok (headers_of [(''X-BAPI-API-KEY'', key), (''X-BAPI-TIMESTAMP'', show_nat (unat timestamp_ms)),
                           (''X-BAPI-RECV-WINDOW'', ''5000''), (''X-BAPI-SIGN'', sign_hex),
                           (''X-BAPI-SIGN-TYPE'', ''2'')])))"


section \<open>OKX\<close>

definition is_safe_okx_value :: "bytes \<Rightarrow> bool" where
  "is_safe_okx_value v \<longleftrightarrow>
     v \<noteq> [] \<and> list_all (\<lambda>b. is_ascii_alphanumeric b \<or> b = CHR ''-'' \<or> b = CHR ''_'' \<or> b = CHR ''.'') v"

definition okx_side :: "bytes \<Rightarrow> (anyhow, bytes) result" where
  "okx_side side = (if side = ''buy'' \<or> side = ''sell'' then Ok side else Err side_message)"

definition okx_ord_type :: "bytes \<Rightarrow> (anyhow, bytes \<times> bool) result" where
  "okx_ord_type t =
     (if t = ''market'' then Ok (''market'', False) else if t = ''limit'' then Ok (''limit'', True)
      else Err (unsupported_ord_type t))"

definition build_okx_order_body :: "order_request \<Rightarrow> (anyhow, bytes) result" where
  "build_okx_order_body req =
     (if \<not> is_safe_okx_value (or_symbol req) then Err ''symbol has illegal characters''
      else if \<not> is_safe_okx_value (or_qty req) then Err ''qty has illegal characters''
      else try_res (okx_side (or_side req)) (\<lambda>side.
           try_res (okx_ord_type (or_ord_type req)) (\<lambda>(ord_type, needs_price).
           try_res (price_part is_safe_okx_value needs_price (or_price req)
                      (\<lambda>p. '',\"px\":\"'' @ p @ ''\"'')) (\<lambda>price.
           try_res (coid_part is_safe_okx_value (or_client_order_id req)
                      (\<lambda>c. '',\"clOrdId\":\"'' @ c @ ''\"'')) (\<lambda>coid.
             Ok (''{'' @ ''\"instId\":\"'' @ or_symbol req @ ''\",\"tdMode\":\"cross\",\"side\":\"'' @ side
                 @ ''\",\"ordType\":\"'' @ ord_type @ ''\",\"sz\":\"'' @ or_qty req @ ''\"'' @ price
                 @ (if or_reduce_only req then '',\"reduceOnly\":true'' else []) @ coid @ ''}''))))))"

definition build_okx_cancel_body :: "cancel_request \<Rightarrow> (anyhow, bytes) result" where
  "build_okx_cancel_body req =
     (if \<not> is_safe_okx_value (cr_symbol req) then Err ''symbol has illegal characters''
      else if \<not> is_safe_okx_value (cr_order_id req) then Err ''order_id has illegal characters''
      else Ok (''{\"instId\":\"'' @ cr_symbol req @ ''\",\"ordId\":\"'' @ cr_order_id req @ ''\"}''))"


text \<open>
  \<^verbatim>\<open>civil_from_days\<close> of \<^verbatim>\<open>okx_iso8601_from_ms\<close>: the date of a number of days since
  1970-01-01.  Rust's \<^verbatim>\<open>/\<close> on \<^verbatim>\<open>i64\<close> truncates, which is \<^term>\<open>(sdiv)\<close>; the other values are
  unsigned.
\<close>

definition month_day :: "nat \<Rightarrow> nat \<times> nat" where
  "month_day doy =
     (let mp = (5 * doy + 2) div 153;
          d = doy - (153 * mp + 2) div 5 + 1;
          m = (if mp < 10 then mp + 3 else mp - 9)
      in (m, d))"

definition date_of :: "int \<Rightarrow> nat \<Rightarrow> int \<times> nat \<times> nat" where
  "date_of y doy = (case month_day doy of (m, d) \<Rightarrow> (if m \<le> 2 then y + 1 else y, m, d))"

definition civil_from_era :: "int \<Rightarrow> nat \<Rightarrow> int \<times> nat \<times> nat" where
  "civil_from_era era doe =
     (let yoe = (doe - doe div 1460 + doe div 36524 - doe div 146096) div 365;
          y = int yoe + era * 400;
          doy = doe - (365 * yoe + yoe div 4 - yoe div 100)
      in date_of y doy)"

definition civil_from_days :: "int \<Rightarrow> int \<times> nat \<times> nat" where
  "civil_from_days days =
     (let z = days + 719468;
          era = (if 0 \<le> z then z else z - 146096) sdiv 146097
      in civil_from_era era (nat (z - era * 146097)))"

definition pad_num :: "nat \<Rightarrow> nat \<Rightarrow> bytes" where
  "pad_num w n = replicate (w - length (show_nat n)) CHR ''0'' @ show_nat n"

definition okx_iso8601_from_ms :: "64 word \<Rightarrow> bytes" where
  "okx_iso8601_from_ms timestamp_ms =
     (let total_secs = int (unat timestamp_ms div 1000);
          millis = unat timestamp_ms mod 1000;
          days = total_secs div 86400;
          seconds_of_day = nat (total_secs mod 86400);
          (year, m, d) = civil_from_days days;
          h = seconds_of_day div 3600;
          mn = (seconds_of_day mod 3600) div 60;
          s = seconds_of_day mod 60
      in pad_num 4 (nat year) @ ''-'' @ pad_num 2 m @ ''-'' @ pad_num 2 d @ ''T'' @ pad_num 2 h @ '':''
         @ pad_num 2 mn @ '':'' @ pad_num 2 s @ ''.'' @ pad_num 3 millis @ ''Z'')"

definition okx_canonical :: "bytes \<Rightarrow> bytes \<Rightarrow> bytes \<Rightarrow> bytes \<Rightarrow> bytes" where
  "okx_canonical timestamp_iso method request_path body =
     timestamp_iso @ to_ascii_uppercase method @ request_path @ body"

definition sign_okx ::
  "'x externals_scheme \<Rightarrow> bytes \<Rightarrow> bytes \<Rightarrow> bytes \<Rightarrow> bytes \<Rightarrow> bytes \<Rightarrow> (anyhow, bytes) result" where
  "sign_okx X secret timestamp_iso method request_path body =
     Ok (b64_encode X (hmac_sha256 X secret (okx_canonical timestamp_iso method request_path body)))"

text \<open>
  A byte above 0x7e is refused whether or not it belongs to valid UTF-8, so the
  UTF-8 check and the range check differ only in their message.
\<close>

definition okx_header_byte :: "char \<Rightarrow> bool" where
  "okx_header_byte b \<longleftrightarrow> byte b = 9 \<or> (32 \<le> byte b \<and> byte b \<le> 126)"

definition compute_okx_headers ::
  "'x externals_scheme \<Rightarrow> bytes \<Rightarrow> bytes \<Rightarrow> bytes \<Rightarrow> 64 word \<Rightarrow> bytes \<Rightarrow> bytes \<Rightarrow> bytes
     \<Rightarrow> (anyhow, (bytes \<times> bytes) list) result" where
  "compute_okx_headers X secret passphrase key timestamp_ms method request_path body =
     (let timestamp_iso = okx_iso8601_from_ms timestamp_ms
      in try_res (sign_okx X secret timestamp_iso method request_path body) (\<lambda>sign_b64.
           if list_all okx_header_byte passphrase
           then Ok (headers_of [(''OK-ACCESS-KEY'', key), (''OK-ACCESS-SIGN'', sign_b64),
                                (''OK-ACCESS-TIMESTAMP'', timestamp_iso), (''OK-ACCESS-PASSPHRASE'', passphrase)])
           else Err ''okx passphrase: illegal byte in header value''))"


section \<open>The order builders emit the request's parameters and nothing else\<close>

text \<open>The parameters Binance reads back: split at \<open>&\<close>, then at the first \<open>=\<close>.\<close>

definition query_params :: "bytes \<Rightarrow> (bytes \<times> bytes) option list" where
  "query_params q = map (split_once CHR ''='') (split_on CHR ''&'' q)"

definition binance_order_params :: "order_request \<Rightarrow> (bytes \<times> bytes) list" where
  "binance_order_params req =
     [(''symbol'', or_symbol req), (''side'', to_ascii_uppercase (or_side req)),
      (''type'', to_ascii_uppercase (or_ord_type req)), (''quantity'', or_qty req)]
     @ (case or_price req of None \<Rightarrow> [] | Some p \<Rightarrow> [(''price'', p), (''timeInForce'', ''GTC'')])
     @ (if or_reduce_only req then [(''reduceOnly'', ''true'')] else [])
     @ (case or_client_order_id req of None \<Rightarrow> [] | Some c \<Rightarrow> [(''newClientOrderId'', c)])"

text \<open>None of the bytes that structure a query string or a JSON text is a safe value byte.\<close>

lemma safe_value_no_sep:
  assumes "is_safe_binance_param_value v"
  shows "CHR ''&'' \<notin> set v" "CHR '','' \<notin> set v" "CHR '':'' \<notin> set v"
  using assms by (auto simp: is_safe_binance_param_value_def list_all_iff rust_std)

lemma is_safe_okx_binance: "is_safe_okx_value = is_safe_binance_param_value"
  by (simp add: fun_eq_iff is_safe_okx_value_def is_safe_binance_param_value_def)

lemma query_params_render:
  assumes "kvs \<noteq> []" "\<forall>(k, v) \<in> set kvs. CHR ''&'' \<notin> set k \<and> CHR ''='' \<notin> set k \<and> CHR ''&'' \<notin> set v"
  shows "query_params (join_with ''&'' (map (\<lambda>(k, v). k @ ''='' @ v) kvs)) = map Some kvs"
proof -
  have "split_on CHR ''&'' (join_with ''&'' (map (\<lambda>(k, v). k @ ''='' @ v) kvs)) = map (\<lambda>(k, v). k @ ''='' @ v) kvs"
    using assms by (intro split_on_join) auto
  moreover have "split_once CHR ''='' (case kv of (k, v) \<Rightarrow> k @ ''='' @ v) = Some kv" if "kv \<in> set kvs" for kv
    using assms(2) that by (cases kv) (auto simp: split_once_append)
  ultimately show ?thesis
    by (simp add: query_params_def)
qed


lemma price_part_Ok:
  "price_part safe needs_price price render = Ok r \<longleftrightarrow>
     (needs_price = (price \<noteq> None)) \<and> (\<forall>p. price = Some p \<longrightarrow> safe p)
     \<and> r = (case price of None \<Rightarrow> [] | Some p \<Rightarrow> render p)"
  by (cases price) (auto simp: price_part_def)

lemma coid_part_Ok:
  "coid_part safe coid render = Ok r \<longleftrightarrow>
     (\<forall>c. coid = Some c \<longrightarrow> safe c) \<and> r = (case coid of None \<Rightarrow> [] | Some c \<Rightarrow> render c)"
  by (cases coid) (auto simp: coid_part_def)

lemmas part_Ok = price_part_Ok coid_part_Ok

lemma upper_words [simp]:
  "to_ascii_uppercase ''buy'' = ''BUY''" "to_ascii_uppercase ''sell'' = ''SELL''"
  "to_ascii_uppercase ''market'' = ''MARKET''" "to_ascii_uppercase ''limit'' = ''LIMIT''"
  by code_simp+

lemma binance_side_Ok: "binance_side s = Ok t \<Longrightarrow> t = to_ascii_uppercase s \<and> CHR ''&'' \<notin> set t"
  by (auto simp: binance_side_def split: if_splits)

lemma binance_ord_type_Ok:
  "binance_ord_type s = Ok (t, n) \<Longrightarrow> t = to_ascii_uppercase s \<and> CHR ''&'' \<notin> set t"
  by (auto simp: binance_ord_type_def split: if_splits)

lemma build_binance_order_query_Ok:
  assumes "build_binance_order_query req = Ok q"
  shows "q = join_with ''&'' (map (\<lambda>(k, v). k @ ''='' @ v) (binance_order_params req))"
    and "\<forall>(k, v) \<in> set (binance_order_params req). CHR ''&'' \<notin> set v"
proof -
  from assms obtain side ty n where safe: "is_safe_binance_param_value (or_symbol req)"
      "is_safe_binance_param_value (or_qty req)"
      "\<forall>p. or_price req = Some p \<longrightarrow> is_safe_binance_param_value p"
      "\<forall>c. or_client_order_id req = Some c \<longrightarrow> is_safe_binance_param_value c"
    and side: "binance_side (or_side req) = Ok side" and ty: "binance_ord_type (or_ord_type req) = Ok (ty, n)"
    and q: "q = ''symbol='' @ or_symbol req @ ''&side='' @ side @ ''&type='' @ ty @ ''&quantity='' @ or_qty req
        @ (case or_price req of None \<Rightarrow> [] | Some p \<Rightarrow> ''&price='' @ p @ ''&timeInForce=GTC'')
        @ (if or_reduce_only req then ''&reduceOnly=true'' else [])
        @ (case or_client_order_id req of None \<Rightarrow> [] | Some c \<Rightarrow> ''&newClientOrderId='' @ c)"
    by (cases "or_price req"; cases "or_client_order_id req")
      (auto simp: build_binance_order_query_def result_simps part_Ok split: if_splits)
  note up = binance_side_Ok [OF side] binance_ord_type_Ok [OF ty]
  show "q = join_with ''&'' (map (\<lambda>(k, v). k @ ''='' @ v) (binance_order_params req))"
    using up by (simp add: q binance_order_params_def split: option.splits)
  show "\<forall>(k, v) \<in> set (binance_order_params req). CHR ''&'' \<notin> set v"
    using up safe
    by (cases "or_price req"; cases "or_client_order_id req")
      (simp_all add: binance_order_params_def safe_value_no_sep)
qed

text \<open>
  C36: A Binance order query that the enclave builds reads back, at the exchange, as exactly
  the parameters of the order request it was built from: symbol, side, type, quantity, the
  price with \<open>timeInForce\<close> when there is one, \<open>reduceOnly\<close> and the client order id.  No value
  can add, rename or shorten a parameter.
\<close>

theorem binance_order_query_exact:
  assumes "build_binance_order_query req = Ok q"
  shows "query_params q = map Some (binance_order_params req)"
proof -
  have "\<forall>(k, v) \<in> set (binance_order_params req). CHR ''&'' \<notin> set k \<and> CHR ''='' \<notin> set k"
    by (cases "or_price req"; cases "or_client_order_id req") (simp_all add: binance_order_params_def)
  then have "\<forall>(k, v) \<in> set (binance_order_params req). CHR ''&'' \<notin> set k \<and> CHR ''='' \<notin> set k \<and> CHR ''&'' \<notin> set v"
    using build_binance_order_query_Ok(2) [OF assms] by fast
  moreover have "binance_order_params req \<noteq> []"
    by (simp add: binance_order_params_def)
  ultimately show ?thesis
    using query_params_render by (simp only: build_binance_order_query_Ok(1) [OF assms])
qed


definition sample_order :: order_request where
  "sample_order = \<lparr>or_symbol = ''BTCUSDT'', or_side = ''buy'', or_qty = ''0.5'', or_ord_type = ''limit'',
     or_price = Some ''61000.5'', or_reduce_only = True, or_client_order_id = Some ''c-1''\<rparr>"

theorem binance_order_query_exact_witness:
  "\<exists>q. build_binance_order_query sample_order = Ok q
     \<and> query_params q = map Some [(''symbol'', ''BTCUSDT''), (''side'', ''BUY''), (''type'', ''LIMIT''),
         (''quantity'', ''0.5''), (''price'', ''61000.5''), (''timeInForce'', ''GTC''), (''reduceOnly'', ''true''),
         (''newClientOrderId'', ''c-1'')]"
proof -
  have "is_ok (build_binance_order_query sample_order)"
    by code_simp
  then have "\<exists>q. build_binance_order_query sample_order = Ok q"
    by (simp add: result_simps)
  moreover have "binance_order_params sample_order = [(''symbol'', ''BTCUSDT''), (''side'', ''BUY''), (''type'', ''LIMIT''),
         (''quantity'', ''0.5''), (''price'', ''61000.5''), (''timeInForce'', ''GTC''), (''reduceOnly'', ''true''),
         (''newClientOrderId'', ''c-1'')]"
    by (simp add: binance_order_params_def sample_order_def)
  ultimately show ?thesis
    using binance_order_query_exact [of sample_order] by metis
qed

text \<open>The members of a flat JSON object: without the braces, split at commas, then at the first colon.\<close>

definition object_members :: "bytes \<Rightarrow> (bytes \<times> bytes) option list" where
  "object_members b = map (split_once CHR '':'') (split_on CHR '','' (butlast (tl b)))"

definition json_str :: "bytes \<Rightarrow> bytes" where
  "json_str s = ''\"'' @ s @ ''\"''"

definition okx_order_members :: "order_request \<Rightarrow> (bytes \<times> bytes) list" where
  "okx_order_members req =
     [(json_str ''instId'', json_str (or_symbol req)), (json_str ''tdMode'', json_str ''cross''),
      (json_str ''side'', json_str (or_side req)), (json_str ''ordType'', json_str (or_ord_type req)),
      (json_str ''sz'', json_str (or_qty req))]
     @ (case or_price req of None \<Rightarrow> [] | Some p \<Rightarrow> [(json_str ''px'', json_str p)])
     @ (if or_reduce_only req then [(json_str ''reduceOnly'', ''true'')] else [])
     @ (case or_client_order_id req of None \<Rightarrow> [] | Some c \<Rightarrow> [(json_str ''clOrdId'', json_str c)])"

lemma object_members_render:
  assumes "kvs \<noteq> []" "\<forall>(k, v) \<in> set kvs. CHR '','' \<notin> set k \<and> CHR '':'' \<notin> set k \<and> CHR '','' \<notin> set v"
  shows "object_members (''{'' @ join_with '','' (map (\<lambda>(k, v). k @ '':'' @ v) kvs) @ ''}'') = map Some kvs"
proof -
  have "split_on CHR '','' (join_with '','' (map (\<lambda>(k, v). k @ '':'' @ v) kvs)) = map (\<lambda>(k, v). k @ '':'' @ v) kvs"
    using assms by (intro split_on_join) auto
  moreover have "split_once CHR '':'' (case kv of (k, v) \<Rightarrow> k @ '':'' @ v) = Some kv" if "kv \<in> set kvs" for kv
    using assms(2) that by (cases kv) (auto simp: split_once_append)
  ultimately show ?thesis
    by (simp add: object_members_def butlast_append)
qed

lemma okx_side_Ok: "okx_side s = Ok t \<Longrightarrow> t = s \<and> CHR '','' \<notin> set t"
  by (auto simp: okx_side_def split: if_splits)

lemma okx_ord_type_Ok: "okx_ord_type s = Ok (t, n) \<Longrightarrow> t = s \<and> CHR '','' \<notin> set t"
  by (auto simp: okx_ord_type_def split: if_splits)

lemma build_okx_order_body_Ok:
  assumes "build_okx_order_body req = Ok b"
  shows "b = ''{'' @ join_with '','' (map (\<lambda>(k, v). k @ '':'' @ v) (okx_order_members req)) @ ''}''"
    and "\<forall>(k, v) \<in> set (okx_order_members req). CHR '','' \<notin> set v"
proof -
  from assms obtain side ty n where safe: "is_safe_binance_param_value (or_symbol req)"
      "is_safe_binance_param_value (or_qty req)"
      "\<forall>p. or_price req = Some p \<longrightarrow> is_safe_binance_param_value p"
      "\<forall>c. or_client_order_id req = Some c \<longrightarrow> is_safe_binance_param_value c"
    and side: "okx_side (or_side req) = Ok side" and ty: "okx_ord_type (or_ord_type req) = Ok (ty, n)"
    and b: "b = ''{'' @ ''\"instId\":\"'' @ or_symbol req @ ''\",\"tdMode\":\"cross\",\"side\":\"'' @ side
        @ ''\",\"ordType\":\"'' @ ty @ ''\",\"sz\":\"'' @ or_qty req @ ''\"''
        @ (case or_price req of None \<Rightarrow> [] | Some p \<Rightarrow> '',\"px\":\"'' @ p @ ''\"'')
        @ (if or_reduce_only req then '',\"reduceOnly\":true'' else [])
        @ (case or_client_order_id req of None \<Rightarrow> [] | Some c \<Rightarrow> '',\"clOrdId\":\"'' @ c @ ''\"'') @ ''}''"
    by (cases "or_price req"; cases "or_client_order_id req")
      (auto simp: build_okx_order_body_def is_safe_okx_binance result_simps part_Ok split: if_splits)
  note up = okx_side_Ok [OF side] okx_ord_type_Ok [OF ty]
  show "b = ''{'' @ join_with '','' (map (\<lambda>(k, v). k @ '':'' @ v) (okx_order_members req)) @ ''}''"
    using up by (simp add: b okx_order_members_def json_str_def split: option.splits)
  show "\<forall>(k, v) \<in> set (okx_order_members req). CHR '','' \<notin> set v"
    using up safe
    by (cases "or_price req"; cases "or_client_order_id req")
      (simp_all add: okx_order_members_def json_str_def safe_value_no_sep)
qed

text \<open>
  An OKX order body that the enclave builds is a flat JSON object whose members are
  exactly those of the order request, in the documented order, each value the quoted text of
  the request's field: no field can close its string and inject a further member.
\<close>

theorem okx_order_body_exact:
  assumes "build_okx_order_body req = Ok b"
  shows "object_members b = map Some (okx_order_members req)"
proof -
  have "\<forall>(k, v) \<in> set (okx_order_members req). CHR '','' \<notin> set k \<and> CHR '':'' \<notin> set k"
    by (cases "or_price req"; cases "or_client_order_id req") (simp_all add: okx_order_members_def json_str_def)
  then have "\<forall>(k, v) \<in> set (okx_order_members req). CHR '','' \<notin> set k \<and> CHR '':'' \<notin> set k \<and> CHR '','' \<notin> set v"
    using build_okx_order_body_Ok(2) [OF assms] by fast
  moreover have "okx_order_members req \<noteq> []"
    by (simp add: okx_order_members_def)
  ultimately show ?thesis
    using object_members_render by (simp only: build_okx_order_body_Ok(1) [OF assms])
qed

theorem okx_order_body_exact_witness:
  "\<exists>b. build_okx_order_body sample_order = Ok b \<and> object_members b = map Some (okx_order_members sample_order)
     \<and> length (okx_order_members sample_order) = 8"
proof -
  have "is_ok (build_okx_order_body sample_order)"
    by code_simp
  then have "\<exists>b. build_okx_order_body sample_order = Ok b"
    by (simp add: result_simps)
  moreover have "length (okx_order_members sample_order) = 8"
    by (simp add: okx_order_members_def sample_order_def)
  ultimately show ?thesis
    using okx_order_body_exact [of sample_order] by metis
qed


section \<open>The calendar of OKX timestamps\<close>

text \<open>The reference: the Gregorian calendar, one day after another.\<close>

definition leap :: "int \<Rightarrow> bool" where
  "leap y \<longleftrightarrow> y mod 4 = 0 \<and> (y mod 100 \<noteq> 0 \<or> y mod 400 = 0)"

definition days_in_month :: "int \<Rightarrow> nat \<Rightarrow> nat" where
  "days_in_month y m = (if m = 2 then (if leap y then 29 else 28) else if m \<in> {4, 6, 9, 11} then 30 else 31)"

fun next_day :: "int \<times> nat \<times> nat \<Rightarrow> int \<times> nat \<times> nat" where
  "next_day (y, m, d) =
     (if d < days_in_month y m then (y, m, d + 1) else if m < 12 then (y, m + 1, 1) else (y + 1, 1, 1))"

text \<open>
  The algorithm counts years from the first of March.  A day of an era of 400 years is given by its
  century \<open>a\<close>, its four-year cycle \<open>b\<close>, its year \<open>c\<close> of the cycle and its day \<open>k\<close> of the year.
\<close>

definition long_year :: "nat \<Rightarrow> nat \<Rightarrow> nat \<Rightarrow> bool" where
  "long_year a b c \<longleftrightarrow> c = 3 \<and> (b < 24 \<or> a = 3)"

definition year_len :: "nat \<Rightarrow> nat \<Rightarrow> nat \<Rightarrow> nat" where
  "year_len a b c = (if long_year a b c then 366 else 365)"

definition era_day :: "nat \<Rightarrow> nat \<Rightarrow> nat \<Rightarrow> nat \<Rightarrow> bool" where
  "era_day a b c k \<longleftrightarrow> a < 4 \<and> b < 25 \<and> c < 4 \<and> k < year_len a b c"

lemma year_of_era:
  assumes "era_day a b c k" and doe: "doe = 36524 * a + 1461 * b + 365 * c + k"
  shows "(doe - doe div 1460 + doe div 36524 - doe div 146096) div 365 = 100 * a + 4 * b + c"
proof -
  have bounds: "a < 4" "b < 25" "c < 4" "k < 366" "k = 365 \<Longrightarrow> c = 3 \<and> (b < 24 \<or> a = 3)"
    using assms(1) by (auto simp: era_day_def year_len_def long_year_def split: if_splits)
  define e where "e = (24 * a + b + 365 * c + k) div 1460"
  have "doe = (25 * a + b) * 1460 + (24 * a + b + 365 * c + k)"
    using doe by simp
  then have d1: "doe div 1460 = 25 * a + b + e"
    by (simp add: e_def)
  have e01: "e = (if 24 * a + b + 365 * c + k < 1460 then 0 else 1)"
    using bounds(1-4) by (auto simp: e_def div_nat_eqI)
  have e: "e \<le> k" "k < 365 + e"
    using bounds e01 by (force split: if_splits)+
  have d2: "doe div 36524 = a + doe div 146096"
  proof (cases "doe = 146096")
    case True
    then have "a = 3" using bounds doe by auto
    then show ?thesis using True by simp
  next
    case False
    have "1461 * b + 365 * c + k < 36524 \<or> doe = 146096"
      using bounds doe by (cases "b = 24"; cases "k = 365"; auto)
    then have "doe div 36524 = a" "doe < 146096"
      using False doe bounds(1) by (auto simp: div_nat_eqI)
    then show ?thesis by simp
  qed
  have "doe - doe div 1460 + doe div 36524 - doe div 146096 = 365 * (100 * a + 4 * b + c) + (k - e)"
  proof -
    have "doe - doe div 1460 + doe div 36524 - doe div 146096 = doe - (25 * a + b + e) + a"
      unfolding d1 d2 by simp
    then show ?thesis
      using doe e(1) by simp
  qed
  then show ?thesis
    using e by simp
qed


lemma civil_from_days_era:
  assumes "era_day a b c k" "days + 719468 = int (146097 * era + 36524 * a + 1461 * b + 365 * c + k)"
  shows "civil_from_days days = date_of (int (400 * era + 100 * a + 4 * b + c)) k"
proof -
  define doe where "doe = 36524 * a + 1461 * b + 365 * c + k"
  have small: "doe < 146097"
    using assms(1) by (auto simp: doe_def era_day_def year_len_def long_year_def split: if_splits)
  have z: "days + 719468 = int era * 146097 + int doe"
    using assms(2) by (simp add: doe_def)
  have "(int era * 146097 + int doe) sdiv 146097 = int era"
    using small by (simp add: signed_divide_int_def sgn_if)
  then have "civil_from_days days = civil_from_era (int era) doe"
    by (simp add: civil_from_days_def z)
  moreover have "(100 * a + 4 * b + c) div 4 = 25 * a + b" "(100 * a + 4 * b + c) div 100 = a"
    using assms(1) by (auto simp: era_day_def intro!: div_nat_eqI)
  moreover have "civil_from_era (int era) doe =
      date_of (int (100 * a + 4 * b + c) + int era * 400)
        (doe - (365 * (100 * a + 4 * b + c) + (100 * a + 4 * b + c) div 4 - (100 * a + 4 * b + c) div 100))"
    unfolding civil_from_era_def year_of_era [OF assms(1) doe_def] Let_def ..
  ultimately show ?thesis
    by (simp add: doe_def algebra_simps)
qed

lemma mod_zero_top:
  fixes x m :: nat
  shows "0 < x \<Longrightarrow> x \<le> m \<Longrightarrow> x mod m = 0 \<longleftrightarrow> x = m"
  by (cases "x = m") auto

lemma leap_long_year:
  assumes "a < 4" "b < 25" "c < 4"
  shows "leap (int (400 * era + 100 * a + 4 * b + c) + 1) \<longleftrightarrow> long_year a b c"
proof -
  define n where "n = 400 * era + 100 * a + 4 * b + c + 1"
  have "int n mod numeral w = 0 \<longleftrightarrow> n mod numeral w = 0" for w
    by (metis int_dvd_int_iff mod_eq_0_iff_dvd of_nat_numeral)
  then have "leap (int n) \<longleftrightarrow> n mod 4 = 0 \<and> (n mod 100 \<noteq> 0 \<or> n mod 400 = 0)"
    by (simp add: leap_def)
  moreover have "n mod 4 = (c + 1) mod 4"
  proof -
    have "n = (c + 1) + (100 * era + 25 * a + b) * 4" by (simp add: n_def)
    then show ?thesis by (simp only: mod_mult_self1)
  qed
  moreover have "n mod 100 = (4 * b + c + 1) mod 100"
  proof -
    have "n = (4 * b + c + 1) + (4 * era + a) * 100" by (simp add: n_def)
    then show ?thesis by (simp only: mod_mult_self1)
  qed
  moreover have "n mod 400 = (100 * a + 4 * b + c + 1) mod 400"
  proof -
    have "n = (100 * a + 4 * b + c + 1) + era * 400" by (simp add: n_def)
    then show ?thesis by (simp only: mod_mult_self1)
  qed
  moreover have "(c + 1) mod 4 = 0 \<longleftrightarrow> c = 3"
    using mod_zero_top [of "c + 1" 4] assms by simp
  moreover have "(4 * b + c + 1) mod 100 = 0 \<longleftrightarrow> 4 * b + c = 99"
    using mod_zero_top [of "4 * b + c + 1" 100] assms by simp
  moreover have "(100 * a + 4 * b + c + 1) mod 400 = 0 \<longleftrightarrow> 100 * a + 4 * b + c = 399"
    using mod_zero_top [of "100 * a + 4 * b + c + 1" 400] assms by simp
  ultimately have "leap (int n) \<longleftrightarrow> c = 3 \<and> (4 * b + c \<noteq> 99 \<or> 100 * a + 4 * b + c = 399)"
    by metis
  also have "\<dots> \<longleftrightarrow> long_year a b c"
    using assms by (auto simp: long_year_def)
  finally show ?thesis
    by (simp add: n_def algebra_simps)
qed

text \<open>Within a year: month \<open>mp\<close> of the March-based year starts on day \<open>(153 mp + 2) div 5\<close>.\<close>

lemma month_day_at:
  assumes "(153 * mp + 2) div 5 \<le> doy" "doy < (153 * (mp + 1) + 2) div 5"
  shows "month_day doy = (if mp < 10 then mp + 3 else mp - 9, doy - (153 * mp + 2) div 5 + 1)"
proof -
  have "153 * mp + 2 < Suc doy * 5" "Suc doy * 5 \<le> 153 * (mp + 1) + 2"
    using assms by (simp_all add: div_less_iff_less_mult [symmetric] less_eq_div_iff_mult_less_eq [symmetric])
  then have "(5 * doy + 2) div 153 = mp"
    by (intro div_nat_eqI) simp_all
  then show ?thesis
    by (simp add: month_day_def)
qed

lemma month_lengths:
  assumes "mp < 11"
  shows "(153 * (mp + 1) + 2) div 5 - (153 * mp + 2) div 5 = days_in_month y (if mp < 10 then mp + 3 else mp - 9)"
proof -
  have "mp = 0 \<or> mp = 1 \<or> mp = 2 \<or> mp = 3 \<or> mp = 4 \<or> mp = 5 \<or> mp = 6 \<or> mp = 7 \<or> mp = 8 \<or> mp = 9 \<or> mp = 10"
    using assms by arith
  then show ?thesis
    by (elim disjE) (simp_all add: days_in_month_def)
qed

lemma month_of:
  fixes doy :: nat
  assumes "doy < 366"
  obtains mp where "(153 * mp + 2) div 5 \<le> doy" "doy < (153 * (mp + 1) + 2) div 5" "mp < 12"
proof -
  define mp where "mp = (5 * doy + 2) div 153"
  have "153 * mp \<le> 5 * doy + 2" "5 * doy + 2 < 153 * mp + 153"
    using div_times_less_eq_dividend [of "5 * doy + 2" 153] dividend_less_div_times [of 153 "5 * doy + 2"]
    by (simp_all add: mp_def)
  then have "153 * mp + 2 < Suc doy * 5" "Suc doy * 5 \<le> 153 * (mp + 1) + 2" "mp < 12"
    using assms by simp_all
  moreover from this(1) have "(153 * mp + 2) div 5 < Suc doy"
    by (subst div_less_iff_less_mult) simp_all
  moreover from calculation(2) have "Suc doy \<le> (153 * (mp + 1) + 2) div 5"
    by (subst less_eq_div_iff_mult_less_eq) simp_all
  ultimately show thesis
    using that [of mp] by (simp only: less_Suc_eq_le Suc_le_eq)
qed

lemma next_day_date_of:
  assumes "doy < (if leap (y + 1) then 366 else 365)"
  shows "next_day (date_of y doy) =
    (if doy + 1 < (if leap (y + 1) then 366 else 365) then date_of y (doy + 1) else date_of (y + 1) 0)"
proof -
  obtain mp where lo: "(153 * mp + 2) div 5 \<le> doy" and hi: "doy < (153 * (mp + 1) + 2) div 5" and mp: "mp < 12"
    using month_of [of doy] assms by (auto split: if_splits)
  show ?thesis
  proof (cases "mp = 11")
    case True
    then have "month_day doy = (2, doy - 336)" "month_day 0 = (3, 1)" "336 < doy"
      using month_day_at [OF lo hi] lo by (auto simp: month_day_def)
    moreover have "month_day (doy + 1) = (2, doy - 335)" if "doy < 366"
      using month_day_at [of 11 "doy + 1"] that calculation by auto
    ultimately show ?thesis
      using assms by (auto simp: date_of_def days_in_month_def)
  next
    case False
    then have lt: "mp < 11" using mp by simp
    define m where "m = (if mp < 10 then mp + 3 else mp - 9)"
    define m' where "m' = (if mp + 1 < 10 then mp + 1 + 3 else mp + 1 - 9)"
    define s0 where "s0 = (153 * mp + 2) div 5"
    define s1 where "s1 = (153 * (mp + 1) + 2) div 5"
    have len: "s1 - s0 = days_in_month y' m" for y'
      unfolding s0_def s1_def m_def by (rule month_lengths [OF lt])
    have month: "m \<noteq> 2" "m \<le> 12" "m' = (if m = 12 then 1 else m + 1)" "m' = 2 \<longleftrightarrow> m = 1" "m = 1 \<or> 3 \<le> m"
      using lt by (auto simp: m_def m'_def)
    have here: "month_day doy = (m, doy - s0 + 1)" and ge: "s0 \<le> doy" and lt1: "doy < s1"
      using month_day_at [OF lo hi] lo hi by (simp_all only: s0_def s1_def m_def)
    have year: "doy + 1 < 365"
    proof -
      have "(153 * (mp + 1) + 2) div 5 \<le> (153 * 11 + 2) div 5"
        using lt by (intro div_le_mono) simp
      then show ?thesis using hi by simp
    qed
    show ?thesis
    proof (cases "doy + 1 < s1")
      case True
      then have "month_day (doy + 1) = (m, doy + 1 - s0 + 1)"
        using ge unfolding s0_def s1_def m_def by (intro month_day_at) simp_all
      moreover have "doy - s0 + 1 < days_in_month y' m" for y'
        using True ge len [of y'] by simp
      ultimately show ?thesis
        using here year ge by (simp add: date_of_def Suc_diff_le)
    next
      case False
      then have at: "doy + 1 = s1" using lt1 by simp
      have "(153 * (mp + 1) + 2) div 5 < (153 * (mp + 1 + 1) + 2) div 5"
        by (simp add: div_less_iff_less_mult)
      then have "month_day (doy + 1) = (m', doy + 1 - s1 + 1)"
        using at unfolding s1_def m'_def by (intro month_day_at) simp_all
      moreover have "\<not> doy - s0 + 1 < days_in_month y' m" for y'
        using at ge len [of y'] by simp
      ultimately show ?thesis
        using here year at month by (auto simp: date_of_def)
    qed
  qed
qed

text \<open>The day after a day of an era.\<close>

lemma era_day_step:
  assumes "era_day a b c k"
  shows "\<exists>era' a' b' c' k'. era_day a' b' c' k'
    \<and> 146097 * era' + 36524 * a' + 1461 * b' + 365 * c' + k' = 146097 * era + 36524 * a + 1461 * b + 365 * c + k + 1
    \<and> date_of (int (400 * era' + 100 * a' + 4 * b' + c')) k'
      = next_day (date_of (int (400 * era + 100 * a + 4 * b + c)) k)"
proof -
  have range: "a < 4" "b < 25" "c < 4" and k: "k < year_len a b c"
    using assms by (simp_all add: era_day_def)
  define y where "y = int (400 * era + 100 * a + 4 * b + c)"
  have step: "next_day (date_of y k) = (if k + 1 < year_len a b c then date_of y (k + 1) else date_of (y + 1) 0)"
    using next_day_date_of [of k y] k leap_long_year [OF range, of era] by (simp add: y_def year_len_def)
  show ?thesis
  proof (cases "k + 1 < year_len a b c")
    case True
    then show ?thesis
      using range step by (intro exI [of _ era] exI [of _ a] exI [of _ b] exI [of _ c] exI [of _ "k + 1"])
        (simp add: era_day_def y_def)
  next
    case False
    then have last: "k + 1 = year_len a b c" and next_date: "next_day (date_of y k) = date_of (y + 1) 0"
      using k step by auto
    have new: "?thesis" if "a' < 4" "b' < 25" "c' < 4"
        "146097 * era' + 36524 * a' + 1461 * b' + 365 * c' = 146097 * era + 36524 * a + 1461 * b + 365 * c + year_len a b c"
        "400 * era' + 100 * a' + 4 * b' + c' = 400 * era + 100 * a + 4 * b + c + 1" for era' a' b' c'
    proof (intro exI conjI)
      show "era_day a' b' c' 0" using that by (simp add: era_day_def year_len_def)
      show "146097 * era' + 36524 * a' + 1461 * b' + 365 * c' + 0 = 146097 * era + 36524 * a + 1461 * b + 365 * c + k + 1"
        using that(4) last by simp
      show "date_of (int (400 * era' + 100 * a' + 4 * b' + c')) 0
          = next_day (date_of (int (400 * era + 100 * a + 4 * b + c)) k)"
        unfolding that(5) using next_date by (simp add: y_def algebra_simps)
    qed
    consider "c < 3" | "c = 3" "b < 24" | "c = 3" "b = 24" "a < 3" | "c = 3" "b = 24" "a = 3"
      using range by linarith
    then show ?thesis
    proof cases
      case 1
      then show ?thesis using range by (intro new [of a b "c + 1" era]) (auto simp: year_len_def long_year_def)
    next
      case 2
      then show ?thesis using range by (intro new [of a "b + 1" 0 era]) (auto simp: year_len_def long_year_def)
    next
      case 3
      then show ?thesis using range by (intro new [of "a + 1" 0 0 era]) (auto simp: year_len_def long_year_def)
    next
      case 4
      then show ?thesis using range by (intro new [of 0 0 0 "era + 1"]) (auto simp: year_len_def long_year_def)
    qed
  qed
qed

lemma civil_from_days_next:
  "\<exists>era a b c k. era_day a b c k \<and> int n + 719468 = int (146097 * era + 36524 * a + 1461 * b + 365 * c + k)
     \<and> date_of (int (400 * era + 100 * a + 4 * b + c)) k = (next_day ^^ n) (1970, 1, 1)"
proof (induction n)
  case 0
  have "date_of (int (400 * 4 + 100 * 3 + 4 * 17 + 1)) 306 = (1970, 1, 1)"
    by (simp add: date_of_def month_day_def)
  then show ?case
    by (intro exI [of _ 4] exI [of _ 3] exI [of _ 17] exI [of _ 1] exI [of _ 306])
      (simp add: era_day_def year_len_def)
next
  case (Suc n)
  then obtain era a b c k where day: "era_day a b c k"
    and z: "int n + 719468 = int (146097 * era + 36524 * a + 1461 * b + 365 * c + k)"
    and date: "date_of (int (400 * era + 100 * a + 4 * b + c)) k = (next_day ^^ n) (1970, 1, 1)"
    by blast
  from era_day_step [OF day, of era] obtain era' a' b' c' k' where "era_day a' b' c' k'"
    "146097 * era' + 36524 * a' + 1461 * b' + 365 * c' + k' = 146097 * era + 36524 * a + 1461 * b + 365 * c + k + 1"
    "date_of (int (400 * era' + 100 * a' + 4 * b' + c')) k' = next_day (date_of (int (400 * era + 100 * a + 4 * b + c)) k)"
    by blast
  moreover from this(2) have "int (Suc n) + 719468 = int (146097 * era' + 36524 * a' + 1461 * b' + 365 * c' + k')"
    using z by linarith
  ultimately show ?case
    unfolding date by (intro exI [of _ era'] exI [of _ a'] exI [of _ b'] exI [of _ c'] exI [of _ k']) simp
qed

text \<open>
  C35: The date the enclave writes into every OKX timestamp is the Gregorian date: for every
  64-bit millisecond timestamp, the closed arithmetic of \<open>civil_from_days\<close> gives the date
  reached by advancing day by day, with the leap-year rule, from 1970-01-01.
\<close>

theorem okx_date_is_gregorian:
  "civil_from_days (int (unat ts div 1000) div 86400) = (next_day ^^ (unat ts div 1000 div 86400)) (1970, 1, 1)"
proof -
  have "civil_from_days (int n) = (next_day ^^ n) (1970, 1, 1)" for n
    using civil_from_days_next [of n] civil_from_days_era by metis
  from this [of "unat ts div 1000 div 86400"] show ?thesis
    by (simp add: zdiv_int)
qed

end
