(* ===== verification/Policy.thy ===== *)
theory Policy
  imports Registry Venue_Sign
begin

text \<open>
  The policy engine of \<^verbatim>\<open>enclave/src/handler.rs\<close>: which venue an action belongs to, the rules of
  a sealed policy, the strict floor for money venues, and the signature of the
  policy authority.  The environment variables the image is built with are one
  configuration record; the code reads them once and caches them.

  Shown here: what an accepted request satisfies, that every refusal after the
  policy was read names that policy, that the allow-list matches only at path
  boundaries while the deny-list matches every extension, and that a policy
  signature is bound to one customer and venue.
\<close>

section \<open>Configuration and venues\<close>

record enclave_config =
  cf_require_policy :: "bytes option"
  cf_policy_pubkey :: "bytes option"
  cf_registry_pubkey :: "bytes option"

definition ALLOWED_METHODS :: "bytes list" where
  "ALLOWED_METHODS = [''GET'', ''POST'', ''PUT'', ''DELETE'']"

definition KEY_VERSION :: "32 word" where
  "KEY_VERSION = 1"

definition REQUIRED_PROTO_VERSION :: "8 word" where
  "REQUIRED_PROTO_VERSION = 1"

definition venue_for_action :: "bytes \<Rightarrow> bytes option" where
  "venue_for_action action =
     (if action \<in> {''sign_binance'', ''sign_binance_order'', ''sign_binance_cancel'', ''sign_binance_request''}
      then Some ''binance''
      else if action \<in> {''sign_okx'', ''sign_okx_order'', ''sign_okx_cancel''} then Some ''okx''
      else if action = ''sign_kucoin'' then Some ''kucoin''
      else if action = ''sign_bybit'' then Some ''bybit''
      else if action \<in> {''sign_hyperliquid_main_order'', ''sign_hyperliquid_main_cancel''} then Some ''hyperliquid_main''
      else if action \<in> {''sign_hyperliquid_testnet_order'', ''sign_hyperliquid_testnet_cancel''}
      then Some ''hyperliquid_testnet''
      else if action = ''sign_asterdex'' then Some ''asterdex''
      else if action = ''sign_x402_eip3009'' then Some ''x402''
      else if action = ''sign_permit2_permit_single'' then Some ''permit2''
      else if action = ''sign_data'' then Some ''data-signing''
      else None)"

datatype load_secret_error = LoadBadRequest | LoadKmsDenied | LoadInternal | LoadPolicyRequired

definition authorize_venue :: "resolved_identity \<Rightarrow> bytes \<Rightarrow> (load_secret_error, unit) result" where
  "authorize_venue identity venue = (if venue_allowed identity venue then Ok () else Err LoadBadRequest)"

definition parse_require_policy_env :: "bytes option \<Rightarrow> bool" where
  "parse_require_policy_env v =
     (case v of None \<Rightarrow> False
      | Some s \<Rightarrow> list_ex (eq_ignore_ascii_case s) [''1'', ''true'', ''yes'', ''on''])"

definition policy_required :: "enclave_config \<Rightarrow> bool" where
  "policy_required cfg = parse_require_policy_env (cf_require_policy cfg)"

definition is_money_venue :: "bytes \<Rightarrow> bool" where
  "is_money_venue venue \<longleftrightarrow>
     venue \<in> {''binance'', ''binance_futures'', ''okx'', ''bybit'', ''kucoin'', ''asterdex'', ''hyperliquid_main'',
              ''hyperliquid_testnet'', ''permit2''}"

definition is_hl_venue :: "bytes \<Rightarrow> bool" where
  "is_hl_venue venue \<longleftrightarrow> venue \<in> {''hyperliquid_main'', ''hyperliquid_testnet''}"

definition floor_is_unconditional :: "bytes \<Rightarrow> bool" where
  "floor_is_unconditional venue \<longleftrightarrow> venue = ''hyperliquid_main''"

definition blob_floor_strict :: "bool \<Rightarrow> bytes \<Rightarrow> bool" where
  "blob_floor_strict env_strict venue \<longleftrightarrow> env_strict \<or> floor_is_unconditional venue"

definition non_empty :: "'a list option \<Rightarrow> bool" where
  "non_empty caps = (case caps of None \<Rightarrow> False | Some c \<Rightarrow> c \<noteq> [])"

definition rot3_binding_cap_present :: "bytes \<Rightarrow> policy \<Rightarrow> bool" where
  "rot3_binding_cap_present venue p =
     (if is_hl_venue venue then non_empty (pl_hl_order_caps p) else non_empty (pl_order_caps p))"

definition rot3_uncapped_money_key_rejected :: "bool \<Rightarrow> bytes \<Rightarrow> policy \<Rightarrow> bool" where
  "rot3_uncapped_money_key_rejected strict venue p \<longleftrightarrow>
     strict \<and> is_money_venue venue \<and> \<not> rot3_binding_cap_present venue p"


section \<open>The policy hash and the policy authority\<close>

definition canonical_policy_signable :: "'x enclave_ext_scheme \<Rightarrow> policy \<Rightarrow> bytes" where
  "canonical_policy_signable X p =
     policy_json X (p\<lparr>pl_signer_pubkey := None, pl_policy_signature := None, pl_policy_authority_sig := None\<rparr>)"

definition compute_policy_hash :: "'x enclave_ext_scheme \<Rightarrow> policy \<Rightarrow> bytes" where
  "compute_policy_hash X p = hex_encode X (sha256 X (canonical_policy_signable X p))"

definition POLICY_AUTHORITY_DOMAIN :: bytes where
  "POLICY_AUTHORITY_DOMAIN = ''signer-policy-authority-v1'' @ [CHR 0x00]"

definition policy_authority_message :: "bytes \<Rightarrow> bytes \<Rightarrow> bytes \<Rightarrow> bytes" where
  "policy_authority_message customer_id venue canonical_policy =
     POLICY_AUTHORITY_DOMAIN @ len_prefixed 4 customer_id @ len_prefixed 4 venue @ len_prefixed 4 canonical_policy"

datatype policy_key_error = KeyUnset | KeyMalformed

definition parse_policy_authority_vk ::
  "'x enclave_ext_scheme \<Rightarrow> enclave_config \<Rightarrow> (policy_key_error, bytes) result" where
  "parse_policy_authority_vk X cfg =
     (case cf_policy_pubkey cfg of
        None \<Rightarrow> Err KeyUnset
      | Some hex_str \<Rightarrow>
          if hex_str = [] then Err KeyUnset
          else case hex_decode X hex_str of
            None \<Rightarrow> Err KeyMalformed
          | Some bs \<Rightarrow> if length bs = 32 \<and> ed_key_ok X bs then Ok bs else Err KeyMalformed)"

fun map_policy_authority_key_err :: "policy_key_error \<Rightarrow> load_secret_error" where
  "map_policy_authority_key_err KeyUnset = LoadPolicyRequired"
| "map_policy_authority_key_err KeyMalformed = LoadInternal"

definition policy_authority_vk ::
  "'x enclave_ext_scheme \<Rightarrow> enclave_config \<Rightarrow> (load_secret_error, bytes) result" where
  "policy_authority_vk X cfg = map_err map_policy_authority_key_err (parse_policy_authority_vk X cfg)"

definition verify_policy_authority ::
  "'x enclave_ext_scheme \<Rightarrow> enclave_config \<Rightarrow> policy \<Rightarrow> bytes \<Rightarrow> bytes \<Rightarrow> (load_secret_error, unit) result" where
  "verify_policy_authority X cfg p customer_id venue =
     try_res (policy_authority_vk X cfg) (\<lambda>vk.
     try_res (ok_or LoadPolicyRequired (pl_policy_authority_sig p)) (\<lambda>sig_hex.
     try_res (ok_or LoadBadRequest (hex_decode X sig_hex)) (\<lambda>sig.
     if length sig \<noteq> 64 then Err LoadBadRequest
     else if ed_verify X vk (policy_authority_message customer_id venue (canonical_policy_signable X p)) sig
     then Ok () else Err LoadBadRequest)))"


section \<open>Enforcement\<close>

definition path_matches_prefix :: "bytes \<Rightarrow> bytes \<Rightarrow> bool" where
  "path_matches_prefix path pfx =
     (if pfx = [] then False
      else if \<not> starts_with path pfx then False
      else if last pfx = CHR ''/'' \<or> last pfx = CHR ''?'' then True
      else if length path \<le> length pfx then True
      else path ! length pfx = CHR ''/'' \<or> path ! length pfx = CHR ''?'')"

definition deny_under :: "bytes option \<Rightarrow> err_code \<Rightarrow> sign_response" where
  "deny_under policy_hash code = with_policy_hash policy_hash (rsp_err code)"

text \<open>The checks of \<^verbatim>\<open>enforce_policy_inner\<close>, each true when it refuses the request.\<close>

definition action_refused :: "policy \<Rightarrow> sign_request \<Rightarrow> bool" where
  "action_refused p req = (case pl_allowed_actions p of None \<Rightarrow> False | Some allowed \<Rightarrow> rq_action req \<notin> set allowed)"

definition intent_on_hl :: "policy \<Rightarrow> sign_request \<Rightarrow> bool" where
  "intent_on_hl p req \<longleftrightarrow>
     pl_intent_pubkey p \<noteq> None
     \<and> (case venue_for_action (rq_action req) of None \<Rightarrow> False | Some venue \<Rightarrow> is_hl_venue venue)"

definition method_refused :: "policy \<Rightarrow> sign_request \<Rightarrow> bool" where
  "method_refused p req =
     (case pl_allowed_methods p of None \<Rightarrow> False
      | Some allowed \<Rightarrow> (case rq_method req of None \<Rightarrow> False | Some m \<Rightarrow> m \<notin> set allowed))"

definition path_not_allowed :: "policy \<Rightarrow> sign_request \<Rightarrow> bool" where
  "path_not_allowed p req =
     (case pl_allowed_path_prefixes p of None \<Rightarrow> False
      | Some pfxs \<Rightarrow> (case rq_path req of None \<Rightarrow> False
          | Some path \<Rightarrow> \<not> list_ex (path_matches_prefix path) pfxs))"

definition path_denied :: "policy \<Rightarrow> sign_request \<Rightarrow> bool" where
  "path_denied p req =
     (case pl_denied_path_prefixes p of None \<Rightarrow> False
      | Some pfxs \<Rightarrow> (case rq_path req of None \<Rightarrow> False | Some path \<Rightarrow> list_ex (starts_with path) pfxs))"

definition label_too_long :: "policy \<Rightarrow> bool" where
  "label_too_long p = (case pl_label p of None \<Rightarrow> False | Some label \<Rightarrow> chars_count label > 128)"

definition enforce_policy_inner ::
  "'x enclave_ext_scheme \<Rightarrow> policy option \<Rightarrow> sign_request \<Rightarrow> (sign_response, bytes option) result" where
  "enforce_policy_inner X policy_opt req =
     (case policy_opt of
        None \<Rightarrow> Ok None
      | Some p \<Rightarrow>
          if pl_intent_pubkey p \<noteq> None \<and> pl_order_caps p = None then Err (rsp_err POLICY_REQUIRED)
          else if action_refused p req then Err (rsp_err ACTION_NOT_ALLOWED)
          else if intent_on_hl p req then Err (rsp_err POLICY_REQUIRED)
          else if method_refused p req then Err (rsp_err ACTION_NOT_ALLOWED)
          else if path_not_allowed p req then Err (rsp_err ACTION_NOT_ALLOWED)
          else if path_denied p req then Err (rsp_err WITHDRAWAL_NOT_SIGNABLE)
          else if label_too_long p then Err (rsp_err POLICY_DENIED)
          else if pl_max_requests_per_minute p \<noteq> None then Err (rsp_err UNIMPLEMENTED_POLICY_FIELD)
          else Ok (Some (compute_policy_hash X p)))"

definition enforce_policy ::
  "'x enclave_ext_scheme \<Rightarrow> policy option \<Rightarrow> sign_request \<Rightarrow> (sign_response, bytes option) result" where
  "enforce_policy X policy_opt req =
     map_err (\<lambda>resp. case policy_opt of
                 None \<Rightarrow> resp
               | Some p \<Rightarrow> with_policy_hash (Some (compute_policy_hash X p)) resp)
       (enforce_policy_inner X policy_opt req)"


section \<open>What acceptance means\<close>

text \<open>The specification of the matcher: the prefix ends at a path boundary.\<close>

definition at_boundary :: "bytes \<Rightarrow> bytes \<Rightarrow> bool" where
  "at_boundary pfx rest \<longleftrightarrow>
     last pfx \<in> {CHR ''/'', CHR ''?''} \<or> rest = [] \<or> hd rest \<in> {CHR ''/'', CHR ''?''}"

lemma path_matches_prefix_iff:
  "path_matches_prefix path pfx \<longleftrightarrow> (\<exists>rest. pfx \<noteq> [] \<and> path = pfx @ rest \<and> at_boundary pfx rest)"
proof (cases "starts_with path pfx")
  case True
  then obtain rest where "path = pfx @ rest"
    by (auto simp: starts_with_iff)
  then show ?thesis
    by (cases rest) (auto simp: path_matches_prefix_def at_boundary_def starts_with_iff)
next
  case False
  then show ?thesis
    by (auto simp: path_matches_prefix_def starts_with_iff)
qed

text \<open>The checks as the rules they stand for.\<close>

lemma action_refused_iff:
  "\<not> action_refused p req \<longleftrightarrow> (\<forall>allowed. pl_allowed_actions p = Some allowed \<longrightarrow> rq_action req \<in> set allowed)"
  by (simp add: action_refused_def split: option.split)

lemma intent_on_hl_iff:
  "\<not> intent_on_hl p req \<longleftrightarrow>
     (pl_intent_pubkey p \<noteq> None \<longrightarrow> (\<forall>v. venue_for_action (rq_action req) = Some v \<longrightarrow> \<not> is_hl_venue v))"
  by (cases "pl_intent_pubkey p") (simp_all add: intent_on_hl_def split: option.split)

lemma method_refused_iff:
  "\<not> method_refused p req \<longleftrightarrow>
     (\<forall>allowed m. pl_allowed_methods p = Some allowed \<longrightarrow> rq_method req = Some m \<longrightarrow> m \<in> set allowed)"
  by (simp add: method_refused_def split: option.split)

lemma path_not_allowed_iff:
  "\<not> path_not_allowed p req \<longleftrightarrow>
     (\<forall>pfxs path. pl_allowed_path_prefixes p = Some pfxs \<longrightarrow> rq_path req = Some path \<longrightarrow>
        (\<exists>pfx \<in> set pfxs. \<exists>rest. pfx \<noteq> [] \<and> path = pfx @ rest \<and> at_boundary pfx rest))"
  by (simp add: path_not_allowed_def list_ex_iff path_matches_prefix_iff split: option.split)

lemma path_denied_iff:
  "\<not> path_denied p req \<longleftrightarrow>
     (\<forall>pfxs path. pl_denied_path_prefixes p = Some pfxs \<longrightarrow> rq_path req = Some path \<longrightarrow>
        (\<forall>pfx \<in> set pfxs. \<forall>rest. path \<noteq> pfx @ rest))"
  by (simp add: path_denied_def list_ex_iff starts_with_iff split: option.split)

lemma label_too_long_iff: "\<not> label_too_long p \<longleftrightarrow> (\<forall>label. pl_label p = Some label \<longrightarrow> chars_count label \<le> 128)"
  by (simp add: label_too_long_def not_less split: option.split)

text \<open>The rules of a policy, one conjunct each.\<close>

definition policy_permits :: "policy \<Rightarrow> sign_request \<Rightarrow> bool" where
  "policy_permits p req \<longleftrightarrow>
     (pl_intent_pubkey p \<noteq> None \<longrightarrow> pl_order_caps p \<noteq> None)
     \<and> (\<forall>allowed. pl_allowed_actions p = Some allowed \<longrightarrow> rq_action req \<in> set allowed)
     \<and> (pl_intent_pubkey p \<noteq> None \<longrightarrow> (\<forall>v. venue_for_action (rq_action req) = Some v \<longrightarrow> \<not> is_hl_venue v))
     \<and> (\<forall>allowed m. pl_allowed_methods p = Some allowed \<longrightarrow> rq_method req = Some m \<longrightarrow> m \<in> set allowed)
     \<and> (\<forall>pfxs path. pl_allowed_path_prefixes p = Some pfxs \<longrightarrow> rq_path req = Some path \<longrightarrow>
          (\<exists>pfx \<in> set pfxs. \<exists>rest. pfx \<noteq> [] \<and> path = pfx @ rest \<and> at_boundary pfx rest))
     \<and> (\<forall>pfxs path. pl_denied_path_prefixes p = Some pfxs \<longrightarrow> rq_path req = Some path \<longrightarrow>
          (\<forall>pfx \<in> set pfxs. \<forall>rest. path \<noteq> pfx @ rest))
     \<and> (\<forall>label. pl_label p = Some label \<longrightarrow> chars_count label \<le> 128)
     \<and> pl_max_requests_per_minute p = None"

lemma enforce_policy_inner_Ok:
  "enforce_policy_inner X (Some p) req = Ok h \<longleftrightarrow> policy_permits p req \<and> h = Some (compute_policy_hash X p)"
  unfolding policy_permits_def action_refused_iff [symmetric] intent_on_hl_iff [symmetric] method_refused_iff [symmetric]
    path_not_allowed_iff [symmetric] path_denied_iff [symmetric] label_too_long_iff [symmetric]
  by (auto simp: enforce_policy_inner_def)

text \<open>
  C18: A request passes the policy gate exactly when the sealed policy permits it: every rule
  the policy states holds of the request (action and method allow-lists, an allow-listed path
  that ends at a path boundary, no deny-listed path prefix however continued, caps present
  where agent intents are required), and the result names the policy.  A refusal under a
  policy carries that policy's hash too.
\<close>

theorem enforce_policy_exact:
  "(case enforce_policy X (Some p) req of
      Ok h \<Rightarrow> policy_permits p req \<and> h = Some (compute_policy_hash X p)
    | Err resp \<Rightarrow> \<not> policy_permits p req \<and> rs_policy_hash resp = Some (compute_policy_hash X p)
        \<and> rs_error resp \<noteq> None \<and> \<not> carries_signature resp)"
proof (cases "enforce_policy_inner X (Some p) req")
  case (Inl resp)
  moreover from this have "\<exists>code. resp = rsp_err code"
    by (auto simp: enforce_policy_inner_def split: if_splits)
  ultimately show ?thesis
    using enforce_policy_inner_Ok [of X p req] by (auto simp: enforce_policy_def rsp_defs carries_signature_def)
next
  case (Inr h)
  then show ?thesis
    using enforce_policy_inner_Ok [of X p req h] by (simp add: enforce_policy_def)
qed


text \<open>
  A policy-authority signature is valid for one customer, one venue and one policy text:
  the signed messages of two (customer, venue, policy) triples coincide only when the triples
  do, for components shorter than \<open>2\<^sup>32\<close> bytes.
\<close>

theorem policy_authority_message_inj:
  assumes "list_all (len_fits 4) [c, v, p, c', v', p']"
  shows "policy_authority_message c v p = policy_authority_message c' v' p' \<longleftrightarrow> c = c' \<and> v = v' \<and> p = p'"
  using assms lp.cancel_iff [of 4 c c'] lp.cancel_iff [of 4 v v'] lp.inj [of 4 p p']
  by (simp add: policy_authority_message_def)

theorem policy_authority_message_inj_witness:
  "policy_authority_message ''a'' ''bc'' ''{}'' \<noteq> policy_authority_message ''ab'' ''c'' ''{}''"
  using policy_authority_message_inj [of "''a''" "''bc''" "''{}''" "''ab''" "''c''" "''{}''"]
  by (simp add: len_fits_def fits_def)

end
