(* ===== verification/Tofu.thy ===== *)
theory Tofu
  imports Externals
begin

text \<open>
  \<^verbatim>\<open>enclave/src/tofu.rs\<close>: trust-on-first-use pinning of the key that signs a
  tenant's policy.  Hex decoding and Ed25519 belong to third-party crates and
  are parameters.  The lemmas show which requests succeed, that a pin never
  changes once made, and that the store never outgrows its bound.
\<close>

definition MAX_PINS :: nat where
  "MAX_PINS = 256"

datatype tofu_error =
    BadPubkeyLength
  | BadSignatureLength
  | PubkeyHex
  | SignatureHex
  | InvalidPubkey
  | SignatureInvalid
  | PubkeyMismatch
  | PinnedKeyUnsigned
  | PinStoreFull

type_synonym pin_store = "bytes \<rightharpoonup> bytes"

definition require_if_pinned :: "bytes \<Rightarrow> pin_store \<Rightarrow> (tofu_error, unit) result" where
  "require_if_pinned s3_key store =
     (if store s3_key \<noteq> None then Err PinnedKeyUnsigned else Ok ())"

text \<open>The checks of \<^verbatim>\<open>verify_and_pin\<close> up to the lock: the verified public key.\<close>

definition verify_policy_key ::
  "'x externals_scheme \<Rightarrow> bytes \<Rightarrow> bytes \<Rightarrow> bytes \<Rightarrow> (tofu_error, bytes) result" where
  "verify_policy_key X policy_json signer_pubkey_hex policy_signature_hex =
     (if length signer_pubkey_hex \<noteq> 64 then Err BadPubkeyLength
      else if length policy_signature_hex \<noteq> 128 then Err BadSignatureLength
      else try_res (ok_or PubkeyHex (hex_decode X signer_pubkey_hex)) (\<lambda>pk.
        if length pk \<noteq> 32 then Err BadPubkeyLength
        else try_res (ok_or SignatureHex (hex_decode X policy_signature_hex)) (\<lambda>sig.
          if length sig \<noteq> 64 then Err BadSignatureLength
          else if \<not> ed_key_ok X pk then Err InvalidPubkey
          else if \<not> ed_verify X pk policy_json sig then Err SignatureInvalid
          else Ok pk)))"

definition verify_and_pin ::
  "'x externals_scheme \<Rightarrow> bytes \<Rightarrow> bytes \<Rightarrow> bytes \<Rightarrow> bytes \<Rightarrow> pin_store
    \<Rightarrow> (tofu_error, unit) result \<times> pin_store" where
  "verify_and_pin X s3_key policy_json signer_pubkey_hex policy_signature_hex store =
     (case verify_policy_key X policy_json signer_pubkey_hex policy_signature_hex of
        Inl e \<Rightarrow> (Err e, store)
      | Inr pk \<Rightarrow>
          (case store s3_key of
             Some pinned \<Rightarrow> (if pinned \<noteq> pk then Err PubkeyMismatch else Ok (), store)
           | None \<Rightarrow>
               if card (dom store) \<ge> MAX_PINS then (Err PinStoreFull, store)
               else (Ok (), store(s3_key \<mapsto> pk))))"

text \<open>A history of verification requests.\<close>

type_synonym pin_request = "bytes \<times> bytes \<times> bytes \<times> bytes"

fun pin_run :: "'x externals_scheme \<Rightarrow> pin_request list \<Rightarrow> pin_store \<Rightarrow> pin_store" where
  "pin_run X [] store = store"
| "pin_run X ((k, pol, pk, sig) # rs) store =
     pin_run X rs (snd (verify_and_pin X k pol pk sig store))"


section \<open>Pins are permanent and bounded\<close>

lemma verify_policy_key_Ok:
  "verify_policy_key X pol pk_hex sig_hex = Ok pk \<longleftrightarrow>
     length pk_hex = 64 \<and> length sig_hex = 128 \<and> hex_decode X pk_hex = Some pk \<and> length pk = 32 \<and>
     (\<exists>sig. hex_decode X sig_hex = Some sig \<and> length sig = 64 \<and> ed_key_ok X pk \<and> ed_verify X pk pol sig)"
  by (auto simp: verify_policy_key_def result_simps split: if_splits)

lemma verify_and_pin_keeps:
  "store k = Some pk \<Longrightarrow> snd (verify_and_pin X k' pol pkh sh store) k = Some pk"
  by (auto simp: verify_and_pin_def split: sum.splits option.splits)

lemma verify_and_pin_bounded:
  assumes "finite (dom store)" "card (dom store) \<le> MAX_PINS"
  shows "finite (dom (snd (verify_and_pin X k pol pkh sh store)))
    \<and> card (dom (snd (verify_and_pin X k pol pkh sh store))) \<le> MAX_PINS"
  using assms by (auto simp: verify_and_pin_def card_insert_if split: sum.splits option.splits)

lemma pin_run_keeps: "store k = Some pk \<Longrightarrow> pin_run X rs store k = Some pk"
  by (induction X rs store rule: pin_run.induct) (simp_all add: verify_and_pin_keeps)

lemma pin_run_bounded:
  "finite (dom store) \<Longrightarrow> card (dom store) \<le> MAX_PINS \<Longrightarrow> card (dom (pin_run X rs store)) \<le> MAX_PINS"
  by (induction X rs store rule: pin_run.induct) (simp_all add: verify_and_pin_bounded)

text \<open>
  A verification succeeds exactly when key and signature decode to 32 and 64 bytes, the
  signature verifies over the policy, and the key is the pinned one or the store has room
  for a first pin; the key is then pinned.
\<close>

theorem verify_and_pin_succeeds_iff:
  "fst (verify_and_pin X k pol pkh sh store) = Ok ()
   \<longleftrightarrow> (\<exists>pk. verify_policy_key X pol pkh sh = Ok pk
         \<and> (store k = Some pk \<or> store k = None \<and> card (dom store) < MAX_PINS)
         \<and> snd (verify_and_pin X k pol pkh sh store) = store(k \<mapsto> pk))"
  by (auto simp: verify_and_pin_def map_upd_triv split: sum.splits option.splits)

text \<open>
  C31: Once a policy key is pinned for a blob, no later sequence of requests, for that blob or
  any other, replaces it: a request with another key is refused and so is an unsigned
  policy.  Starting from the empty store there are never more than \<^verbatim>\<open>MAX_PINS\<close> pins.
\<close>

theorem pin_permanent:
  assumes "verify_and_pin X k pol pkh sh store = (Ok (), store1)"
  shows "(\<exists>pk. verify_policy_key X pol pkh sh = Ok pk
      \<and> pin_run X rs store1 k = Some pk
      \<and> require_if_pinned k (pin_run X rs store1) = Err PinnedKeyUnsigned
      \<and> (verify_policy_key X pol' pkh' sh' = Ok pk' \<and> pk' \<noteq> pk \<longrightarrow>
          fst (verify_and_pin X k pol' pkh' sh' (pin_run X rs store1)) = Err PubkeyMismatch))
    \<and> card (dom (pin_run X rs Map.empty)) \<le> MAX_PINS"
proof -
  obtain pk where pk: "verify_policy_key X pol pkh sh = Ok pk" "store1 k = Some pk"
    using assms by (auto simp: verify_and_pin_def split: sum.splits option.splits if_splits)
  then have "pin_run X rs store1 k = Some pk"
    by (simp add: pin_run_keeps)
  moreover have "card (dom (pin_run X rs Map.empty)) \<le> MAX_PINS"
    by (rule pin_run_bounded) simp_all
  ultimately show ?thesis
    using pk(1) by (auto simp: require_if_pinned_def verify_and_pin_def)
qed

text \<open>A concrete instance, with the sample decoder and a verifier that accepts all keys.\<close>

lemma every_other_replicate: "every_other (replicate (2 * n) c) = replicate n c"
  by (induction n) simp_all

lemma sample_key:
  "verify_policy_key sample_ext pol (replicate 64 c) (replicate 128 d) = Ok (replicate 32 c)"
  using every_other_replicate [of 32 c] every_other_replicate [of 64 d]
  by (simp add: verify_policy_key_def sample_ext_def)

lemma pin_permanent_witness:
  "fst (verify_and_pin sample_ext ''a/okx'' ''other'' (replicate 64 CHR ''2'') (replicate 128 CHR ''0'')
     (pin_run sample_ext [] [''a/okx'' \<mapsto> replicate 32 CHR ''1''])) = Err PubkeyMismatch"
proof -
  have pinned: "verify_and_pin sample_ext ''a/okx'' ''policy'' (replicate 64 CHR ''1'') (replicate 128 CHR ''0'') Map.empty
    = (Ok (), [''a/okx'' \<mapsto> replicate 32 CHR ''1''])"
    by (simp add: verify_and_pin_def sample_key MAX_PINS_def)
  have other: "verify_policy_key sample_ext ''other'' (replicate 64 CHR ''2'') (replicate 128 CHR ''0'')
    = Ok (replicate 32 CHR ''2'')"
    by (rule sample_key)
  have distinct: "replicate 32 CHR ''2'' \<noteq> replicate 32 CHR ''1''"
    by (simp add: replicate_eq_replicate)
  show ?thesis
    using pin_permanent [OF pinned, of "[]" "''other''" "replicate 64 CHR ''2''" "replicate 128 CHR ''0''" "replicate 32 CHR ''2''"]
      other distinct sample_key [of "''policy''" "CHR ''1''" "CHR ''0''"] by simp
qed

end
