(* ===== verification/Float64.thy ===== *)
theory Float64
  imports Prelude "HOL-Library.Log_Nat"
begin

text \<open>
  The rounding of \<^verbatim>\<open>f64\<close> arithmetic: an operation gives the exact result rounded to the nearest number with a
  significand of 53 bits, ties to even.  The exponent is unbounded, so overflow, subnormal numbers and
  the signed zeros are not modelled.  The lemmas bound the relative error and say which naturals are exact.
\<close>

text \<open>The binary exponent of a positive number, from the bit lengths of its numerator and denominator.\<close>

definition f64_exponent :: "rat \<Rightarrow> int" where
  "f64_exponent x =
     (case quotient_of x of (p, q) \<Rightarrow>
        let k = bitlen p - bitlen q in if 2 powi k \<le> x then k else k - 1)"

definition round_half_even :: "rat \<Rightarrow> int" where
  "round_half_even y =
     (let n = \<lfloor>y\<rfloor>; d = y - of_int n in if d < 1 / 2 \<or> d = 1 / 2 \<and> even n then n else n + 1)"

definition f64 :: "rat \<Rightarrow> rat" where
  "f64 x = (if x = 0 then 0 else let ulp = 2 powi (f64_exponent \<bar>x\<bar> - 52) in of_int (round_half_even (x / ulp)) * ulp)"

lemma bitlen_powi:
  assumes "0 < (p :: int)"
  shows "2 powi (bitlen p - 1) \<le> (of_int p :: rat)" "(of_int p :: rat) < 2 powi bitlen p"
proof -
  have bounds: "2 ^ nat (bitlen p - 1) \<le> p" "p < 2 ^ nat (bitlen p)"
    using bitlen_bounds [OF assms] by simp_all
  then have len: "0 < bitlen p"
    using assms by (cases "0 < bitlen p") simp_all
  have "(of_int (2 ^ nat (bitlen p - 1)) :: rat) \<le> of_int p" "(of_int p :: rat) < of_int (2 ^ nat (bitlen p))"
    using bounds by (simp_all only: of_int_le_iff of_int_less_iff)
  then show "2 powi (bitlen p - 1) \<le> (of_int p :: rat)" "(of_int p :: rat) < 2 powi bitlen p"
    using len by (simp_all add: power_int_def)
qed

lemma f64_exponent_bounds:
  assumes "0 < x"
  shows "2 powi f64_exponent x \<le> x" "x < 2 powi (f64_exponent x + 1)"
proof -
  obtain p q where pq: "quotient_of x = (p, q)"
    by fastforce
  have q: "0 < q" and x: "x = of_int p / of_int q"
    using quotient_of_denom_pos [OF pq] quotient_of_div [OF pq] .
  have p: "0 < p"
    using assms q by (simp add: x zero_less_divide_iff)
  note bp = bitlen_powi [OF p] and bq = bitlen_powi [OF q]
  have "2 powi (bitlen p - 1) / 2 powi bitlen q \<le> x"
    unfolding x using bp bq q p by (intro frac_le) simp_all
  then have low: "2 powi (bitlen p - bitlen q - 1) \<le> x"
    by (simp add: power_int_diff [symmetric] algebra_simps)
  have "x < 2 powi bitlen p / 2 powi (bitlen q - 1)"
    unfolding x using bp bq q p by (intro frac_less) simp_all
  then have high: "x < 2 powi (bitlen p - bitlen q + 1)"
    by (simp add: power_int_diff [symmetric] algebra_simps)
  show "2 powi f64_exponent x \<le> x" "x < 2 powi (f64_exponent x + 1)"
    using low high by (auto simp: f64_exponent_def pq Let_def)
qed

lemma round_half_even_error: "\<bar>of_int (round_half_even y) - y\<bar> \<le> 1 / 2"
  using floor_correct [of y] by (auto simp: round_half_even_def Let_def)

lemma round_half_even_int [simp]: "round_half_even (of_int n) = n"
  by (simp add: round_half_even_def)

text \<open>The relative error of one operation is at most \<^verbatim>\<open>2^-53\<close>.\<close>

lemma f64_error: "\<bar>f64 x - x\<bar> \<le> \<bar>x\<bar> / 2 ^ 53"
proof (cases "x = 0")
  case False
  define u :: rat where "u = 2 powi (f64_exponent \<bar>x\<bar> - 52)"
  have u: "0 < u" "u * 2 ^ 52 \<le> \<bar>x\<bar>"
    using f64_exponent_bounds(1) [of "\<bar>x\<bar>"] False by (simp_all add: u_def power_int_diff)
  have "f64 x - x = (of_int (round_half_even (x / u)) - x / u) * u"
    using False u(1) by (simp add: f64_def u_def [symmetric] left_diff_distrib)
  then have "\<bar>f64 x - x\<bar> \<le> 1 / 2 * u"
    using mult_right_mono [OF round_half_even_error [of "x / u"]] u(1) by (simp add: abs_mult)
  then show ?thesis
    using u(2) by simp
qed (simp add: f64_def)

lemma f64_le: "0 \<le> x \<Longrightarrow> f64 x \<le> x * (1 + 1 / 2 ^ 53)"
  using abs_le_D1 [OF f64_error, of x] by (simp add: field_simps)

lemma f64_nonneg [simp]: "0 \<le> x \<Longrightarrow> 0 \<le> f64 x"
  using abs_le_D2 [OF f64_error, of x] by (simp add: field_simps)

lemma f64_zero [simp]: "f64 0 = 0"
  by (simp add: f64_def)

lemma f64_exact:
  assumes "n < 2 ^ 53"
  shows "f64 (of_nat n) = of_nat n"
proof (cases "n = 0")
  case False
  define e where "e = f64_exponent (of_nat n)"
  have "2 powi e \<le> (of_nat n :: rat)"
    using f64_exponent_bounds(1) [of "of_nat n"] False by (simp add: e_def)
  also have "\<dots> < of_nat (2 ^ 53)"
    using assms by (simp only: of_nat_less_iff)
  also have "\<dots> = (2 :: rat) powi 53"
    by simp
  finally have "2 powi e < (2 :: rat) powi 53" .
  moreover have "(2 :: rat) powi 53 \<le> 2 powi e" if "53 \<le> e"
    using that by (rule power_int_increasing) simp_all
  ultimately have "e < 53"
    by (meson linorder_not_less)
  then obtain j where j: "e - 52 = - int j"
    by (intro that [of "nat (52 - e)"]) simp
  have "2 powi (e - 52) = 1 / (2 :: rat) ^ j"
    unfolding j by (simp add: power_int_minus divide_inverse)
  moreover have "round_half_even (of_nat n * 2 ^ j) = int n * 2 ^ j"
    using round_half_even_int [of "int n * 2 ^ j"] by simp
  ultimately show ?thesis
    using False by (simp add: f64_def e_def [symmetric])
qed simp

end
