(* ===== verification/Rate_Limiter.thy ===== *)
theory Rate_Limiter
  imports Float64
begin

text \<open>
  \<^verbatim>\<open>enclave/src/rate_limiter.rs\<close>: a token bucket per tenant, FIFO eviction of
  buckets and a ghost cache that remembers evicted ones.  The clock is a
  natural number of nanoseconds.  The token counts are rationals, rounded as \<^verbatim>\<open>f64\<close>
  after every operation.  The lemmas keep maps and queues in
  step, bound all four, show that a ghost entry is never shadowed by a stale
  queue entry of its own key, and bound the number of requests granted to a
  tenant by the burst capacity plus the refill and the rounding errors.
\<close>

section \<open>State and operations\<close>

definition MAX_TRACKED_KEYS :: nat where
  "MAX_TRACKED_KEYS = 10000"

definition DEFAULT_CAPACITY :: nat where
  "DEFAULT_CAPACITY = 100"

definition DEFAULT_RATE_PER_SEC :: nat where
  "DEFAULT_RATE_PER_SEC = 100"

record bucket =
  bk_tokens :: rat
  bk_last_refill :: nat

record limiter =
  rl_capacity :: rat
  rl_rate :: rat
  rl_buckets :: "bytes \<rightharpoonup> bucket"
  rl_order :: "bytes list"
  rl_ghost :: "bytes \<rightharpoonup> bucket"
  rl_ghost_order :: "bytes list"

definition limiter_new :: "nat \<Rightarrow> nat \<Rightarrow> limiter" where
  "limiter_new capacity rate_per_sec =
     \<lparr>rl_capacity = of_nat capacity, rl_rate = of_nat rate_per_sec, rl_buckets = Map.empty, rl_order = [],
      rl_ghost = Map.empty, rl_ghost_order = []\<rparr>"

text \<open>The pruning loop in front of a push onto the ghost queue.\<close>

fun ghost_prune :: "bytes list \<Rightarrow> (bytes \<rightharpoonup> bucket) \<Rightarrow> bytes list \<times> (bytes \<rightharpoonup> bucket)" where
  "ghost_prune [] g = ([], g)"
| "ghost_prune (stale # order) g =
     (if length (stale # order) \<ge> MAX_TRACKED_KEYS then ghost_prune order (g(stale := None))
      else (stale # order, g))"

text \<open>Eviction of the oldest bucket into the ghost cache.\<close>

definition rl_evict :: "limiter \<Rightarrow> limiter" where
  "rl_evict l =
     (if card (dom (rl_buckets l)) \<ge> MAX_TRACKED_KEYS then
        (case rl_order l of
           [] \<Rightarrow> l
         | oldest # rest \<Rightarrow>
             (case rl_buckets l oldest of
                None \<Rightarrow> l\<lparr>rl_order := rest\<rparr>
              | Some evicted \<Rightarrow>
                  (let (gorder, g) = ghost_prune (rl_ghost_order l) (rl_ghost l)
                   in l\<lparr>rl_order := rest, rl_buckets := (rl_buckets l)(oldest := None),
                        rl_ghost := g(oldest \<mapsto> evicted), rl_ghost_order := gorder @ [oldest]\<rparr>)))
      else l)"

text \<open>Insertion of a bucket for an untracked key: restored from the ghost cache or full.\<close>

definition rl_insert :: "bytes \<Rightarrow> nat \<Rightarrow> limiter \<Rightarrow> limiter" where
  "rl_insert key now l =
     (let b = (case rl_ghost l key of Some b \<Rightarrow> b | None \<Rightarrow> \<lparr>bk_tokens = rl_capacity l, bk_last_refill = now\<rparr>)
      in l\<lparr>rl_ghost := (rl_ghost l)(key := None), rl_order := rl_order l @ [key],
           rl_buckets := (rl_buckets l)(key \<mapsto> b)\<rparr>)"

text \<open>
  \<^verbatim>\<open>Duration::as_secs_f64\<close> adds the seconds and the nanoseconds over a billion, each as \<^verbatim>\<open>f64\<close>.  A duration since a
  later instant is zero.
\<close>

definition as_secs_f64 :: "nat \<Rightarrow> rat" where
  "as_secs_f64 ns = f64 (f64 (of_nat (ns div 1000000000)) + f64 (of_nat (ns mod 1000000000) / 1000000000))"

definition refill :: "limiter \<Rightarrow> nat \<Rightarrow> bucket \<Rightarrow> rat" where
  "refill l now b = min (rl_capacity l)
     (f64 (bk_tokens b + f64 (as_secs_f64 (now - bk_last_refill b) * rl_rate l)))"

definition rl_spend :: "bytes \<Rightarrow> nat \<Rightarrow> limiter \<Rightarrow> bool \<times> limiter" where
  "rl_spend key now l =
     (case rl_buckets l key of
        None \<Rightarrow> (False, l)
      | Some b \<Rightarrow>
          (let tokens = refill l now b in
           if tokens \<ge> 1
           then (True, l\<lparr>rl_buckets := (rl_buckets l)(key \<mapsto> \<lparr>bk_tokens = f64 (tokens - 1), bk_last_refill = now\<rparr>)\<rparr>)
           else (False, l\<lparr>rl_buckets := (rl_buckets l)(key \<mapsto> \<lparr>bk_tokens = tokens, bk_last_refill = now\<rparr>)\<rparr>)))"

definition rl_track :: "bytes \<Rightarrow> nat \<Rightarrow> limiter \<Rightarrow> limiter" where
  "rl_track key now l = (if rl_buckets l key = None then rl_insert key now (rl_evict l) else l)"

definition rl_check :: "bytes \<Rightarrow> nat \<Rightarrow> limiter \<Rightarrow> bool \<times> limiter" where
  "rl_check key now l = rl_spend key now (rl_track key now l)"

fun rl_run :: "(bytes \<times> nat) list \<Rightarrow> limiter \<Rightarrow> bool list \<times> limiter" where
  "rl_run [] l = ([], l)"
| "rl_run ((k, t) # rs) l =
     (let (b, l') = rl_check k t l; (bs, l'') = rl_run rs l' in (b # bs, l''))"


section \<open>Invariant\<close>

text \<open>
  A restored key leaves its entry in the ghost queue behind.  \<open>stale_first\<close> says
  that such an entry reaches the front of the ghost queue no later than its key
  reaches the front of the eviction queue.
\<close>

definition stale_first :: "bytes list \<Rightarrow> bytes list \<Rightarrow> bool" where
  "stale_first order gorder \<longleftrightarrow> (\<forall>i < length order. \<forall>j < length gorder.
     order ! i = gorder ! j \<longrightarrow> MAX_TRACKED_KEYS - length gorder + j \<le> i)"

definition rl_inv :: "limiter \<Rightarrow> bool" where
  "rl_inv l \<longleftrightarrow>
     dom (rl_buckets l) = set (rl_order l) \<and> distinct (rl_order l) \<and> length (rl_order l) \<le> MAX_TRACKED_KEYS
   \<and> dom (rl_ghost l) \<subseteq> set (rl_ghost_order l) \<and> distinct (rl_ghost_order l)
   \<and> length (rl_ghost_order l) \<le> MAX_TRACKED_KEYS
   \<and> dom (rl_ghost l) \<inter> dom (rl_buckets l) = {}
   \<and> (rl_ghost_order l \<noteq> [] \<longrightarrow> length (rl_order l) = MAX_TRACKED_KEYS)
   \<and> stale_first (rl_order l) (rl_ghost_order l)"

lemma MAX_TRACKED_KEYS_pos [simp]: "0 < MAX_TRACKED_KEYS" "MAX_TRACKED_KEYS \<noteq> 0"
  by (simp_all add: MAX_TRACKED_KEYS_def)

lemma rl_inv_new [simp]: "rl_inv (limiter_new c r)"
  by (simp add: rl_inv_def limiter_new_def stale_first_def)

lemma ghost_prune_full:
  "length order \<le> MAX_TRACKED_KEYS \<Longrightarrow>
   ghost_prune order g = (if length order < MAX_TRACKED_KEYS then (order, g) else (tl order, g(hd order := None)))"
proof (cases order)
  case (Cons x xs)
  moreover assume "length order \<le> MAX_TRACKED_KEYS"
  ultimately show ?thesis
    by (cases xs) auto
qed simp

lemma rl_inv_spend: "rl_inv l \<Longrightarrow> rl_inv (snd (rl_spend k now l))"
  by (auto simp: rl_spend_def rl_inv_def Let_def insert_absorb dom_def split: option.splits)


abbreviation pruned :: "bytes list \<Rightarrow> bytes list" where
  "pruned gorder \<equiv> if length gorder < MAX_TRACKED_KEYS then gorder else tl gorder"

lemma stale_first_evict:
  assumes "stale_first (x # rest) gorder" "length (x # rest) = MAX_TRACKED_KEYS" "distinct (x # rest)"
    and "length gorder \<le> MAX_TRACKED_KEYS"
  shows "x \<notin> set (pruned gorder)" "stale_first (rest @ [k]) (pruned gorder @ [x])"
proof -
  let ?d = "if length gorder < MAX_TRACKED_KEYS then 0 else 1 :: nat"
  have nth: "pruned gorder ! j = gorder ! (j + ?d)" if "j < length (pruned gorder)" for j
    using that by (auto simp: nth_tl)
  have len: "length (pruned gorder) = length gorder - ?d" "?d \<le> length gorder"
    using MAX_TRACKED_KEYS_pos by (auto simp: not_less Suc_le_eq)
  have old: "MAX_TRACKED_KEYS - length gorder + (j + ?d) \<le> i"
    if "i < MAX_TRACKED_KEYS" "j < length (pruned gorder)" "(x # rest) ! i = pruned gorder ! j" for i j
  proof -
    have "j + ?d < length gorder" using that(2) len by auto
    then show ?thesis
      using assms(1,2) that nth [OF that(2)] unfolding stale_first_def by auto
  qed
  show "x \<notin> set (pruned gorder)"
  proof
    assume "x \<in> set (pruned gorder)"
    then obtain j where "j < length (pruned gorder)" "pruned gorder ! j = x"
      by (metis in_set_conv_nth)
    then have "MAX_TRACKED_KEYS - length gorder + (j + ?d) \<le> 0"
      by (intro old) (simp_all only: nth_Cons_0 MAX_TRACKED_KEYS_pos)
    moreover have "?d = 0 \<Longrightarrow> length gorder < MAX_TRACKED_KEYS"
      by (simp split: if_splits)
    ultimately show False
      by linarith
  qed
  show "stale_first (rest @ [k]) (pruned gorder @ [x])"
    unfolding stale_first_def
  proof (intro allI impI)
    fix i j
    assume i: "i < length (rest @ [k])" and j: "j < length (pruned gorder @ [x])"
      and eq: "(rest @ [k]) ! i = (pruned gorder @ [x]) ! j"
    show "MAX_TRACKED_KEYS - length (pruned gorder @ [x]) + j \<le> i"
    proof (cases "i = length rest")
      case True
      then show ?thesis using j assms(2,4) by auto
    next
      case False
      then have i': "Suc i < MAX_TRACKED_KEYS" "(x # rest) ! Suc i = (pruned gorder @ [x]) ! j"
        using i eq assms(2) by (auto simp: nth_append)
      have "x \<noteq> (x # rest) ! Suc i"
        using assms(2,3) i' False i by (auto simp: in_set_conv_nth)
      then have j': "j < length (pruned gorder)"
        using j i'(2) by (cases "j = length (pruned gorder)") (auto simp: nth_append)
      then have "MAX_TRACKED_KEYS - length gorder + (j + ?d) \<le> Suc i"
        using old [of "Suc i" j] i' by (simp add: nth_append)
      then show ?thesis
        using len assms(4) by (auto split: if_splits)
    qed
  qed
qed

lemma rl_evict_full:
  assumes "rl_inv l" "length (rl_order l) = MAX_TRACKED_KEYS" "rl_order l = x # rest"
  obtains b g where "rl_buckets l x = Some b"
    "rl_evict l = l\<lparr>rl_order := rest, rl_buckets := (rl_buckets l)(x := None),
       rl_ghost := g(x \<mapsto> b), rl_ghost_order := pruned (rl_ghost_order l) @ [x]\<rparr>"
    "dom g = dom (rl_ghost l) \<inter> set (pruned (rl_ghost_order l))" "g \<subseteq>\<^sub>m rl_ghost l"
proof -
  have inv: "dom (rl_buckets l) = set (rl_order l)" "distinct (rl_order l)"
    "dom (rl_ghost l) \<subseteq> set (rl_ghost_order l)" "distinct (rl_ghost_order l)" "length (rl_ghost_order l) \<le> MAX_TRACKED_KEYS"
    using assms(1) by (auto simp: rl_inv_def)
  obtain b where b: "rl_buckets l x = Some b"
    using inv(1) assms(3) by (metis domD list.set_intros(1))
  have full: "card (dom (rl_buckets l)) \<ge> MAX_TRACKED_KEYS"
    using inv assms(2) by (simp add: distinct_card)
  define g where "g = snd (ghost_prune (rl_ghost_order l) (rl_ghost l))"
  have prune: "ghost_prune (rl_ghost_order l) (rl_ghost l) = (pruned (rl_ghost_order l), g)"
    using ghost_prune_full [OF inv(5)] by (simp add: g_def)
  have "dom g = dom (rl_ghost l) \<inter> set (pruned (rl_ghost_order l)) \<and> g \<subseteq>\<^sub>m rl_ghost l"
    using inv(3,4) unfolding g_def ghost_prune_full [OF inv(5)]
    by (cases "rl_ghost_order l") (auto simp: map_le_def)
  then show thesis
    using that [OF b] full assms(3) b prune by (simp add: rl_evict_def)
qed


lemma rl_evict_room:
  assumes "rl_inv l" "length (rl_order l) < MAX_TRACKED_KEYS"
  shows "rl_evict l = l" "rl_ghost_order l = []" "rl_ghost l = Map.empty"
  using assms by (auto simp: rl_evict_def rl_inv_def distinct_card)

lemma rl_insert_inv:
  assumes "dom (rl_buckets l) = set (rl_order l)" "distinct (rl_order l)" "length (rl_order l) < MAX_TRACKED_KEYS"
    and "dom (rl_ghost l) \<subseteq> set (rl_ghost_order l)" "distinct (rl_ghost_order l)"
    and "length (rl_ghost_order l) \<le> MAX_TRACKED_KEYS" "dom (rl_ghost l) \<inter> dom (rl_buckets l) = {}"
    and "rl_ghost_order l = [] \<or> Suc (length (rl_order l)) = MAX_TRACKED_KEYS"
    and "stale_first (rl_order l @ [k]) (rl_ghost_order l)" "k \<notin> set (rl_order l)"
  shows "rl_inv (rl_insert k now l)"
  using assms by (auto simp: rl_inv_def rl_insert_def Let_def)

lemma rl_inv_track:
  assumes "rl_inv l"
  shows "rl_inv (rl_track k now l)"
proof (cases "rl_buckets l k = None")
  case False
  then show ?thesis using assms by (auto simp: rl_track_def)
next
  case True
  then have k: "k \<notin> set (rl_order l)"
    using assms by (auto simp: rl_inv_def domIff)
  show ?thesis
  proof (cases "length (rl_order l) < MAX_TRACKED_KEYS")
    case room: True
    have "rl_inv (rl_insert k now l)"
      by (rule rl_insert_inv) (use assms rl_evict_room [OF assms room] k room in \<open>auto simp: rl_inv_def stale_first_def\<close>)
    then show ?thesis
      using True rl_evict_room [OF assms room] by (simp add: rl_track_def)
  next
    case False
    then have full: "length (rl_order l) = MAX_TRACKED_KEYS"
      using assms by (auto simp: rl_inv_def)
    then obtain x rest where order: "rl_order l = x # rest"
      by (cases "rl_order l") auto
    obtain b g where ev: "rl_buckets l x = Some b"
      "rl_evict l = l\<lparr>rl_order := rest, rl_buckets := (rl_buckets l)(x := None),
         rl_ghost := g(x \<mapsto> b), rl_ghost_order := pruned (rl_ghost_order l) @ [x]\<rparr>"
      "dom g = dom (rl_ghost l) \<inter> set (pruned (rl_ghost_order l))" "g \<subseteq>\<^sub>m rl_ghost l"
      using rl_evict_full [OF assms full order] .
    have inv: "dom (rl_buckets l) = set (x # rest)" "distinct (x # rest)" "distinct (rl_ghost_order l)"
      "length (rl_ghost_order l) \<le> MAX_TRACKED_KEYS" "dom (rl_ghost l) \<inter> dom (rl_buckets l) = {}"
      "stale_first (x # rest) (rl_ghost_order l)"
      using assms order by (auto simp: rl_inv_def)
    note stale = stale_first_evict [OF inv(6) full [unfolded order] inv(2,4)]
    have plen: "length (pruned (rl_ghost_order l)) < MAX_TRACKED_KEYS"
      using inv(4) by (auto simp: less_Suc_eq_le)
    have "rl_inv (rl_insert k now (rl_evict l))"
    proof (rule rl_insert_inv)
      show "distinct (rl_ghost_order (rl_evict l))"
        using stale(1) inv(3) ev(2) by (auto simp: distinct_tl)
      show "dom (rl_ghost (rl_evict l)) \<inter> dom (rl_buckets (rl_evict l)) = {}"
        using inv(1,2,5) ev(2,3) by auto
      show "stale_first (rl_order (rl_evict l) @ [k]) (rl_ghost_order (rl_evict l))"
        using stale(2) ev(2) by simp
    qed (use inv ev(2,3) full order k plen in \<open>auto simp: Suc_le_eq\<close>)
    then show ?thesis
      using True by (simp add: rl_track_def)
  qed
qed

lemma rl_inv_check: "rl_inv l \<Longrightarrow> rl_inv (snd (rl_check k now l))"
  by (simp add: rl_check_def rl_inv_spend rl_inv_track)

lemma rl_run_inv: "rl_inv l \<Longrightarrow> rl_inv (snd (rl_run rs l))"
proof (induction rs arbitrary: l)
  case (Cons r rs)
  then show ?case
    using rl_inv_check [of l "fst r" "snd r"]
    by (cases r) (auto simp: Let_def split: prod.splits, metis snd_conv)
qed simp


section \<open>How much a tenant is granted\<close>

text \<open>
  The bucket the limiter holds for a key, live or ghost; a request after which
  a bucket held before is gone; and a run without such a request.
\<close>

definition bucket_of :: "bytes \<Rightarrow> limiter \<Rightarrow> bucket option" where
  "bucket_of k l = (case rl_buckets l k of Some b \<Rightarrow> Some b | None \<Rightarrow> rl_ghost l k)"

definition forgets :: "bytes \<Rightarrow> bytes \<Rightarrow> limiter \<Rightarrow> bool" where
  "forgets k key l \<longleftrightarrow> bucket_of k l \<noteq> None
     \<and> bucket_of k (if rl_buckets l key = None then rl_evict l else l) = None"

fun never_forgets :: "bytes \<Rightarrow> (bytes \<times> nat) list \<Rightarrow> limiter \<Rightarrow> bool" where
  "never_forgets k [] l = True"
| "never_forgets k ((key, t) # rs) l = (\<not> forgets k key l \<and> never_forgets k rs (snd (rl_check key t l)))"

definition granted :: "bytes \<Rightarrow> (bytes \<times> nat) list \<Rightarrow> bool list \<Rightarrow> nat" where
  "granted k rs bs = length (filter (\<lambda>((key, t), b). key = k \<and> b) (zip rs bs))"

definition asked :: "bytes \<Rightarrow> (bytes \<times> nat) list \<Rightarrow> nat" where
  "asked k rs = length (filter (\<lambda>r. fst r = k) rs)"

text \<open>
  The tokens a request would find (\<open>budget\<close>), and those it would find if arithmetic were exact (\<open>credit\<close>).
\<close>

definition bucket_for :: "bytes \<Rightarrow> nat \<Rightarrow> limiter \<Rightarrow> bucket" where
  "bucket_for k now l =
     (case bucket_of k l of None \<Rightarrow> \<lparr>bk_tokens = rl_capacity l, bk_last_refill = now\<rparr> | Some b \<Rightarrow> b)"

definition budget :: "bytes \<Rightarrow> nat \<Rightarrow> limiter \<Rightarrow> rat" where
  "budget k now l = refill l now (bucket_for k now l)"

definition credit :: "bytes \<Rightarrow> nat \<Rightarrow> limiter \<Rightarrow> rat" where
  "credit k now l = (let b = bucket_for k now l in
     min (rl_capacity l) (bk_tokens b + of_nat (now - bk_last_refill b) / 1000000000 * rl_rate l))"

definition refilled_by :: "bytes \<Rightarrow> nat \<Rightarrow> limiter \<Rightarrow> bool" where
  "refilled_by k now l \<longleftrightarrow> (\<forall>b. bucket_of k l = Some b \<longrightarrow> bk_last_refill b \<le> now \<and> 0 \<le> bk_tokens b)"

lemma as_secs_f64_le: "as_secs_f64 ns \<le> of_nat ns / 1000000000 * (1 + 1 / 2 ^ 53) ^ 2" and as_secs_f64_nonneg: "0 \<le> as_secs_f64 ns"
proof -
  define s n :: rat where "s = of_nat (ns div 1000000000)" and "n = of_nat (ns mod 1000000000) / 1000000000"
  have "of_nat ns = (of_nat (ns div 1000000000 * 1000000000 + ns mod 1000000000) :: rat)"
    by simp
  then have ns: "of_nat ns / 1000000000 = s + n"
    by (simp only: of_nat_add of_nat_mult) (simp add: s_def n_def field_simps)
  have pos: "0 \<le> s" "0 \<le> n"
    by (simp_all add: s_def n_def)
  have "f64 s + f64 n \<le> (s + n) * (1 + 1 / 2 ^ 53)"
    using f64_le [OF pos(1)] f64_le [OF pos(2)] by (simp add: algebra_simps)
  then have "f64 (f64 s + f64 n) \<le> (s + n) * (1 + 1 / 2 ^ 53) * (1 + 1 / 2 ^ 53)"
    using f64_le [of "f64 s + f64 n"] pos by (simp add: field_simps)
  then show "as_secs_f64 ns \<le> of_nat ns / 1000000000 * (1 + 1 / 2 ^ 53) ^ 2"
    unfolding ns as_secs_f64_def s_def [symmetric] n_def [symmetric] power2_eq_square by (simp only: mult.assoc)
  show "0 \<le> as_secs_f64 ns"
    using pos by (simp add: as_secs_f64_def s_def n_def)
qed

text \<open>Rounding adds at most five parts in \<open>2 ^ 53\<close> of the capacity to a refill.\<close>

lemma budget_le_credit:
  assumes "refilled_by k now l" "0 \<le> rl_rate l" "0 \<le> rl_capacity l"
  shows "budget k now l \<le> credit k now l + rl_capacity l * 5 / 2 ^ 53" "0 \<le> budget k now l"
proof -
  let ?b = "bucket_for k now l" and ?e = "1 + 1 / 2 ^ 53 :: rat"
  let ?t = "bk_tokens ?b" and ?ns = "now - bk_last_refill ?b" and ?r = "rl_rate l" and ?c = "rl_capacity l"
  define S where "S = ?t + of_nat ?ns / 1000000000 * ?r"
  have t: "0 \<le> ?t"
    using assms(1,3) by (auto simp: bucket_for_def refilled_by_def split: option.split)
  have secs: "0 \<le> as_secs_f64 ?ns * ?r"
    using as_secs_f64_nonneg assms(2) by simp
  have "f64 (as_secs_f64 ?ns * ?r) \<le> of_nat ?ns / 1000000000 * ?e ^ 2 * ?r * ?e"
    using order_trans [OF f64_le [OF secs] mult_right_mono [OF mult_right_mono [OF as_secs_f64_le assms(2)]]] by simp
  moreover have "?t \<le> ?t * ?e ^ 3"
    using t by (simp add: mult_le_cancel_left1)
  ultimately have "?t + f64 (as_secs_f64 ?ns * ?r) \<le> S * ?e ^ 3"
    unfolding S_def by (simp only: distrib_right) (simp add: power3_eq_cube power2_eq_square algebra_simps)
  then have "(?t + f64 (as_secs_f64 ?ns * ?r)) * ?e \<le> S * ?e ^ 3 * ?e"
    by (rule mult_right_mono) simp
  then have "f64 (?t + f64 (as_secs_f64 ?ns * ?r)) \<le> S * (?e ^ 3 * ?e)"
    using f64_le [of "?t + f64 (as_secs_f64 ?ns * ?r)"] t secs by simp
  moreover have S: "0 \<le> S"
    using t assms(2) by (simp add: S_def)
  then have "S * (?e ^ 3 * ?e) \<le> S * (1 + 5 / 2 ^ 53)"
    by (intro mult_left_mono) (simp_all add: power3_eq_cube)
  ultimately have refill: "budget k now l \<le> min ?c (S + S * 5 / 2 ^ 53)"
    by (simp add: budget_def refill_def algebra_simps)
  have "min ?c (S + S * 5 / 2 ^ 53) \<le> min ?c S + ?c * 5 / 2 ^ 53"
    using S assms(3) by (cases "S \<le> ?c") (simp_all add: min_def field_simps)
  then show "budget k now l \<le> credit k now l + ?c * 5 / 2 ^ 53"
    unfolding credit_def Let_def S_def [symmetric] using order_trans [OF refill] by blast
  show "0 \<le> budget k now l"
    using t secs assms(3) by (simp add: budget_def refill_def)
qed

lemma rl_config [simp]:
  "rl_capacity (rl_evict l) = rl_capacity l" "rl_rate (rl_evict l) = rl_rate l"
  "rl_capacity (rl_track k t l) = rl_capacity l" "rl_rate (rl_track k t l) = rl_rate l"
  "rl_capacity (snd (rl_check k t l)) = rl_capacity l" "rl_rate (snd (rl_check k t l)) = rl_rate l"
proof -
  show ev: "rl_capacity (rl_evict l) = rl_capacity l" "rl_rate (rl_evict l) = rl_rate l" for l
    by (simp_all add: rl_evict_def Let_def split: list.splits option.splits prod.splits)
  show tr: "rl_capacity (rl_track k t l) = rl_capacity l" "rl_rate (rl_track k t l) = rl_rate l"
    by (simp_all add: rl_track_def rl_insert_def Let_def ev)
  show "rl_capacity (snd (rl_check k t l)) = rl_capacity l" "rl_rate (snd (rl_check k t l)) = rl_rate l"
    by (simp_all add: rl_check_def rl_spend_def Let_def tr split: option.splits)
qed

lemma evict_bucket_of:
  assumes "rl_inv l" "bucket_of k (rl_evict l) = Some b"
  shows "bucket_of k l = Some b"
proof (cases "length (rl_order l) < MAX_TRACKED_KEYS")
  case True
  then show ?thesis using assms rl_evict_room by simp
next
  case False
  then have full: "length (rl_order l) = MAX_TRACKED_KEYS"
    using assms(1) by (auto simp: rl_inv_def)
  then obtain x rest where order: "rl_order l = x # rest"
    by (cases "rl_order l") auto
  obtain b' g where ev: "rl_buckets l x = Some b'"
    "rl_evict l = l\<lparr>rl_order := rest, rl_buckets := (rl_buckets l)(x := None),
       rl_ghost := g(x \<mapsto> b'), rl_ghost_order := pruned (rl_ghost_order l) @ [x]\<rparr>"
    "g \<subseteq>\<^sub>m rl_ghost l"
    using rl_evict_full [OF assms(1) full order] by metis
  then show ?thesis
    using assms(2) by (auto simp: bucket_of_def map_le_def dom_def split: option.splits if_splits)
qed

lemma kept_bucket_of:
  assumes "rl_inv l" "\<not> forgets k key l"
  shows "bucket_of k (if rl_buckets l key = None then rl_evict l else l) = bucket_of k l"
  using assms evict_bucket_of [OF assms(1), of k]
  by (cases "bucket_of k (rl_evict l)") (auto simp: forgets_def)

lemma track_bucket_of:
  assumes "rl_inv l" "\<not> forgets k key l"
  shows "bucket_of k (rl_track key now l) =
    (if k = key \<and> bucket_of k l = None then Some \<lparr>bk_tokens = rl_capacity l, bk_last_refill = now\<rparr> else bucket_of k l)"
proof (cases "rl_buckets l key")
  case None
  then have eq: "bucket_of k (rl_evict l) = bucket_of k l"
    using kept_bucket_of [OF assms] by simp
  have "rl_buckets (rl_evict l) key = None"
    using None by (auto simp: rl_evict_def Let_def split: list.splits option.splits prod.splits)
  then show ?thesis
    using None eq by (auto simp: rl_track_def rl_insert_def bucket_of_def Let_def split: option.splits)
next
  case (Some b)
  then show ?thesis
    by (auto simp: rl_track_def bucket_of_def)
qed

lemma track_tracked: "rl_buckets (rl_track key now l) key \<noteq> None"
  by (auto simp: rl_track_def rl_insert_def Let_def)

lemma check_other:
  assumes "rl_inv l" "\<not> forgets k key l" "k \<noteq> key"
  shows "bucket_of k (snd (rl_check key now l)) = bucket_of k l"
  using track_bucket_of [OF assms(1,2), of now] assms(3)
  by (auto simp: rl_check_def rl_spend_def bucket_of_def Let_def split: option.splits if_splits)

lemma check_same:
  assumes "rl_inv l" "\<not> forgets k k l" "rl_check k now l = (b, l')"
  shows "bucket_of k l' = Some \<lparr>bk_tokens = (if b then f64 (budget k now l - 1) else budget k now l), bk_last_refill = now\<rparr>"
    "b \<longleftrightarrow> 1 \<le> budget k now l"
proof -
  obtain bk where bk: "rl_buckets (rl_track k now l) k = Some bk"
    using track_tracked by blast
  then have "bucket_of k (rl_track k now l) = Some bk"
    by (simp add: bucket_of_def)
  then have "refill (rl_track k now l) now bk = budget k now l"
    using track_bucket_of [OF assms(1,2), of now]
    by (auto simp: budget_def bucket_for_def refill_def split: if_splits option.splits)
  then show "bucket_of k l' = Some \<lparr>bk_tokens = (if b then f64 (budget k now l - 1) else budget k now l), bk_last_refill = now\<rparr>"
    "b \<longleftrightarrow> 1 \<le> budget k now l"
    using assms(3) bk by (auto simp: rl_check_def rl_spend_def Let_def bucket_of_def split: if_splits)
qed

lemma credit_grows:
  assumes "refilled_by k t l" "t \<le> t'" "0 \<le> rl_rate l"
  shows "credit k t' l \<le> credit k t l + of_nat (t' - t) / 1000000000 * rl_rate l"
proof (cases "bucket_of k l")
  case None
  then show ?thesis using assms(3) by (simp add: credit_def bucket_for_def)
next
  case (Some b)
  then have "t' - bk_last_refill b = (t - bk_last_refill b) + (t' - t)"
    using assms(1,2) by (auto simp: refilled_by_def)
  then have "of_nat (t' - bk_last_refill b) / 1000000000 * rl_rate l
    = of_nat (t - bk_last_refill b) / 1000000000 * rl_rate l + of_nat (t' - t) / 1000000000 * rl_rate l"
    by (simp add: field_simps)
  moreover have "0 \<le> of_nat (t' - t) / 1000000000 * rl_rate l"
    using assms(3) by simp
  ultimately show ?thesis
    unfolding credit_def bucket_for_def Some option.case Let_def by linarith
qed


lemma granted_simps [simp]:
  "granted k [] bs = 0"
  "granted k ((key, t) # rs) (b # bs) = (if key = k \<and> b then 1 else 0) + granted k rs bs"
  by (simp_all add: granted_def)

lemma asked_simps [simp]: "asked k [] = 0" "asked k ((key, t) # rs) = (if key = k then 1 else 0) + asked k rs"
  by (simp_all add: asked_def)

definition rl_end :: "nat \<Rightarrow> (bytes \<times> nat) list \<Rightarrow> nat" where
  "rl_end t0 rs = last (t0 # map snd rs)"

lemma rl_end_simps [simp]: "rl_end t0 [] = t0" "rl_end t0 ((k, t) # rs) = rl_end t rs"
  by (simp_all add: rl_end_def)

lemma rl_end_ge: "sorted (t0 # map snd rs) \<Longrightarrow> t0 \<le> rl_end t0 rs"
  by (induction rs arbitrary: t0) (auto, force)

text \<open>The rounding errors of one request of the tenant: five of the refill and one of the subtraction.\<close>

abbreviation slack :: "limiter \<Rightarrow> rat" where
  "slack l \<equiv> rl_capacity l * 6 / 2 ^ 53"

lemma check_credit:
  assumes "rl_inv l" "\<not> forgets k key l" "refilled_by k t l" "rl_check key t l = (b, l')"
    and "0 \<le> rl_rate l" "0 \<le> rl_capacity l"
  shows "credit k t l' + (if key = k \<and> b then 1 else 0) \<le> credit k t l + (if key = k then slack l else 0)"
    "refilled_by k t l'"
proof -
  have l': "l' = snd (rl_check key t l)" using assms(4) by simp
  have "credit k t l' + (if key = k \<and> b then 1 else 0) \<le> credit k t l + (if key = k then slack l else 0) \<and> refilled_by k t l'"
  proof (cases "key = k")
    case True
    let ?t = "if b then f64 (budget k t l - 1) else budget k t l"
    have same: "bucket_of k l' = Some \<lparr>bk_tokens = ?t, bk_last_refill = t\<rparr>" "b \<longleftrightarrow> 1 \<le> budget k t l"
      using check_same [of l k t b l'] assms(1,2,4) True by simp_all
    note le = budget_le_credit [OF assms(3,5,6)]
    have cap: "budget k t l \<le> rl_capacity l"
      by (simp add: budget_def refill_def)
    have t: "0 \<le> ?t" "?t + (if b then 1 else 0) \<le> budget k t l + rl_capacity l / 2 ^ 53"
      using f64_le [of "budget k t l - 1"] same(2) le(2) cap assms(6) by (auto simp: field_simps)
    have "credit k t l' \<le> ?t"
      by (simp add: credit_def bucket_for_def same(1))
    then show ?thesis
      using t le(1) same(1) True by (simp add: refilled_by_def)
  next
    case False
    then have same: "bucket_of k l' = bucket_of k l"
      using check_other [OF assms(1,2)] l' by simp
    then show ?thesis
      using False assms(3) by (simp add: credit_def bucket_for_def refilled_by_def l' split: option.splits)
  qed
  then show "credit k t l' + (if key = k \<and> b then 1 else 0) \<le> credit k t l + (if key = k then slack l else 0)"
    "refilled_by k t l'"
    by auto
qed

lemma granted_credit:
  assumes "rl_inv l" "\<not> forgets k k l" "refilled_by k t l" "rl_check k t l = (True, l')" "0 \<le> rl_rate l" "0 \<le> rl_capacity l"
  shows "1 \<le> credit k t l + slack l"
  using check_same(2) [OF assms(1,2,4)] budget_le_credit(1) [OF assms(3,5,6)] assms(6) by simp

lemma run_granted:
  "rl_inv l \<Longrightarrow> never_forgets k rs l \<Longrightarrow> sorted (t0 # map snd rs) \<Longrightarrow> refilled_by k t0 l \<Longrightarrow> 0 \<le> rl_rate l \<Longrightarrow>
   0 \<le> rl_capacity l \<Longrightarrow> rl_run rs l = (bs, l') \<Longrightarrow> granted k rs bs > 0 \<Longrightarrow>
   of_nat (granted k rs bs)
     \<le> credit k t0 l + of_nat (rl_end t0 rs - t0) / 1000000000 * rl_rate l + of_nat (asked k rs) * slack l"
proof (induction rs arbitrary: l t0 bs)
  case (Cons r rs)
  obtain key t where r: "r = (key, t)" by fastforce
  obtain b l1 bs1 where step: "rl_check key t l = (b, l1)" "rl_run rs l1 = (bs1, l')" "bs = b # bs1"
    using Cons.prems(7) by (auto simp: r Let_def split: prod.splits)
  have t: "t0 \<le> t" "sorted (t # map snd rs)" and nf: "\<not> forgets k key l" "never_forgets k rs l1"
    using Cons.prems(2,3) step(1) by (auto simp: r)
  have refd: "refilled_by k t l"
    using Cons.prems(4) t(1) by (auto simp: refilled_by_def dest: order_trans)
  note after = check_credit [OF Cons.prems(1) nf(1) refd step(1) Cons.prems(5,6)]
  have l1: "rl_inv l1" "rl_rate l1 = rl_rate l" "rl_capacity l1 = rl_capacity l"
    using rl_inv_check [OF Cons.prems(1), of key t] rl_config(5,6) [of key t l] step(1) by auto
  let ?r = "rl_rate l" and ?ns = "1000000000 :: rat"
  have span: "of_nat (rl_end t0 (r # rs) - t0) / ?ns * ?r
    = of_nat (t - t0) / ?ns * ?r + of_nat (rl_end t rs - t) / ?ns * ?r"
    using rl_end_ge [OF t(2)] t(1) by (simp add: r field_simps of_nat_diff)
  have asked: "of_nat (asked k (r # rs)) * slack l = (if key = k then slack l else 0) + of_nat (asked k rs) * slack l"
    by (simp add: r field_simps)
  have grow: "credit k t l \<le> credit k t0 l + of_nat (t - t0) / ?ns * ?r"
    using credit_grows [OF Cons.prems(4) t(1) Cons.prems(5)] .
  have nonneg: "0 \<le> of_nat (rl_end t rs - t) / ?ns * ?r" "0 \<le> of_nat (asked k rs) * slack l"
    using Cons.prems(5,6) by simp_all
  show ?case
  proof (cases "granted k rs bs1 > 0")
    case True
    then have "of_nat (granted k rs bs1) \<le> credit k t l1 + of_nat (rl_end t rs - t) / ?ns * ?r + of_nat (asked k rs) * slack l"
      using Cons.IH [OF l1(1) nf(2) t(2) after(2) _ _ step(2)] l1(2,3) Cons.prems(5,6) by simp
    moreover have "rat_of_nat (granted k (r # rs) bs) = (if key = k \<and> b then 1 else 0) + of_nat (granted k rs bs1)"
      by (simp add: r step(3))
    ultimately show ?thesis
      unfolding span asked using after(1) grow by linarith
  next
    case False
    then have now: "key = k" "b" "granted k (r # rs) bs = 1"
      using Cons.prems(8) step(3) by (auto simp: r split: if_splits)
    have "1 \<le> credit k t l + slack l"
      using granted_credit [OF Cons.prems(1) _ refd _ Cons.prems(5,6)] nf(1) step(1) now by simp
    moreover have "rat_of_nat (granted k (r # rs) bs) = 1" "(if key = k then slack l else 0) = slack l"
      using now by simp_all
    ultimately show ?thesis
      unfolding span asked using grow nonneg by linarith
  qed
qed simp


lemma spend_dom: "dom (rl_buckets (snd (rl_spend k t l))) = dom (rl_buckets l)"
  by (auto simp: rl_spend_def Let_def split: option.splits)

lemma insert_dom: "dom (rl_buckets (rl_insert k t l)) = insert k (dom (rl_buckets l))"
  by (simp add: rl_insert_def Let_def)

lemma few_keys_never_forgets:
  assumes "finite K" "card K \<le> MAX_TRACKED_KEYS"
  shows "rl_inv l \<Longrightarrow> dom (rl_buckets l) \<subseteq> K \<Longrightarrow> fst ` set rs \<subseteq> K \<Longrightarrow> never_forgets k rs l"
proof (induction rs arbitrary: l)
  case (Cons r rs)
  obtain key t where r: "r = (key, t)" by fastforce
  have room: "rl_evict l = l" if "rl_buckets l key = None"
  proof -
    have "key \<in> K - dom (rl_buckets l)"
      using that Cons.prems(3) by (simp add: r domIff)
    then have "dom (rl_buckets l) \<subset> K"
      using Cons.prems(2) by blast
    then have "card (dom (rl_buckets l)) < MAX_TRACKED_KEYS"
      using psubset_card_mono [OF assms(1)] assms(2) by (meson less_le_trans)
    then show ?thesis by (simp add: rl_evict_def)
  qed
  then have "dom (rl_buckets (snd (rl_check key t l))) \<subseteq> insert key (dom (rl_buckets l))"
    by (auto simp: rl_check_def spend_dom rl_track_def insert_dom)
  then have "never_forgets k rs (snd (rl_check key t l))"
    using Cons.prems(2,3) by (intro Cons.IH rl_inv_check Cons.prems(1)) (auto simp: r)
  moreover have "\<not> forgets k key l"
    using room by (auto simp: forgets_def split: if_splits)
  ultimately show ?case
    by (simp add: r)
qed simp

text \<open>
  After any sequence of requests the limiter tracks at most \<^verbatim>\<open>MAX_TRACKED_KEYS\<close> live buckets
  and as many ghost entries, its queues hold each key once, no key is live and ghost at
  once, and an entry left behind in the ghost queue by a restored key is discarded before
  that key can be evicted again, so it never takes a live ghost entry with it.
\<close>

theorem limiter_bounded:
  fixes rs c r
  defines "l \<equiv> snd (rl_run rs (limiter_new c r))"
  shows "card (dom (rl_buckets l)) \<le> MAX_TRACKED_KEYS \<and> dom (rl_buckets l) = set (rl_order l) \<and> distinct (rl_order l)
    \<and> dom (rl_ghost l) \<subseteq> set (rl_ghost_order l) \<and> length (rl_ghost_order l) \<le> MAX_TRACKED_KEYS
    \<and> distinct (rl_ghost_order l) \<and> dom (rl_ghost l) \<inter> dom (rl_buckets l) = {}
    \<and> stale_first (rl_order l) (rl_ghost_order l)"
proof -
  have inv: "rl_inv l"
    unfolding l_def by (rule rl_run_inv [OF rl_inv_new])
  then have "card (dom (rl_buckets l)) = length (rl_order l)"
    by (simp add: rl_inv_def distinct_card)
  with inv show ?thesis
    unfolding rl_inv_def by simp blast
qed

text \<open>
  C32: Over any run of requests, in clock order, in which the limiter does not lose the tenant's
  bucket (it cannot, with at most \<^verbatim>\<open>MAX_TRACKED_KEYS\<close> tenants), the requests granted to one
  tenant number at most the burst capacity plus the refill rate times the elapsed seconds, up to the rounding of the
  \<^verbatim>\<open>f64\<close> token counts, which adds at most \<open>6 / 2 ^ 53\<close> of the capacity per request the tenant made.  This holds
  whatever the other tenants do and whether or not its bucket was evicted and restored.
\<close>

theorem granted_bounded:
  assumes "rl_run rs (limiter_new c r) = (bs, l)" "sorted (t0 # map snd rs)"
    and "card (fst ` set rs) \<le> MAX_TRACKED_KEYS \<or> never_forgets k rs (limiter_new c r)"
  shows "rat_of_nat (granted k rs bs)
    \<le> of_nat c + of_nat (rl_end t0 rs - t0) / 1000000000 * of_nat r + of_nat (asked k rs) * of_nat c * 6 / 2 ^ 53"
proof (cases "granted k rs bs > 0")
  case True
  have nf: "never_forgets k rs (limiter_new c r)"
    using assms(3) few_keys_never_forgets [OF _ _ rl_inv_new, of "fst ` set rs"]
    by (auto simp: limiter_new_def)
  have new: "refilled_by k t0 (limiter_new c r)" "credit k t0 (limiter_new c r) = of_nat c"
    "rl_rate (limiter_new c r) = of_nat r" "rl_capacity (limiter_new c r) = of_nat c"
    by (simp_all add: refilled_by_def credit_def bucket_for_def bucket_of_def limiter_new_def)
  show ?thesis
    using run_granted [OF rl_inv_new nf assms(2) new(1) _ _ assms(1) True] new(2-4) by (simp add: mult.commute mult.left_commute)
qed simp

lemma granted_bounded_witness:
  "let rs = [(''a'', 0), (''a'', 0), (''a'', 500000000)] in
   granted ''a'' rs [True, False, True] = 2
   \<and> rat_of_nat 2 \<le> of_nat 1 + of_nat (rl_end 0 rs - 0) / 1000000000 * of_nat 2 + of_nat (asked ''a'' rs) * of_nat 1 * 6 / 2 ^ 53"
proof -
  have f64: "f64 1 = 1" "f64 (1 / 2) = 1 / 2"
    by code_simp+
  have "fst (rl_run [(''a'', 0), (''a'', 0), (''a'', 500000000)] (limiter_new 1 2)) = [True, False, True]"
    by (simp add: limiter_new_def rl_check_def rl_track_def rl_evict_def rl_insert_def rl_spend_def refill_def as_secs_f64_def Let_def
          MAX_TRACKED_KEYS_def f64)
  then obtain l where run: "rl_run [(''a'', 0), (''a'', 0), (''a'', 500000000)] (limiter_new 1 2) = ([True, False, True], l)"
    by (metis prod.collapse)
  have "card (fst ` set [(''a'', 0 :: nat), (''a'', 0), (''a'', 500000000)]) \<le> MAX_TRACKED_KEYS"
    by (simp add: MAX_TRACKED_KEYS_def)
  then show ?thesis
    using granted_bounded [OF run, of 0 "''a''"] by (simp add: granted_def asked_def)
qed

end
