(* ===== verification/Intent_Ledger.thy ===== *)
theory Intent_Ledger
  imports Prelude
begin

text \<open>
  \<^verbatim>\<open>enclave/src/intent_ledger.rs\<close>: the bounded FIFO set of agent intents that
  were already signed for.  The state is the \<^verbatim>\<open>HashSet\<close> and the \<^verbatim>\<open>VecDeque\<close> of
  the code; the lemmas keep the two in step, bound them, refine them to the
  list of the last \<^verbatim>\<open>MAX_TRACKED_NONCES\<close> accepted keys, and give the exact
  length of the window in which a replay is refused.
\<close>

definition MAX_TRACKED_NONCES :: nat where
  "MAX_TRACKED_NONCES = 100000"

record ledger =
  il_seen :: "bytes set"
  il_order :: "bytes list"

definition ledger_new :: ledger where
  "ledger_new = \<lparr>il_seen = {}, il_order = []\<rparr>"

text \<open>The eviction of the oldest key in front of an insertion into a full ledger.\<close>

fun ledger_evict :: "ledger \<Rightarrow> ledger" where
  "ledger_evict st =
     (if card (il_seen st) \<ge> MAX_TRACKED_NONCES then
        (case il_order st of
           [] \<Rightarrow> st
         | oldest # rest \<Rightarrow> st\<lparr>il_seen := il_seen st - {oldest}, il_order := rest\<rparr>)
      else st)"

definition record_if_new :: "bytes \<Rightarrow> ledger \<Rightarrow> bool \<times> ledger" where
  "record_if_new key st =
     (if key \<in> il_seen st then (False, st)
      else let st' = ledger_evict st
           in (True, st'\<lparr>il_seen := insert key (il_seen st'), il_order := il_order st' @ [key]\<rparr>))"

text \<open>A sequence of requests: the answers in order and the ledger left behind.\<close>

fun ledger_run :: "bytes list \<Rightarrow> ledger \<Rightarrow> bool list \<times> ledger" where
  "ledger_run [] st = ([], st)"
| "ledger_run (k # ks) st =
     (let (b, st') = record_if_new k st; (bs, st'') = ledger_run ks st' in (b # bs, st''))"


section \<open>Invariant\<close>

definition ledger_inv :: "ledger \<Rightarrow> bool" where
  "ledger_inv st \<longleftrightarrow>
     il_seen st = set (il_order st) \<and> distinct (il_order st) \<and> length (il_order st) \<le> MAX_TRACKED_NONCES"

lemma MAX_TRACKED_NONCES_pos [simp]: "0 < MAX_TRACKED_NONCES"
  by (simp add: MAX_TRACKED_NONCES_def)

lemma one_minus_MAX [simp]: "Suc 0 - MAX_TRACKED_NONCES = 0"
  by (simp add: MAX_TRACKED_NONCES_def)

lemma ledger_inv_new [simp]: "ledger_inv ledger_new"
  by (simp add: ledger_inv_def ledger_new_def)

text \<open>What one call does to the FIFO list: the refinement target.\<close>

definition window_push :: "bytes \<Rightarrow> bytes list \<Rightarrow> bool \<times> bytes list" where
  "window_push k w =
     (if k \<in> set w then (False, w)
      else (True, drop (length w + 1 - MAX_TRACKED_NONCES) (w @ [k])))"

lemma ledger_evict_order:
  assumes "ledger_inv st"
  shows "il_order (ledger_evict st) = drop (length (il_order st) + 1 - MAX_TRACKED_NONCES) (il_order st)"
    "il_seen (ledger_evict st) = set (il_order (ledger_evict st))"
proof -
  have card: "card (il_seen st) = length (il_order st)" and le: "length (il_order st) \<le> MAX_TRACKED_NONCES"
    using assms by (simp_all add: ledger_inv_def distinct_card)
  show "il_order (ledger_evict st) = drop (length (il_order st) + 1 - MAX_TRACKED_NONCES) (il_order st)"
    using card le by (cases "il_order st") auto
  show "il_seen (ledger_evict st) = set (il_order (ledger_evict st))"
    using assms by (cases "il_order st") (auto simp: ledger_inv_def)
qed

lemma record_if_new_window:
  assumes "ledger_inv st" "record_if_new k st = (b, st')"
  shows "window_push k (il_order st) = (b, il_order st')" "ledger_inv st'"
proof -
  note ev = ledger_evict_order [OF assms(1)]
  have len: "length (il_order st) \<le> MAX_TRACKED_NONCES" and seen: "il_seen st = set (il_order st)"
    and dist: "distinct (il_order st)"
    using assms(1) by (simp_all add: ledger_inv_def)
  show "window_push k (il_order st) = (b, il_order st')"
    using assms(2) len seen ev(1)
    by (auto simp: record_if_new_def window_push_def Let_def split: if_splits)
  show "ledger_inv st'"
  proof (cases "k \<in> il_seen st")
    case True
    then show ?thesis using assms by (simp add: record_if_new_def)
  next
    case False
    then have st': "il_order st' = il_order (ledger_evict st) @ [k]"
      "il_seen st' = insert k (il_seen (ledger_evict st))"
      using assms(2) by (auto simp: record_if_new_def Let_def)
    have "k \<notin> set (il_order (ledger_evict st))"
      using False seen unfolding ev(1) by (metis in_set_dropD)
    moreover have "length (il_order (ledger_evict st)) < MAX_TRACKED_NONCES"
      unfolding ev(1) length_drop using len MAX_TRACKED_NONCES_pos by linarith
    ultimately show ?thesis
      using dist ev by (simp add: ledger_inv_def st' distinct_drop)
  qed
qed


declare ledger_evict.simps [simp del]


section \<open>The replay window\<close>

text \<open>The contract a caller relies on: a key is admitted once, and held from then on.\<close>

locale replay_guard =
  fixes admit :: "'k \<Rightarrow> 's \<Rightarrow> bool \<times> 's"
    and held :: "'s \<Rightarrow> 'k set"
    and good :: "'s \<Rightarrow> bool"
  assumes fresh: "good s \<Longrightarrow> admit k s = (b, s') \<Longrightarrow> b \<longleftrightarrow> k \<notin> held s"
    and holds: "good s \<Longrightarrow> admit k s = (b, s') \<Longrightarrow> k \<in> held s' \<and> good s'"
    and refused_same: "good s \<Longrightarrow> admit k s = (False, s') \<Longrightarrow> s' = s"
begin

lemma immediate_replay_refused:
  assumes "good s" "admit k s = (b, s')"
  shows "admit k s' = (False, s')"
proof -
  obtain b'' s'' where adm: "admit k s' = (b'', s'')" by fastforce
  have "good s'" "k \<in> held s'"
    using holds assms by auto
  then show ?thesis
    using fresh [of s' k b'' s''] refused_same [of s' k s''] adm by (cases b'') auto
qed

end

interpretation ledger: replay_guard record_if_new il_seen ledger_inv
proof unfold_locales
  show "b \<longleftrightarrow> k \<notin> il_seen s" if "record_if_new k s = (b, s')" for s k b s'
    using that by (auto simp: record_if_new_def Let_def split: if_splits)
  show "k \<in> il_seen s' \<and> ledger_inv s'" if "ledger_inv s" "record_if_new k s = (b, s')" for s k b s'
    using that record_if_new_window(2) [OF that]
    by (auto simp: record_if_new_def Let_def split: if_splits)
  show "s' = s" if "record_if_new k s = (False, s')" for s k s'
    using that by (auto simp: record_if_new_def Let_def split: if_splits)
qed

lemma ledger_run_inv: "ledger_inv st \<Longrightarrow> ledger_run ks st = (bs, st') \<Longrightarrow> ledger_inv st'"
  by (induction ks st arbitrary: bs rule: ledger_run.induct)
     (auto simp: Let_def dest: ledger.holds split: prod.splits)

lemma window_push_keep:
  assumes "window_push x (pre @ k # post) = (b, w')" "length pre + length post < MAX_TRACKED_NONCES"
    "length post + (if b then 1 else 0) < MAX_TRACKED_NONCES"
  shows "\<exists>pre' post'. w' = pre' @ k # post' \<and> length post' = length post + (if b then 1 else 0)"
proof (cases b)
  case False
  then show ?thesis
    using assms(1) by (auto simp: window_push_def split: if_splits)
next
  case True
  let ?n = "Suc (Suc (length pre + length post)) - MAX_TRACKED_NONCES"
  have "?n \<le> length pre"
    using assms(3) True by simp
  moreover have "w' = drop ?n (pre @ k # post @ [x])"
    using assms(1) True by (auto simp: window_push_def split: if_splits)
  ultimately have "w' = drop ?n pre @ k # (post @ [x])"
    by simp
  then show ?thesis
    using True by (metis length_append_singleton Suc_eq_plus1)
qed

lemma window_push_evict:
  assumes "window_push x (pre @ k # post) = (True, w')" "length pre + length post < MAX_TRACKED_NONCES"
    "distinct (pre @ k # post)" "Suc (length post) \<ge> MAX_TRACKED_NONCES" "x \<noteq> k"
  shows "k \<notin> set w'"
proof -
  have n: "Suc (Suc (length pre + length post)) - MAX_TRACKED_NONCES = Suc (length pre)"
    using assms(2,4) by simp
  have "w' = drop (Suc (length pre)) (pre @ k # post @ [x])"
    using assms(1) by (auto simp: window_push_def n split: if_splits)
  then show ?thesis
    using assms(3,5) by simp
qed

abbreviation accepted :: "bool list \<Rightarrow> nat" where
  "accepted bs \<equiv> length (filter (\<lambda>b. b) bs)"

lemma ledger_run_keeps:
  "ledger_inv st \<Longrightarrow> il_order st = pre @ k # post \<Longrightarrow> ledger_run ks st = (bs, st') \<Longrightarrow>
   length post + accepted bs < MAX_TRACKED_NONCES \<Longrightarrow> k \<in> il_seen st'"
proof (induction ks arbitrary: st pre post bs)
  case Nil
  then show ?case by (auto simp: ledger_inv_def)
next
  case (Cons x xs)
  obtain b st1 bs1 where step: "record_if_new x st = (b, st1)" "ledger_run xs st1 = (bs1, st')" "bs = b # bs1"
    using Cons.prems(3) by (auto simp: Let_def split: prod.splits)
  have win: "window_push x (pre @ k # post) = (b, il_order st1)" and inv1: "ledger_inv st1"
    using record_if_new_window [OF Cons.prems(1) step(1)] Cons.prems(2) by auto
  have "length pre + length post < MAX_TRACKED_NONCES"
    using Cons.prems(1,2) by (simp add: ledger_inv_def)
  then obtain pre' post' where "il_order st1 = pre' @ k # post'" "length post' = length post + (if b then 1 else 0)"
    using window_push_keep [OF win] Cons.prems(4) step(3) by (auto split: if_splits)
  then show ?case
    using Cons.IH [OF inv1 _ step(2)] Cons.prems(4) step(3) by (auto split: if_splits)
qed

lemma recorded_kept:
  assumes "ledger_inv st" "record_if_new k st = (True, st1)" "ledger_run ks st1 = (bs, st')" "accepted bs < MAX_TRACKED_NONCES"
  shows "k \<in> il_seen st'"
proof -
  have "il_order st1 = il_order (ledger_evict st) @ k # []"
    using assms(2) by (auto simp: record_if_new_def Let_def split: if_splits)
  then show ?thesis
    using ledger_run_keeps [OF record_if_new_window(2) [OF assms(1,2)] _ assms(3)] assms(4) by simp
qed

lemma ledger_run_absent:
  "k \<notin> set ks \<Longrightarrow> ledger_inv st \<Longrightarrow> k \<notin> il_seen st \<Longrightarrow> ledger_run ks st = (bs, st') \<Longrightarrow> k \<notin> il_seen st'"
proof (induction ks arbitrary: st bs)
  case (Cons x xs)
  obtain b st1 bs1 where step: "record_if_new x st = (b, st1)" "ledger_run xs st1 = (bs1, st')" "bs = b # bs1"
    using Cons.prems(4) by (auto simp: Let_def split: prod.splits)
  have "il_seen st1 \<subseteq> insert x (il_seen st)"
    using step(1) ledger_evict_order [OF Cons.prems(2)] Cons.prems(2)
    by (auto simp: record_if_new_def Let_def ledger_inv_def dest: in_set_dropD split: if_splits)
  then show ?case
    using Cons.IH [OF _ _ _ step(2)] Cons.prems record_if_new_window(2) [OF Cons.prems(2) step(1)] by auto
qed auto

lemma ledger_run_evicts:
  "ledger_inv st \<Longrightarrow> il_order st = pre @ k # post \<Longrightarrow> ledger_run ks st = (bs, st') \<Longrightarrow> k \<notin> set ks \<Longrightarrow>
   length post + accepted bs \<ge> MAX_TRACKED_NONCES \<Longrightarrow> k \<notin> il_seen st'"
proof (induction ks arbitrary: st pre post bs)
  case Nil
  then show ?case by (auto simp: ledger_inv_def)
next
  case (Cons x xs)
  obtain b st1 bs1 where step: "record_if_new x st = (b, st1)" "ledger_run xs st1 = (bs1, st')" "bs = b # bs1"
    using Cons.prems(3) by (auto simp: Let_def split: prod.splits)
  have win: "window_push x (pre @ k # post) = (b, il_order st1)" and inv1: "ledger_inv st1"
    using record_if_new_window [OF Cons.prems(1) step(1)] Cons.prems(2) by auto
  have small: "length pre + length post < MAX_TRACKED_NONCES" "distinct (pre @ k # post)"
    using Cons.prems(1,2) by (simp_all add: ledger_inv_def)
  show ?case
  proof (cases "length post + (if b then 1 else 0) < MAX_TRACKED_NONCES")
    case True
    then obtain pre' post' where "il_order st1 = pre' @ k # post'" "length post' = length post + (if b then 1 else 0)"
      using window_push_keep [OF win small(1)] by auto
    then show ?thesis
      using Cons.IH [OF inv1 _ step(2)] Cons.prems(4,5) step(3) by (auto split: if_splits)
  next
    case False
    then have "b" using small(1) by (auto split: if_splits)
    then have "k \<notin> set (il_order st1)"
      using window_push_evict [of x pre k post] win small False Cons.prems(4) by auto
    then show ?thesis
      using ledger_run_absent [OF _ inv1 _ step(2)] Cons.prems(4) inv1 by (auto simp: ledger_inv_def)
  qed
qed


section \<open>Properties\<close>

fun window_run :: "bytes list \<Rightarrow> bytes list \<Rightarrow> bool list \<times> bytes list" where
  "window_run [] w = ([], w)"
| "window_run (k # ks) w =
     (let (b, w') = window_push k w; (bs, w'') = window_run ks w' in (b # bs, w''))"

lemma ledger_run_refines:
  "ledger_inv st \<Longrightarrow> window_run ks (il_order st) = map_prod id il_order (ledger_run ks st)"
proof (induction ks arbitrary: st)
  case (Cons k ks)
  obtain b st1 where step: "record_if_new k st = (b, st1)" by fastforce
  then show ?case
    using Cons record_if_new_window [OF Cons.prems step] by (simp add: Let_def case_prod_beta)
qed simp

text \<open>
  C22: The replay ledger, whatever sequence of keys it is asked about from start-up, answers
  as the list of the last \<^verbatim>\<open>MAX_TRACKED_NONCES\<close> accepted keys would, and the hash set and the
  eviction queue hold the same keys, each once and never more than the bound.
\<close>

theorem ledger_refines_window:
  "window_run ks [] = map_prod id il_order (ledger_run ks ledger_new)
   \<and> il_seen (snd (ledger_run ks ledger_new)) = set (il_order (snd (ledger_run ks ledger_new)))
   \<and> distinct (il_order (snd (ledger_run ks ledger_new)))
   \<and> card (il_seen (snd (ledger_run ks ledger_new))) \<le> MAX_TRACKED_NONCES"
proof -
  have "ledger_inv (snd (ledger_run ks ledger_new))"
    using ledger_run_inv [OF ledger_inv_new] by (metis prod.collapse)
  then show ?thesis
    using ledger_run_refines [OF ledger_inv_new, of ks]
    by (auto simp: ledger_inv_def distinct_card) (simp add: ledger_new_def)
qed

text \<open>
  C21: An accepted key is refused again for exactly as long as fewer than
  \<^verbatim>\<open>MAX_TRACKED_NONCES\<close> other keys have been accepted since; from the
  \<^verbatim>\<open>MAX_TRACKED_NONCES\<close>-th on it is evicted and would be accepted a second time.
\<close>

theorem replay_window:
  assumes "ledger_inv st" "record_if_new k st = (True, st1)"
    and "ledger_run ks st1 = (bs, st2)" "k \<notin> set ks"
  shows "fst (record_if_new k st2) \<longleftrightarrow> MAX_TRACKED_NONCES \<le> accepted bs"
proof -
  have inv1: "ledger_inv st1"
    using record_if_new_window [OF assms(1,2)] by simp
  obtain pre where "il_order st1 = pre @ k # []"
    using assms(2) by (auto simp: record_if_new_def Let_def split: if_splits)
  then have "k \<in> il_seen st2 \<longleftrightarrow> accepted bs < MAX_TRACKED_NONCES"
    using ledger_run_keeps [OF inv1 _ assms(3)] ledger_run_evicts [OF inv1 _ assms(3,4)]
    by (cases "accepted bs < MAX_TRACKED_NONCES") auto
  moreover have "fst (record_if_new k st2) \<longleftrightarrow> k \<notin> il_seen st2"
    by (simp add: record_if_new_def Let_def)
  ultimately show ?thesis by auto
qed

lemma replay_window_witness:
  "ledger_inv ledger_new \<and> record_if_new ''k'' ledger_new = (True, \<lparr>il_seen = {''k''}, il_order = [''k'']\<rparr>)
   \<and> ledger_run [''x''] \<lparr>il_seen = {''k''}, il_order = [''k'']\<rparr>
       = ([True], \<lparr>il_seen = {''x'', ''k''}, il_order = [''k'', ''x'']\<rparr>)
   \<and> \<not> fst (record_if_new ''k'' \<lparr>il_seen = {''x'', ''k''}, il_order = [''k'', ''x'']\<rparr>)"
proof -
  have 1: "record_if_new ''k'' ledger_new = (True, \<lparr>il_seen = {''k''}, il_order = [''k'']\<rparr>)"
    by (simp add: record_if_new_def ledger_evict.simps ledger_new_def MAX_TRACKED_NONCES_def)
  have 2: "ledger_run [''x''] \<lparr>il_seen = {''k''}, il_order = [''k'']\<rparr>
       = ([True], \<lparr>il_seen = {''x'', ''k''}, il_order = [''k'', ''x'']\<rparr>)"
    by (simp add: record_if_new_def ledger_evict.simps MAX_TRACKED_NONCES_def)
  show ?thesis
    using replay_window [OF ledger_inv_new 1 2] 1 2 by (simp add: MAX_TRACKED_NONCES_def)
qed

end
