(* ===== verification/Eip712.thy ===== *)
theory Eip712
  imports Venue_Sign
begin

text \<open>
  The secp256k1 half of \<^verbatim>\<open>enclave/src/signer.rs\<close>: EIP-712 digests of Hyperliquid,
  Asterdex, x402 (EIP-3009) and Permit2, attested data, and the parsers of keys,
  addresses and amounts.  Keccak, MessagePack and the curve are parameters.

  Shown here: the decimal parser for \<open>uint256\<close> is exact and refuses exactly the
  values that do not fit; with a hash that has no collision among the inputs
  that occur, an x402 or Permit2 digest determines every field that is signed.
\<close>

unbundle bit_operations_syntax

section \<open>Hashing and signing\<close>

definition msgpack_action :: "'x externals_scheme \<Rightarrow> json \<Rightarrow> (anyhow, bytes) result" where
  "msgpack_action X action = ok_or ''msgpack encode failed'' (msgpack X action)"

definition vault_suffix :: "bytes option \<Rightarrow> bytes" where
  "vault_suffix vault = (case vault of None \<Rightarrow> [CHR 0x00] | Some addr \<Rightarrow> CHR 0x01 # addr)"

definition compute_action_hash ::
  "'x externals_scheme \<Rightarrow> json \<Rightarrow> 64 word \<Rightarrow> bytes option \<Rightarrow> (anyhow, bytes) result" where
  "compute_action_hash X action nonce vault =
     try_res (msgpack_action X action) (\<lambda>buf.
       Ok (keccak256 X (buf @ be_bytes 8 (unat nonce) @ vault_suffix vault)))"

definition eip712_type_hash :: "'x externals_scheme \<Rightarrow> bytes \<Rightarrow> bytes" where
  "eip712_type_hash X type_string = keccak256 X type_string"

definition DOMAIN_TYPE :: bytes where
  "DOMAIN_TYPE = ''EIP712Domain(string name,string version,uint256 chainId,address verifyingContract)''"

definition chain_id_word :: "nat \<Rightarrow> nat \<Rightarrow> bytes" where
  "chain_id_word hi lo = replicate 30 (CHR 0x00) @ [char_of hi, char_of lo]"

definition hyperliquid_main_domain_separator :: "'x externals_scheme \<Rightarrow> bytes" where
  "hyperliquid_main_domain_separator X =
     keccak256 X (concat [eip712_type_hash X DOMAIN_TYPE, keccak256 X ''Exchange'', keccak256 X ''1'',
                          chain_id_word 0x05 0x39, replicate 32 (CHR 0x00)])"

definition hyperliquid_agent_struct_hash :: "'x externals_scheme \<Rightarrow> bytes \<Rightarrow> bytes \<Rightarrow> bytes" where
  "hyperliquid_agent_struct_hash X source connection_id =
     keccak256 X (concat [eip712_type_hash X ''Agent(string source,bytes32 connectionId)'',
                          keccak256 X source, connection_id])"

definition eip712_preimage :: "bytes \<Rightarrow> bytes \<Rightarrow> bytes" where
  "eip712_preimage domain_separator struct_hash = CHR 0x19 # CHR 0x01 # domain_separator @ struct_hash"

definition eip712_digest :: "'x externals_scheme \<Rightarrow> bytes \<Rightarrow> bytes \<Rightarrow> bytes" where
  "eip712_digest X domain_separator struct_hash = keccak256 X (eip712_preimage domain_separator struct_hash)"

definition sign_eip712_digest :: "'x externals_scheme \<Rightarrow> bytes \<Rightarrow> bytes \<Rightarrow> (anyhow, hl_signature) result" where
  "sign_eip712_digest X private_key_bytes digest =
     (if \<not> secp_key_ok X private_key_bytes then Err ''invalid secp256k1 private key''
      else try_res (ok_or ''ecdsa sign failed'' (secp_sign X private_key_bytes digest)) (\<lambda>(r, s, recid).
        Ok \<lparr>hs_r = ''0x'' @ hex_encode X r, hs_s = ''0x'' @ hex_encode X s, hs_v = 27 + recid\<rparr>))"

text \<open>The 65-byte form \<^verbatim>\<open>0x || r || s || v\<close> of Asterdex, x402 and Permit2.\<close>

definition unprefixed :: "bytes \<Rightarrow> bytes" where
  "unprefixed s = (case strip_prefix s ''0x'' of Some t \<Rightarrow> t | None \<Rightarrow> s)"

definition flat_signature :: "hl_signature \<Rightarrow> bytes" where
  "flat_signature sig =
     ''0x'' @ unprefixed (hs_r sig) @ unprefixed (hs_s sig)
     @ [hex_digit (unat (hs_v sig) div 16), hex_digit (unat (hs_v sig) mod 16)]"


section \<open>Parsing keys, addresses and amounts\<close>

definition parse_hex_field ::
  "'x externals_scheme \<Rightarrow> nat \<Rightarrow> anyhow \<Rightarrow> anyhow \<Rightarrow> bytes \<Rightarrow> (anyhow, bytes) result" where
  "parse_hex_field X digits bad_length bad_hex s =
     (let stripped = unprefixed s
      in if length stripped \<noteq> digits then Err bad_length else ok_or bad_hex (hex_decode X stripped))"

definition parse_evm_private_key :: "'x externals_scheme \<Rightarrow> bytes \<Rightarrow> (anyhow, bytes) result" where
  "parse_evm_private_key X =
     parse_hex_field X 64 ''private key must be 32 bytes (64 hex chars)'' ''private key is not valid hex''"

definition parse_evm_address :: "'x externals_scheme \<Rightarrow> bytes \<Rightarrow> (anyhow, bytes) result" where
  "parse_evm_address X =
     parse_hex_field X 40 ''address must be 20 bytes (40 hex chars)'' ''address is not valid hex''"

definition parse_bytes32_hex :: "'x externals_scheme \<Rightarrow> bytes \<Rightarrow> (anyhow, bytes) result" where
  "parse_bytes32_hex X =
     parse_hex_field X 64 ''bytes32 must be 32 bytes (64 hex chars)'' ''bytes32 is not valid hex''"

text \<open>One digit of \<^verbatim>\<open>parse_u256_be_decimal\<close>: multiply the accumulator by ten and add, from the last byte.\<close>

fun mul10_add :: "8 word list \<Rightarrow> 16 word \<Rightarrow> 8 word list \<times> 16 word" where
  "mul10_add [] carry = ([], carry)"
| "mul10_add (b # bs) carry =
     (let (bs', carry') = mul10_add bs carry; v = ucast b * 10 + carry'
      in (ucast (v AND 0xff) # bs', drop_bit 8 v))"

fun u256_loop :: "bytes \<Rightarrow> 8 word list \<Rightarrow> (anyhow, 8 word list) result" where
  "u256_loop [] acc = Ok acc"
| "u256_loop (ch # s) acc =
     (let (acc', carry) = mul10_add acc (of_nat (byte ch - 48))
      in if carry \<noteq> 0 then Err ''uint256 value overflows 32 bytes'' else u256_loop s acc')"

definition parse_u256_be_decimal :: "bytes \<Rightarrow> (anyhow, bytes) result" where
  "parse_u256_be_decimal s =
     (let s = trim s
      in if s = [] \<or> \<not> list_all is_ascii_digit s then Err ''uint256 value must be a non-empty decimal string''
         else try_res (u256_loop s (replicate 32 0)) (\<lambda>acc. Ok (map (\<lambda>b. char_of (unat b)) acc)))"

definition derive_address_from_private_key :: "'x externals_scheme \<Rightarrow> bytes \<Rightarrow> (anyhow, bytes) result" where
  "derive_address_from_private_key X private_key_bytes =
     (if \<not> secp_key_ok X private_key_bytes then Err ''invalid secp256k1 private key''
      else let pubkey_bytes = secp_uncompressed X private_key_bytes
           in if length pubkey_bytes \<noteq> 65 \<or> pubkey_bytes ! 0 \<noteq> CHR 0x04
              then Err ''unexpected secp256k1 public key encoding''
              else Ok (drop 12 (keccak256 X (drop 1 pubkey_bytes))))"


section \<open>Attested data\<close>

definition sign_attested_data :: "'x externals_scheme \<Rightarrow> bytes \<Rightarrow> json \<Rightarrow> (anyhow, hl_signature) result" where
  "sign_attested_data X private_key_bytes v =
     try_res (map_err (\<lambda>_. ''canonical-v1'') (canonical_v1 v)) (\<lambda>canonical.
       sign_eip712_digest X private_key_bytes (attested_data_digest_v1 (keccak256 X) canonical))"

definition attested_data_pubkey :: "'x externals_scheme \<Rightarrow> bytes \<Rightarrow> (anyhow, bytes \<times> bytes) result" where
  "attested_data_pubkey X private_key_bytes =
     (if \<not> secp_key_ok X private_key_bytes then Err ''invalid secp256k1 private key''
      else try_res (derive_address_from_private_key X private_key_bytes) (\<lambda>address.
        Ok (''0x'' @ hex_encode X (secp_compressed X private_key_bytes), ''0x'' @ hex_encode X address)))"

text \<open>
  Rejection sampling of a private key from the draws of the system's random
  source, given as a list; \<^const>\<open>None\<close> is the exhausted list.
\<close>

definition generate_secp256k1_private_key :: "'x externals_scheme \<Rightarrow> bytes list \<Rightarrow> bytes option" where
  "generate_secp256k1_private_key X draws = find (secp_key_ok X) draws"


section \<open>Venues\<close>

definition sign_hyperliquid ::
  "'x externals_scheme \<Rightarrow> bytes \<Rightarrow> json \<Rightarrow> 64 word \<Rightarrow> bytes option \<Rightarrow> bytes \<Rightarrow> (anyhow, hl_signature) result" where
  "sign_hyperliquid X private_key_bytes action nonce vault source =
     try_res (compute_action_hash X action nonce vault) (\<lambda>action_hash.
       sign_eip712_digest X private_key_bytes
         (eip712_digest X (hyperliquid_main_domain_separator X) (hyperliquid_agent_struct_hash X source action_hash)))"

definition asterdex_domain_separator :: "'x externals_scheme \<Rightarrow> bytes" where
  "asterdex_domain_separator X =
     keccak256 X (concat [eip712_type_hash X DOMAIN_TYPE, keccak256 X ''AsterSignTransaction'', keccak256 X ''1'',
                          chain_id_word 0x06 0x82, replicate 32 (CHR 0x00)])"

definition asterdex_message_struct_hash :: "'x externals_scheme \<Rightarrow> bytes \<Rightarrow> bytes" where
  "asterdex_message_struct_hash X msg =
     keccak256 X (concat [eip712_type_hash X ''Message(string msg)'', keccak256 X msg])"

definition sign_asterdex :: "'x externals_scheme \<Rightarrow> bytes \<Rightarrow> bytes \<Rightarrow> (anyhow, bytes) result" where
  "sign_asterdex X private_key_bytes msg =
     try_res (sign_eip712_digest X private_key_bytes
                (eip712_digest X (asterdex_domain_separator X) (asterdex_message_struct_hash X msg)))
       (\<lambda>sig. Ok (flat_signature sig))"

definition abi_word_from_address :: "bytes \<Rightarrow> bytes" where
  "abi_word_from_address addr = replicate 12 (CHR 0x00) @ addr"

definition abi_word_from_u64 :: "64 word \<Rightarrow> bytes" where
  "abi_word_from_u64 n = replicate 24 (CHR 0x00) @ be_bytes 8 (unat n)"

definition x402_domain_encoding :: "'x externals_scheme \<Rightarrow> bytes \<Rightarrow> bytes \<Rightarrow> 64 word \<Rightarrow> bytes \<Rightarrow> bytes" where
  "x402_domain_encoding X token_name token_version chain_id token_address =
     concat [eip712_type_hash X DOMAIN_TYPE, keccak256 X token_name, keccak256 X token_version,
             abi_word_from_u64 chain_id, abi_word_from_address token_address]"

definition x402_domain_separator :: "'x externals_scheme \<Rightarrow> bytes \<Rightarrow> bytes \<Rightarrow> 64 word \<Rightarrow> bytes \<Rightarrow> bytes" where
  "x402_domain_separator X token_name token_version chain_id token_address =
     keccak256 X (x402_domain_encoding X token_name token_version chain_id token_address)"

definition TRANSFER_TYPE :: bytes where
  "TRANSFER_TYPE = ''TransferWithAuthorization(address from,address to,uint256 value,uint256 validAfter,'' @
                   ''uint256 validBefore,bytes32 nonce)''"

definition x402_transfer_encoding ::
  "'x externals_scheme \<Rightarrow> bytes \<Rightarrow> bytes \<Rightarrow> bytes \<Rightarrow> 64 word \<Rightarrow> 64 word \<Rightarrow> bytes \<Rightarrow> bytes" where
  "x402_transfer_encoding X from to val valid_after valid_before nonce =
     concat [eip712_type_hash X TRANSFER_TYPE, abi_word_from_address from, abi_word_from_address to, val,
             abi_word_from_u64 valid_after, abi_word_from_u64 valid_before, nonce]"

definition x402_transfer_with_authorization_struct_hash ::
  "'x externals_scheme \<Rightarrow> bytes \<Rightarrow> bytes \<Rightarrow> bytes \<Rightarrow> 64 word \<Rightarrow> 64 word \<Rightarrow> bytes \<Rightarrow> bytes" where
  "x402_transfer_with_authorization_struct_hash X from to val valid_after valid_before nonce =
     keccak256 X (x402_transfer_encoding X from to val valid_after valid_before nonce)"

text \<open>The arguments of \<^verbatim>\<open>sign_x402_eip3009\<close>.\<close>

record x402_fields =
  xf_token_name :: bytes
  xf_token_version :: bytes
  xf_chain_id :: "64 word"
  xf_token_address :: bytes
  xf_from :: bytes
  xf_to :: bytes
  xf_value :: bytes
  xf_valid_after :: "64 word"
  xf_valid_before :: "64 word"
  xf_nonce :: bytes

definition x402_digest :: "'x externals_scheme \<Rightarrow> x402_fields \<Rightarrow> bytes" where
  "x402_digest X f =
     eip712_digest X
       (x402_domain_separator X (xf_token_name f) (xf_token_version f) (xf_chain_id f) (xf_token_address f))
       (x402_transfer_with_authorization_struct_hash X (xf_from f) (xf_to f) (xf_value f) (xf_valid_after f)
          (xf_valid_before f) (xf_nonce f))"

definition sign_x402_eip3009 :: "'x externals_scheme \<Rightarrow> bytes \<Rightarrow> x402_fields \<Rightarrow> (anyhow, bytes) result" where
  "sign_x402_eip3009 X private_key_bytes f =
     try_res (sign_eip712_digest X private_key_bytes (x402_digest X f)) (\<lambda>sig. Ok (flat_signature sig))"

definition permit2_domain_encoding :: "'x externals_scheme \<Rightarrow> 64 word \<Rightarrow> bytes \<Rightarrow> bytes" where
  "permit2_domain_encoding X chain_id verifying_contract =
     concat [eip712_type_hash X ''EIP712Domain(string name,uint256 chainId,address verifyingContract)'',
             keccak256 X ''Permit2'', abi_word_from_u64 chain_id, abi_word_from_address verifying_contract]"

definition permit2_domain_separator :: "'x externals_scheme \<Rightarrow> 64 word \<Rightarrow> bytes \<Rightarrow> bytes" where
  "permit2_domain_separator X chain_id verifying_contract =
     keccak256 X (permit2_domain_encoding X chain_id verifying_contract)"

definition UINT48_MAX :: "64 word" where
  "UINT48_MAX = push_bit 48 1 - 1"

definition PERMIT_DETAILS_TYPE :: bytes where
  "PERMIT_DETAILS_TYPE = ''PermitDetails(address token,uint160 amount,uint48 expiration,uint48 nonce)''"

definition permit2_details_encoding :: "'x externals_scheme \<Rightarrow> bytes \<Rightarrow> bytes \<Rightarrow> 64 word \<Rightarrow> 64 word \<Rightarrow> bytes" where
  "permit2_details_encoding X token amount expiration nonce =
     concat [eip712_type_hash X PERMIT_DETAILS_TYPE, abi_word_from_address token, amount,
             abi_word_from_u64 expiration, abi_word_from_u64 nonce]"

definition permit2_permit_details_struct_hash ::
  "'x externals_scheme \<Rightarrow> bytes \<Rightarrow> bytes \<Rightarrow> 64 word \<Rightarrow> 64 word \<Rightarrow> (anyhow, bytes) result" where
  "permit2_permit_details_struct_hash X token amount expiration nonce =
     (if list_ex (\<lambda>b. b \<noteq> CHR 0x00) (take 12 amount) then Err ''permit2: amount does not fit in uint160''
      else if expiration > UINT48_MAX \<or> nonce > UINT48_MAX
      then Err ''permit2: expiration/nonce do not fit in uint48''
      else Ok (keccak256 X (permit2_details_encoding X token amount expiration nonce)))"

definition permit2_single_encoding :: "'x externals_scheme \<Rightarrow> bytes \<Rightarrow> bytes \<Rightarrow> bytes \<Rightarrow> bytes" where
  "permit2_single_encoding X details_hash spender sig_deadline =
     concat [eip712_type_hash X (''PermitSingle(PermitDetails details,address spender,uint256 sigDeadline)''
                                 @ PERMIT_DETAILS_TYPE),
             details_hash, abi_word_from_address spender, sig_deadline]"

definition permit2_permit_single_struct_hash :: "'x externals_scheme \<Rightarrow> bytes \<Rightarrow> bytes \<Rightarrow> bytes \<Rightarrow> bytes" where
  "permit2_permit_single_struct_hash X details_hash spender sig_deadline =
     keccak256 X (permit2_single_encoding X details_hash spender sig_deadline)"

record permit2_fields =
  pf_chain_id :: "64 word"
  pf_verifying_contract :: bytes
  pf_token :: bytes
  pf_amount :: bytes
  pf_expiration :: "64 word"
  pf_nonce :: "64 word"
  pf_spender :: bytes
  pf_sig_deadline :: bytes

definition permit2_permit_single_digest :: "'x externals_scheme \<Rightarrow> permit2_fields \<Rightarrow> (anyhow, bytes) result" where
  "permit2_permit_single_digest X f =
     try_res (permit2_permit_details_struct_hash X (pf_token f) (pf_amount f) (pf_expiration f) (pf_nonce f))
       (\<lambda>details. Ok (eip712_digest X (permit2_domain_separator X (pf_chain_id f) (pf_verifying_contract f))
                        (permit2_permit_single_struct_hash X details (pf_spender f) (pf_sig_deadline f))))"

definition sign_permit2_permit_single :: "'x externals_scheme \<Rightarrow> bytes \<Rightarrow> permit2_fields \<Rightarrow> (anyhow, bytes) result" where
  "sign_permit2_permit_single X private_key_bytes f =
     try_res (permit2_permit_single_digest X f) (\<lambda>digest.
     try_res (sign_eip712_digest X private_key_bytes digest) (\<lambda>sig. Ok (flat_signature sig)))"


section \<open>The amount parser is exact\<close>

fun be_val :: "8 word list \<Rightarrow> nat" where
  "be_val [] = 0"
| "be_val (b # bs) = unat b * 256 ^ length bs + be_val bs"

lemma unat_byte_step:
  fixes b :: "8 word" and c :: "16 word"
  assumes "unat c \<le> 9"
  defines "v \<equiv> ucast b * 10 + c"
  shows "unat v = unat b * 10 + unat c"
    and "unat (ucast (v AND 0xff) :: 8 word) = unat v mod 256"
    and "unat (drop_bit 8 v) = unat v div 256"
proof -
  have b: "unat b < 256"
    using unsigned_less [of b] by simp
  have "unat (ucast b :: 16 word) = unat b"
    using b by (simp add: unsigned_ucast_eq take_bit_nat_eq_self)
  then show "unat v = unat b * 10 + unat c"
    using b assms(1) unfolding v_def by (simp add: unat_word_ariths)
  show "unat (drop_bit 8 v) = unat v div 256"
    by (simp add: drop_bit_eq_div unat_div)
  have "v AND 0xff = take_bit 8 v"
    by (simp add: take_bit_eq_mask mask_numeral)
  then show "unat (ucast (v AND 0xff) :: 8 word) = unat v mod 256"
    by (simp add: unsigned_ucast_eq take_bit_eq_mod unat_mod)
qed


lemma carry_arith:
  fixes c w b c1 p v1 v carry :: nat
  assumes "c * 256 + w = b * 10 + c1" "c1 * p + v1 = 10 * v + carry"
  shows "c * (256 * p) + (w * p + v1) = 10 * (b * p + v) + carry"
proof -
  have "(c * 256 + w) * p = (b * 10 + c1) * p"
    by (simp only: assms(1))
  then show ?thesis
    using assms(2) by (simp add: algebra_simps)
qed

lemma mul10_add_val:
  assumes "unat carry \<le> 9" "mul10_add bs carry = (bs', c)"
  shows "length bs' = length bs \<and> unat c \<le> 9 \<and> unat c * 256 ^ length bs + be_val bs' = 10 * be_val bs + unat carry"
  using assms(2)
proof (induction bs arbitrary: bs' c)
  case Nil
  then show ?case using assms(1) by simp
next
  case (Cons b bs)
  obtain bs1 c1 where rest: "mul10_add bs carry = (bs1, c1)"
    by (cases "mul10_add bs carry")
  define v where "v = ucast b * 10 + c1"
  have new: "bs' = ucast (v AND 0xff) # bs1" "c = drop_bit 8 v"
    using Cons.prems by (simp_all add: rest v_def Let_def)
  note IH = Cons.IH [OF rest]
  have c1: "unat c1 \<le> 9" using IH by simp
  note step = unat_byte_step [OF c1, of b, folded v_def]
  have b: "unat b < 256"
    using unsigned_less [of b] by simp
  have "unat c * 256 + unat v mod 256 = unat b * 10 + unat c1"
    using step by (simp add: new mult.commute)
  moreover from this have "unat c \<le> 9"
    using b c1 by linarith
  ultimately show ?case
    using IH step carry_arith [of "unat c" "unat v mod 256" "unat b" "unat c1" "256 ^ length bs" "be_val bs1"]
    by (simp add: new)
qed

lemma be_val_bound: "be_val bs < 256 ^ length bs"
proof (induction bs)
  case Nil
  show ?case by simp
next
  case (Cons b bs)
  have "unat b + 1 \<le> 256"
    using unsigned_less [of b, where ?'a = nat] by simp
  then have "(unat b + 1) * 256 ^ length bs \<le> 256 * 256 ^ length bs"
    by (rule mult_le_mono1)
  then have "unat b * 256 ^ length bs + 256 ^ length bs \<le> 256 ^ length (b # bs)"
    by (simp only: add_mult_distrib power_Suc length_Cons mult_1)
  then show ?case
    using Cons unfolding be_val.simps by linarith
qed

lemma dec_val_Cons: "dec_val (c # s) = digit_val c * 10 ^ length s + dec_val s"
  using dec_val_append [of "[c]" s] by (simp add: dec_val_def)

lemma u256_loop_val:
  assumes "list_all is_ascii_digit s"
  shows "case u256_loop s acc of
      Ok r \<Rightarrow> length r = length acc \<and> be_val r = be_val acc * 10 ^ length s + dec_val s
    | Err e \<Rightarrow> e = ''uint256 value overflows 32 bytes'' \<and> 256 ^ length acc \<le> be_val acc * 10 ^ length s + dec_val s"
  using assms
proof (induction s arbitrary: acc)
  case Nil
  show ?case by simp
next
  case (Cons ch s)
  obtain acc1 c where row: "mul10_add acc (of_nat (byte ch - 48)) = (acc1, c)"
    by (cases "mul10_add acc (of_nat (byte ch - 48))")
  have "is_ascii_digit ch" and ds: "list_all is_ascii_digit s"
    using Cons.prems by simp_all
  then have "byte ch - 48 < 10"
    using digit_byte_minus by blast
  then have digit: "unat (of_nat (byte ch - 48) :: 16 word) = digit_val ch" "digit_val ch \<le> 9"
    by (simp_all add: unat_of_nat digit_val_def)
  have val: "length acc1 = length acc" "unat c * 256 ^ length acc + be_val acc1 = 10 * be_val acc + digit_val ch"
    using mul10_add_val [OF _ row] digit by simp_all
  have total: "be_val acc * 10 ^ length (ch # s) + dec_val (ch # s)
      = (unat c * 256 ^ length acc + be_val acc1) * 10 ^ length s + dec_val s"
    unfolding val(2) by (simp add: dec_val_Cons algebra_simps)
  show ?case
  proof (cases "c = 0")
    case True
    then have "be_val acc * 10 ^ length (ch # s) + dec_val (ch # s) = be_val acc1 * 10 ^ length s + dec_val s"
      using total by simp
    moreover have "u256_loop (ch # s) acc = u256_loop s acc1"
      using True row by simp
    ultimately show ?thesis
      using Cons.IH [of acc1] ds val(1) by (simp only:)
  next
    case False
    then have "1 * 256 ^ length acc * 1 \<le> unat c * 256 ^ length acc * 10 ^ length s"
      by (intro mult_le_mono) (simp_all add: unat_gt_0 Suc_le_eq)
    then have "256 ^ length acc \<le> unat c * 256 ^ length acc * 10 ^ length s"
      by (simp only: mult_1 mult_1_right)
    then have "256 ^ length acc \<le> be_val acc * 10 ^ length (ch # s) + dec_val (ch # s)"
      unfolding total add_mult_distrib by (intro trans_le_add1)
    then show ?thesis
      using False row by simp
  qed
qed

lemma be_bytes_snoc: "be_bytes (Suc n) (x * 256 + y) = be_bytes n x @ [char_of y]" if "y < 256"
  using that by (simp add: be_bytes_def)

lemma be_val_snoc: "be_val (bs @ [b]) = be_val bs * 256 + unat b"
  by (induction bs) (simp_all add: algebra_simps)

lemma be_bytes_be_val: "map (\<lambda>b. char_of (unat b)) bs = be_bytes (length bs) (be_val bs)"
proof (induction bs rule: rev_induct)
  case Nil
  show ?case by (simp add: be_bytes_def)
next
  case (snoc b bs)
  have "unat b < 256"
    using unsigned_less [of b, where ?'a = nat] by simp
  then show ?case
    using snoc by (simp add: be_val_snoc be_bytes_snoc)
qed

lemma parse_u256_spec:
  "parse_u256_be_decimal s =
     (if trim s = [] \<or> \<not> list_all is_ascii_digit (trim s) then Err ''uint256 value must be a non-empty decimal string''
      else if dec_val (trim s) < 2 ^ 256 then Ok (be_bytes 32 (dec_val (trim s)))
      else Err ''uint256 value overflows 32 bytes'')"
proof (cases "trim s = [] \<or> \<not> list_all is_ascii_digit (trim s)")
  case True
  then show ?thesis by (simp add: parse_u256_be_decimal_def Let_def)
next
  case False
  have zero: "be_val (replicate n 0) = 0" for n
    by (induction n) simp_all
  have width: "(256::nat) ^ 32 = 2 ^ 256" by simp
  from False have "list_all is_ascii_digit (trim s)" by simp
  note loop = u256_loop_val [OF this, of "replicate 32 0", unfolded zero length_replicate width]
  show ?thesis
  proof (cases "u256_loop (trim s) (replicate 32 0)")
    case (Inl e)
    then show ?thesis
      using False loop by (simp add: parse_u256_be_decimal_def Let_def)
  next
    case (Inr r)
    then have r: "length r = 32" "be_val r = dec_val (trim s)"
      using loop by simp_all
    then have "dec_val (trim s) < 2 ^ 256"
      using be_val_bound [of r] by simp
    then show ?thesis
      using False Inr r by (simp add: parse_u256_be_decimal_def Let_def be_bytes_be_val)
  qed
qed

text \<open>
  C33: \<^verbatim>\<open>parse_u256_be_decimal\<close> is exact on the whole \<open>uint256\<close> range.  A string that is not,
  after trimming, a non-empty run of decimal digits is refused; a decimal number below
  \<open>2\<^sup>256\<close> yields its 32-byte big-endian encoding; every larger number is refused.  The 16-bit
  intermediate products never wrap.
\<close>

theorem parse_u256_exact:
  "parse_u256_be_decimal s =
     (if trim s \<noteq> [] \<and> list_all is_ascii_digit (trim s)
      then (if dec_val (trim s) < 2 ^ 256 then Ok (be_bytes 32 (dec_val (trim s)))
            else Err ''uint256 value overflows 32 bytes'')
      else Err ''uint256 value must be a non-empty decimal string'')"
  by (simp add: parse_u256_spec)


section \<open>A digest determines what is signed\<close>

text \<open>
  What is assumed of the hash: 32-byte values, and no collision among the
  listed inputs.  An encoded structure is a sequence of 32-byte words.
\<close>

definition hash_ok :: "'x externals_scheme \<Rightarrow> bytes list \<Rightarrow> bool" where
  "hash_ok X inputs \<longleftrightarrow>
     (let hashes = map (keccak256 X) (remdups inputs)
      in list_all (\<lambda>h. length h = 32) hashes \<and> distinct hashes)"

definition is_word32 :: "bytes \<Rightarrow> bool" where
  "is_word32 w \<longleftrightarrow> length w = 32"

interpretation word32: self_delimiting "\<lambda>w. w" is_word32
  by unfold_locales (simp add: is_word32_def)

lemma words_cancel:
  assumes "length ws = length vs" "list_all is_word32 ws" "list_all is_word32 vs" "concat ws = concat vs"
  shows "ws = vs"
  using word32.concat_cancel [of ws vs "[]" "[]"] assms by (simp add: list_all_iff)

lemma hash_ok_inj: "hash_ok X ps \<Longrightarrow> a \<in> set ps \<Longrightarrow> b \<in> set ps \<Longrightarrow> keccak256 X a = keccak256 X b \<Longrightarrow> a = b"
  by (simp add: hash_ok_def distinct_map inj_on_def)

lemma hash_ok_word: "hash_ok X ps \<Longrightarrow> a \<in> set ps \<Longrightarrow> is_word32 (keccak256 X a)"
  by (simp add: hash_ok_def is_word32_def list_all_iff)

lemma abi_word_u64_word32 [simp]: "is_word32 (abi_word_from_u64 n)"
  by (simp add: is_word32_def abi_word_from_u64_def)

lemma abi_word_address_word32 [simp]: "length a = 20 \<Longrightarrow> is_word32 (abi_word_from_address a)"
  by (simp add: is_word32_def abi_word_from_address_def)

lemma abi_word_u64_inj [simp]: "abi_word_from_u64 m = abi_word_from_u64 n \<longleftrightarrow> m = n"
proof
  assume "abi_word_from_u64 m = abi_word_from_u64 n"
  then have "be_bytes 8 (unat m) = be_bytes 8 (unat n)"
    by (simp add: abi_word_from_u64_def)
  moreover have "unat w < 256 ^ 8" for w :: "64 word"
    using unsigned_less [of w, where ?'a = nat] by simp
  ultimately show "m = n"
    using be_bytes_inj word_unat_eq_iff by blast
qed simp

lemma abi_word_address_inj [simp]: "abi_word_from_address a = abi_word_from_address b \<longleftrightarrow> a = b"
  by (simp add: abi_word_from_address_def)

text \<open>An EIP-712 digest determines the domain separator and the struct hash.\<close>

lemma eip712_digest_inj:
  assumes "hash_ok X ps" "eip712_preimage d s \<in> set ps" "eip712_preimage d' s' \<in> set ps"
    and "is_word32 d" "is_word32 d'" "eip712_digest X d s = eip712_digest X d' s'"
  shows "d = d' \<and> s = s'"
proof -
  have "eip712_preimage d s = eip712_preimage d' s'"
    using hash_ok_inj [OF assms(1-3)] assms(6) by (simp add: eip712_digest_def)
  then show ?thesis
    using word32.cancel [of d d' s s'] assms(4,5) by (simp add: eip712_preimage_def)
qed

definition x402_wf :: "x402_fields \<Rightarrow> bool" where
  "x402_wf f \<longleftrightarrow> length (xf_token_address f) = 20 \<and> length (xf_from f) = 20 \<and> length (xf_to f) = 20
     \<and> is_word32 (xf_value f) \<and> is_word32 (xf_nonce f)"

definition x402_hashed :: "'x externals_scheme \<Rightarrow> x402_fields \<Rightarrow> bytes list" where
  "x402_hashed X f =
     (let domain = x402_domain_encoding X (xf_token_name f) (xf_token_version f) (xf_chain_id f) (xf_token_address f);
          transfer = x402_transfer_encoding X (xf_from f) (xf_to f) (xf_value f) (xf_valid_after f)
                       (xf_valid_before f) (xf_nonce f)
      in [DOMAIN_TYPE, xf_token_name f, xf_token_version f, domain, TRANSFER_TYPE, transfer,
          eip712_preimage (keccak256 X domain) (keccak256 X transfer)])"

lemma x402_domain_encoding_inj:
  assumes "hash_ok X ps" "{DOMAIN_TYPE, n, v, n', v'} \<subseteq> set ps" "length a = 20" "length a' = 20"
    and "x402_domain_encoding X n v c a = x402_domain_encoding X n' v' c' a'"
  shows "n = n' \<and> v = v' \<and> c = c' \<and> a = a'"
proof -
  have "[keccak256 X DOMAIN_TYPE, keccak256 X n, keccak256 X v, abi_word_from_u64 c, abi_word_from_address a]
      = [keccak256 X DOMAIN_TYPE, keccak256 X n', keccak256 X v', abi_word_from_u64 c', abi_word_from_address a']"
    using assms(2-5) hash_ok_word [OF assms(1)]
    by (intro words_cancel) (simp_all add: x402_domain_encoding_def eip712_type_hash_def)
  then show ?thesis
    using hash_ok_inj [OF assms(1)] assms(2) by simp
qed

lemma x402_transfer_encoding_inj:
  assumes "hash_ok X ps" "TRANSFER_TYPE \<in> set ps" "length fr = 20" "length fr' = 20" "length t = 20" "length t' = 20"
    and "is_word32 v" "is_word32 v'" "is_word32 n" "is_word32 n'"
    and "x402_transfer_encoding X fr t v va vb n = x402_transfer_encoding X fr' t' v' va' vb' n'"
  shows "fr = fr' \<and> t = t' \<and> v = v' \<and> va = va' \<and> vb = vb' \<and> n = n'"
proof -
  have "[keccak256 X TRANSFER_TYPE, abi_word_from_address fr, abi_word_from_address t, v, abi_word_from_u64 va,
        abi_word_from_u64 vb, n]
      = [keccak256 X TRANSFER_TYPE, abi_word_from_address fr', abi_word_from_address t', v', abi_word_from_u64 va',
        abi_word_from_u64 vb', n']"
    using assms(2-11) hash_ok_word [OF assms(1)]
    by (intro words_cancel) (simp_all add: x402_transfer_encoding_def eip712_type_hash_def)
  then show ?thesis
    by simp
qed

text \<open>
  C34: An x402 signature commits to the whole payment.  Two payments that differ in any field
  (token name, version, chain, token contract, payer, payee, amount, validity window or nonce)
  are signed under different digests, for a hash with 32-byte values and no collision among
  the inputs of the two computations.
\<close>

theorem x402_digest_binds:
  assumes "x402_wf f" "x402_wf g" "hash_ok X (x402_hashed X f @ x402_hashed X g)" "f \<noteq> g"
  shows "x402_digest X f \<noteq> x402_digest X g"
proof
  assume "x402_digest X f = x402_digest X g"
  define dom where "dom h = x402_domain_encoding X (xf_token_name h) (xf_token_version h) (xf_chain_id h)
      (xf_token_address h)" for h :: x402_fields
  define tra where "tra h = x402_transfer_encoding X (xf_from h) (xf_to h) (xf_value h) (xf_valid_after h)
      (xf_valid_before h) (xf_nonce h)" for h :: x402_fields
  have digest: "x402_digest X h = eip712_digest X (keccak256 X (dom h)) (keccak256 X (tra h))" for h
    by (simp add: x402_digest_def x402_domain_separator_def x402_transfer_with_authorization_struct_hash_def
        dom_def tra_def)
  have mem: "set (x402_hashed X h) = {DOMAIN_TYPE, xf_token_name h, xf_token_version h, dom h, TRANSFER_TYPE, tra h,
      eip712_preimage (keccak256 X (dom h)) (keccak256 X (tra h))}" for h
    by (simp add: x402_hashed_def dom_def tra_def Let_def)
  define ps where "ps = x402_hashed X f @ x402_hashed X g"
  have mems: "dom h \<in> set ps" "tra h \<in> set ps" "xf_token_name h \<in> set ps" "xf_token_version h \<in> set ps"
      "eip712_preimage (keccak256 X (dom h)) (keccak256 X (tra h)) \<in> set ps" if "h = f \<or> h = g" for h
    using that by (elim disjE; simp add: ps_def mem)+
  have types: "DOMAIN_TYPE \<in> set ps" "TRANSFER_TYPE \<in> set ps"
    by (simp_all add: ps_def mem)
  have hash: "hash_ok X ps"
    using assms(3) by (simp add: ps_def)
  note f = mems [of f, simplified] and g = mems [of g, simplified]
  have "keccak256 X (dom f) = keccak256 X (dom g) \<and> keccak256 X (tra f) = keccak256 X (tra g)"
    using \<open>x402_digest X f = x402_digest X g\<close> unfolding digest
    by (rule eip712_digest_inj [OF hash f(5) g(5) hash_ok_word [OF hash f(1)] hash_ok_word [OF hash g(1)]])
  then have "dom f = dom g" "tra f = tra g"
    using hash_ok_inj [OF hash f(1) g(1)] hash_ok_inj [OF hash f(2) g(2)] by simp_all
  note eqs = this [unfolded dom_def tra_def]
  have sub: "{DOMAIN_TYPE, xf_token_name f, xf_token_version f, xf_token_name g, xf_token_version g} \<subseteq> set ps"
    using types f g by simp
  note wf = assms(1,2) [unfolded x402_wf_def]
  have "xf_token_name f = xf_token_name g \<and> xf_token_version f = xf_token_version g
      \<and> xf_chain_id f = xf_chain_id g \<and> xf_token_address f = xf_token_address g"
    using wf by (intro x402_domain_encoding_inj [OF hash sub _ _ eqs(1)]) simp_all
  moreover have "xf_from f = xf_from g \<and> xf_to f = xf_to g \<and> xf_value f = xf_value g
      \<and> xf_valid_after f = xf_valid_after g \<and> xf_valid_before f = xf_valid_before g \<and> xf_nonce f = xf_nonce g"
    using wf by (intro x402_transfer_encoding_inj [OF hash types(2) _ _ _ _ _ _ _ _ eqs(2)]) simp_all
  ultimately have "f = g"
    by simp
  with assms(4) show False ..
qed


text \<open>A concrete hash for the witnesses: eight bytes from the start, eight from offset 32, and the last 16.\<close>

definition ends_hash :: "bytes \<Rightarrow> bytes" where
  "ends_hash s = fixed_len 8 s @ fixed_len 8 (drop 32 s) @ rev (fixed_len 16 (rev s))"

definition hash_ext :: externals where
  "hash_ext = sample_ext\<lparr>keccak256 := ends_hash\<rparr>"

definition sample_payment :: "char \<Rightarrow> x402_fields" where
  "sample_payment c = \<lparr>xf_token_name = ''USD Coin'', xf_token_version = ''2'', xf_chain_id = 1,
     xf_token_address = replicate 20 (CHR ''t''), xf_from = replicate 20 (CHR ''f''), xf_to = replicate 20 (CHR ''r''),
     xf_value = replicate 31 (CHR 0x00) @ [CHR 0x0A], xf_valid_after = 0, xf_valid_before = 9, xf_nonce = replicate 31 (CHR ''n'') @ [c]\<rparr>"

theorem x402_digest_binds_witness:
  "x402_digest hash_ext (sample_payment (CHR ''1'')) \<noteq> x402_digest hash_ext (sample_payment (CHR ''2''))"
proof (rule x402_digest_binds)
  show "x402_wf (sample_payment (CHR ''1''))" "x402_wf (sample_payment (CHR ''2''))"
    by (simp_all add: x402_wf_def sample_payment_def is_word32_def)
  show "hash_ok hash_ext (x402_hashed hash_ext (sample_payment (CHR ''1'')) @ x402_hashed hash_ext (sample_payment (CHR ''2'')))"
    by code_simp
  show "sample_payment (CHR ''1'') \<noteq> sample_payment (CHR ''2'')"
    by (simp add: sample_payment_def)
qed

end
