(* ===== verification/Receipt.thy ===== *)
theory Receipt
  imports Registry Eip712
begin

text \<open>
  \<^verbatim>\<open>enclave/src/receipt.rs\<close>: signed decision receipts with a per-customer counter, and
  the signed heartbeat that reports the counter.  The process-wide statics
  (resident key, counters, boot id) are the fields of one state record.

  Shown here: the receipts issued to a customer are numbered 0, 1, 2, \<dots> without a
  gap, and the heartbeat reports exactly how many there are; the signed bytes
  determine every field of a receipt; receipts, heartbeats, attested data and
  EIP-712 messages are never signed under the same bytes.
\<close>

section \<open>Model\<close>

definition DECISION_RECEIPT_DOMAIN_V1 :: bytes where
  "DECISION_RECEIPT_DOMAIN_V1 = ''usenami-decision-receipt-v1''"

record receipt_state =
  rc_key :: "bytes option"
  rc_seq :: "bytes \<Rightarrow> 64 word option"
  rc_boot_id :: bytes

definition receipt_state_init :: "bytes \<Rightarrow> receipt_state" where
  "receipt_state_init boot_id = \<lparr>rc_key = None, rc_seq = Map.empty, rc_boot_id = boot_id\<rparr>"

definition install_key :: "bytes \<Rightarrow> receipt_state \<Rightarrow> receipt_state" where
  "install_key pk st = (if rc_key st = Some pk then st else st\<lparr>rc_key := Some pk\<rparr>)"

definition key_resident :: "receipt_state \<Rightarrow> bool" where
  "key_resident st \<longleftrightarrow> rc_key st \<noteq> None"

text \<open>\<^verbatim>\<open>trim_start_matches("0x")\<close>.\<close>

fun trim_start_0x :: "bytes \<Rightarrow> bytes" where
  "trim_start_0x (a # b # s) = (if a = CHR ''0'' \<and> b = CHR ''x'' then trim_start_0x s else a # b # s)"
| "trim_start_0x s = s"

definition public_key_compressed :: "'x externals_scheme \<Rightarrow> receipt_state \<Rightarrow> bytes option" where
  "public_key_compressed X st =
     (case rc_key st of
        None \<Rightarrow> None
      | Some pk \<Rightarrow> (case attested_data_pubkey X pk of
            Err _ \<Rightarrow> None
          | Ok (hex_compressed, _) \<Rightarrow> hex_decode X (trim_start_0x hex_compressed)))"

text \<open>The compact JSON of the typed request fields: serde emits the members in declaration order.\<close>

definition opt_value :: "bytes option \<Rightarrow> json" where
  "opt_value v = (case v of None \<Rightarrow> Null | Some s \<Rightarrow> String s)"

definition u64_value :: "64 word \<Rightarrow> json" where
  "u64_value n = Number (PosInt n)"

definition order_value :: "order_request \<Rightarrow> json" where
  "order_value o' = Object [(''symbol'', String (or_symbol o')), (''side'', String (or_side o')),
     (''qty'', String (or_qty o')), (''ord_type'', String (or_ord_type o')), (''price'', opt_value (or_price o')),
     (''reduce_only'', Bool (or_reduce_only o')), (''client_order_id'', opt_value (or_client_order_id o'))]"

definition cancel_value :: "cancel_request \<Rightarrow> json" where
  "cancel_value c = Object [(''symbol'', String (cr_symbol c)), (''order_id'', String (cr_order_id c))]"

definition x402_value :: "x402_request \<Rightarrow> json" where
  "x402_value x = Object [(''token_name'', String (xr_token_name x)), (''token_version'', String (xr_token_version x)),
     (''chain_id'', u64_value (xr_chain_id x)), (''token_address'', String (xr_token_address x)),
     (''from'', String (xr_from x)), (''to'', String (xr_to x)), (''value'', String (xr_value x)),
     (''valid_after'', u64_value (xr_valid_after x)), (''valid_before'', u64_value (xr_valid_before x)),
     (''nonce'', String (xr_nonce x))]"

definition permit2_value :: "permit2_request \<Rightarrow> json" where
  "permit2_value p = Object [(''chain_id'', u64_value (pr_chain_id p)),
     (''verifying_contract'', String (pr_verifying_contract p)), (''token'', String (pr_token p)),
     (''amount'', String (pr_amount p)), (''expiration'', u64_value (pr_expiration p)),
     (''nonce'', u64_value (pr_nonce p)), (''spender'', String (pr_spender p)),
     (''sig_deadline'', String (pr_sig_deadline p))]"

definition push_str :: "bytes option \<Rightarrow> bytes" where
  "push_str v = (case v of None \<Rightarrow> [] | Some s \<Rightarrow> s)"

definition push_num :: "64 word option \<Rightarrow> bytes" where
  "push_num v = (case v of None \<Rightarrow> [] | Some x \<Rightarrow> show_nat (unat x))"

definition push_json :: "'x enclave_ext_scheme \<Rightarrow> json option \<Rightarrow> bytes" where
  "push_json X v = (case v of None \<Rightarrow> [] | Some j \<Rightarrow> json_print X j)"

definition request_fields :: "'x enclave_ext_scheme \<Rightarrow> sign_request \<Rightarrow> bytes list" where
  "request_fields X req =
     [rq_action req, push_str (rq_method req), push_str (rq_path req), push_str (rq_query req),
      push_str (rq_body req), push_str (rq_op req), push_str (rq_payload req), push_num (rq_timestamp_ms req),
      push_json X (rq_hl_action req), push_num (rq_nonce req), push_str (rq_vault_address req),
      push_json X (map_option order_value (rq_order req)), push_json X (map_option cancel_value (rq_cancel req)),
      push_json X (map_option x402_value (rq_x402 req)), push_json X (map_option permit2_value (rq_permit2 req)),
      push_str (rq_data req)]"

definition request_preimage :: "'x enclave_ext_scheme \<Rightarrow> sign_request \<Rightarrow> bytes" where
  "request_preimage X req = concat (map (len_prefixed 8) (request_fields X req))"

definition request_digest_v1 :: "'x enclave_ext_scheme \<Rightarrow> sign_request \<Rightarrow> bytes" where
  "request_digest_v1 X req = sha256 X (request_preimage X req)"

definition is_receipted_action :: "bytes \<Rightarrow> bool" where
  "is_receipted_action action \<longleftrightarrow> starts_with action ''sign_'' \<and> action \<noteq> ''sign_data'' \<and> action \<noteq> ''sign''"

record pre =
  pre_customer_id :: bytes
  pre_action :: bytes
  pre_request_hash :: bytes
  pre_intent_sig_hash :: bytes
  pre_supplied_ts_ms :: bytes

definition capture :: "'x enclave_ext_scheme \<Rightarrow> resolved_identity \<Rightarrow> sign_request \<Rightarrow> pre" where
  "capture X identity req =
     \<lparr>pre_customer_id = ri_customer_id identity, pre_action = rq_action req,
      pre_request_hash = hex_encode X (request_digest_v1 X req),
      pre_intent_sig_hash = (case rq_intent_signature req of None \<Rightarrow> [] | Some s \<Rightarrow> hex_encode X (sha256 X s)),
      pre_supplied_ts_ms = push_num (rq_timestamp_ms req)\<rparr>"

definition receipt_value :: "decision_receipt \<Rightarrow> json" where
  "receipt_value r = Object [(''v'', String (dr_v r)), (''decision'', String (dr_decision r)),
     (''reason_code'', String (dr_reason_code r)), (''customer_id'', String (dr_customer_id r)),
     (''action'', String (dr_action r)), (''request_hash'', String (dr_request_hash r)),
     (''intent_sig_hash'', String (dr_intent_sig_hash r)), (''policy_hash'', String (dr_policy_hash r)),
     (''supplied_ts_ms'', String (dr_supplied_ts_ms r)), (''boot_id'', String (dr_boot_id r)),
     (''seq'', String (dr_seq r))]"

definition signing_payload :: "decision_receipt \<Rightarrow> (canonical_error, bytes) result" where
  "signing_payload r = canonical_v1 (receipt_value r)"

definition receipt_preimage :: "bytes \<Rightarrow> bytes" where
  "receipt_preimage canonical = DECISION_RECEIPT_DOMAIN_V1 @ canonical"

definition receipt_digest_v1 :: "'x externals_scheme \<Rightarrow> bytes \<Rightarrow> bytes" where
  "receipt_digest_v1 X canonical = keccak256 X (receipt_preimage canonical)"

definition sign_receipt :: "'x externals_scheme \<Rightarrow> bytes \<Rightarrow> decision_receipt \<Rightarrow> hl_signature option" where
  "sign_receipt X pk r =
     (case signing_payload r of
        Err _ \<Rightarrow> None
      | Ok canonical \<Rightarrow> (case sign_eip712_digest X pk (receipt_digest_v1 X canonical) of
            Err _ \<Rightarrow> None | Ok sig \<Rightarrow> Some sig))"

definition empty_signature :: hl_signature where
  "empty_signature = \<lparr>hs_r = [], hs_s = [], hs_v = 0\<rparr>"

definition draft_receipt :: "'x externals_scheme \<Rightarrow> bytes \<Rightarrow> pre \<Rightarrow> sign_response \<Rightarrow> 64 word \<Rightarrow> decision_receipt" where
  "draft_receipt X boot_id p resp candidate =
     \<lparr>dr_v = ''1'',
      dr_decision = (case rs_error resp of None \<Rightarrow> ''allow'' | Some _ \<Rightarrow> ''deny''),
      dr_reason_code = (case rs_error resp of None \<Rightarrow> ''ok'' | Some code \<Rightarrow> code),
      dr_customer_id = pre_customer_id p, dr_action = pre_action p, dr_request_hash = pre_request_hash p,
      dr_intent_sig_hash = pre_intent_sig_hash p,
      dr_policy_hash = (case rs_policy_hash resp of None \<Rightarrow> [] | Some h \<Rightarrow> h),
      dr_supplied_ts_ms = pre_supplied_ts_ms p, dr_boot_id = hex_encode X boot_id,
      dr_seq = show_nat (unat candidate), dr_signature = empty_signature\<rparr>"

definition seq_next_for :: "receipt_state \<Rightarrow> bytes \<Rightarrow> 64 word" where
  "seq_next_for st customer_id = (case rc_seq st customer_id of None \<Rightarrow> 0 | Some n \<Rightarrow> n)"

definition issue_pre ::
  "'x externals_scheme \<Rightarrow> pre \<Rightarrow> sign_response \<Rightarrow> receipt_state \<Rightarrow> decision_receipt option \<times> receipt_state" where
  "issue_pre X p resp st =
     (if \<not> is_receipted_action (pre_action p) then (None, st)
      else case rc_key st of
        None \<Rightarrow> (None, st)
      | Some pk \<Rightarrow>
          (let candidate = seq_next_for st (pre_customer_id p);
               st1 = st\<lparr>rc_seq := (rc_seq st)(pre_customer_id p \<mapsto> candidate)\<rparr>;
               receipt = draft_receipt X (rc_boot_id st) p resp candidate
           in case sign_receipt X pk receipt of
                None \<Rightarrow> (None, st1)
              | Some sig \<Rightarrow> (Some (receipt\<lparr>dr_signature := sig\<rparr>),
                             st1\<lparr>rc_seq := (rc_seq st1)(pre_customer_id p \<mapsto> candidate + 1)\<rparr>)))"

definition attach :: "'x externals_scheme \<Rightarrow> pre \<Rightarrow> sign_response \<Rightarrow> receipt_state \<Rightarrow> sign_response \<times> receipt_state" where
  "attach X p resp st =
     (case issue_pre X p resp st of
        (Some r, st') \<Rightarrow> (resp\<lparr>rs_receipt := Some r\<rparr>, st')
      | (None, st') \<Rightarrow> (resp, st'))"


section \<open>Heartbeat\<close>

definition RECEIPT_HEARTBEAT_DOMAIN_V1 :: bytes where
  "RECEIPT_HEARTBEAT_DOMAIN_V1 = ''usenami-receipt-heartbeat-v1''"

definition MAX_CLIENT_NONCE_LEN :: nat where
  "MAX_CLIENT_NONCE_LEN = 128"

datatype heartbeat_unavailable = NoKey | HeartbeatInternal bytes

definition heartbeat_value :: "receipt_heartbeat \<Rightarrow> json" where
  "heartbeat_value hb = Object [(''v'', String (hb_v hb)), (''boot_id'', String (hb_boot_id hb)),
     (''customer_id'', String (hb_customer_id hb)), (''seq_next'', String (hb_seq_next hb)),
     (''client_nonce'', String (hb_client_nonce hb)), (''registry_version'', String (hb_registry_version hb)),
     (''entry_hash'', String (hb_entry_hash hb))]"

definition heartbeat_signing_payload :: "receipt_heartbeat \<Rightarrow> (canonical_error, bytes) result" where
  "heartbeat_signing_payload hb = canonical_v1 (heartbeat_value hb)"

definition heartbeat_preimage :: "bytes \<Rightarrow> bytes" where
  "heartbeat_preimage canonical = RECEIPT_HEARTBEAT_DOMAIN_V1 @ canonical"

definition heartbeat_digest_v1 :: "'x externals_scheme \<Rightarrow> bytes \<Rightarrow> bytes" where
  "heartbeat_digest_v1 X canonical = keccak256 X (heartbeat_preimage canonical)"

definition issue_heartbeat ::
  "'x externals_scheme \<Rightarrow> registry \<Rightarrow> receipt_state \<Rightarrow> resolved_identity \<Rightarrow> bytes
     \<Rightarrow> (heartbeat_unavailable, receipt_heartbeat) result" where
  "issue_heartbeat X reg st identity client_nonce =
     try_res (ok_or NoKey (rc_key st)) (\<lambda>pk.
     try_res (ok_or (HeartbeatInternal ''entry_not_canonical'') (entry_hash X identity)) (\<lambda>eh.
     let hb = \<lparr>hb_v = ''1'', hb_boot_id = hex_encode X (rc_boot_id st), hb_customer_id = ri_customer_id identity,
               hb_seq_next = show_nat (unat (seq_next_for st (ri_customer_id identity))),
               hb_client_nonce = client_nonce, hb_registry_version = show_nat (unat (current_version reg)),
               hb_entry_hash = eh, hb_signature = empty_signature\<rparr>
     in try_res (map_err (\<lambda>_. HeartbeatInternal ''canonical_failed'') (heartbeat_signing_payload hb)) (\<lambda>canonical.
        try_res (map_err (\<lambda>_. HeartbeatInternal ''sign_failed'')
                   (sign_eip712_digest X pk (heartbeat_digest_v1 X canonical))) (\<lambda>sig.
          Ok (hb\<lparr>hb_signature := sig\<rparr>)))))"


section \<open>The counter has no gaps\<close>

text \<open>A history of the receipt module: keys made resident and decisions finished.\<close>

datatype receipt_event = InstallKey bytes | Decide pre sign_response

fun receipt_run ::
  "'x externals_scheme \<Rightarrow> receipt_event list \<Rightarrow> receipt_state \<Rightarrow> decision_receipt list \<times> receipt_state" where
  "receipt_run X [] st = ([], st)"
| "receipt_run X (InstallKey pk # es) st = receipt_run X es (install_key pk st)"
| "receipt_run X (Decide p resp # es) st =
     (case issue_pre X p resp st of (r, st1) \<Rightarrow>
      case receipt_run X es st1 of (rs, st2) \<Rightarrow> ((case r of None \<Rightarrow> [] | Some x \<Rightarrow> [x]) @ rs, st2))"

definition receipts_of :: "bytes \<Rightarrow> decision_receipt list \<Rightarrow> decision_receipt list" where
  "receipts_of c rs = filter (\<lambda>r. dr_customer_id r = c) rs"

lemma issue_pre_None:
  "issue_pre X p resp st = (None, st') \<Longrightarrow> seq_next_for st' c = seq_next_for st c \<and> rc_boot_id st' = rc_boot_id st"
  by (auto simp: issue_pre_def Let_def seq_next_for_def split: if_splits option.splits)

lemma issue_pre_Some:
  assumes "issue_pre X p resp st = (Some r, st')"
  shows "dr_customer_id r = pre_customer_id p"
    and "dr_seq r = show_nat (unat (seq_next_for st (pre_customer_id p)))"
    and "seq_next_for st' c = seq_next_for st c + (if c = pre_customer_id p then 1 else 0)"
    and "rc_boot_id st' = rc_boot_id st" "dr_boot_id r = hex_encode X (rc_boot_id st)"
  using assms
  by (auto simp: issue_pre_def draft_receipt_def Let_def seq_next_for_def split: if_splits option.splits)

lemma install_key_seq [simp]:
  "seq_next_for (install_key pk st) c = seq_next_for st c" "rc_boot_id (install_key pk st) = rc_boot_id st"
  by (simp_all add: install_key_def seq_next_for_def)

lemma receipt_run_numbers:
  assumes "receipt_run X es st = (rs, st')"
  shows "map dr_seq (receipts_of c rs)
           = map (\<lambda>i. show_nat (unat (seq_next_for st c + of_nat i))) [0..<length (receipts_of c rs)]
       \<and> seq_next_for st' c = seq_next_for st c + of_nat (length (receipts_of c rs))"
  using assms
proof (induction X es st arbitrary: rs st' rule: receipt_run.induct)
  case (3 X p resp es st)
  obtain r st1 where issue: "issue_pre X p resp st = (r, st1)"
    by (cases "issue_pre X p resp st")
  obtain rs1 st2 where run: "receipt_run X es st1 = (rs1, st2)"
    by (cases "receipt_run X es st1")
  note IH = "3.IH" [OF issue [symmetric] run]
  show ?case
  proof (cases r)
    case None
    then show ?thesis
      using "3.prems" IH issue issue_pre_None [of X p resp st st1 c] by (simp add: run)
  next
    case (Some x)
    define a n where "a = seq_next_for st c" and "n = length (receipts_of c rs1)"
    note issued = issue_pre_Some(1,2) [OF issue [unfolded Some]] issue_pre_Some(3) [OF issue [unfolded Some], of c]
    have rs: "rs = x # rs1" "st' = st2"
      using "3.prems" issue run Some by simp_all
    show ?thesis
    proof (cases "c = pre_customer_id p")
      case True
      have "map (\<lambda>i. show_nat (unat (a + 1 + of_nat i))) [0..<n] = map (\<lambda>i. show_nat (unat (a + of_nat i))) [1..<Suc n]"
        by (simp add: map_Suc_upt [symmetric] add.assoc del: upt_Suc)
      moreover have "[0..<Suc n] = 0 # [1..<Suc n]"
        by (simp add: upt_conv_Cons)
      moreover have "receipts_of c rs = x # receipts_of c rs1"
        using True issued(1) by (simp add: rs receipts_of_def)
      moreover have "length (receipts_of (pre_customer_id p) rs1) = n" "seq_next_for st (pre_customer_id p) = a"
        using True by (simp_all add: a_def n_def)
      ultimately show ?thesis
        using IH issued True unfolding a_def [symmetric] n_def [symmetric] rs(2)
        by (simp add: add.assoc del: upt_Suc)
    next
      case False
      then have "receipts_of c rs = receipts_of c rs1"
        using issued(1) by (simp add: rs receipts_of_def)
      then show ?thesis
        using IH issued False by (simp add: rs(2))
    qed
  qed
qed (simp_all add: receipts_of_def)


text \<open>
  C23: Receipts are gap-free per customer.  In every history of decisions and key
  installations since boot, the receipts issued to a customer carry the numbers 0, 1, 2, \<dots>
  in order (as 64-bit values), whatever other customers do and however many signatures
  failed in between; and the counter a heartbeat reports is the number of receipts issued.
\<close>

theorem receipts_gap_free:
  "map dr_seq (receipts_of c (fst (receipt_run X es (receipt_state_init b))))
     = map (\<lambda>i. show_nat (i mod 2 ^ 64)) [0..<length (receipts_of c (fst (receipt_run X es (receipt_state_init b))))]
   \<and> unat (seq_next_for (snd (receipt_run X es (receipt_state_init b))) c)
     = length (receipts_of c (fst (receipt_run X es (receipt_state_init b)))) mod 2 ^ 64"
proof -
  obtain rs st' where run: "receipt_run X es (receipt_state_init b) = (rs, st')"
    by (cases "receipt_run X es (receipt_state_init b)")
  have "seq_next_for (receipt_state_init b) c = 0"
    by (simp add: seq_next_for_def receipt_state_init_def)
  then show ?thesis
    using receipt_run_numbers [OF run, of c] by (simp add: run unat_of_nat)
qed


section \<open>What a signature covers\<close>

text \<open>Objects with the same distinct keys and string values: the canonical bytes determine the values.\<close>

definition string_object :: "(bytes \<times> bytes) list \<Rightarrow> json" where
  "string_object kvs = Object (map (\<lambda>(k, v). (k, String v)) kvs)"

lemma same_keys_eq:
  assumes "set kvs = set kvs'" "map fst kvs = map fst kvs'" "distinct (map fst kvs)"
  shows "kvs = kvs'"
proof (rule nth_equalityI)
  show len: "length kvs = length kvs'"
    using assms(2) by (metis length_map)
  fix i
  assume i: "i < length kvs"
  then have "kvs ! i \<in> set kvs'"
    using assms(1) nth_mem by blast
  then obtain j where j: "j < length kvs'" "kvs' ! j = kvs ! i"
    by (metis in_set_conv_nth)
  then have "map fst kvs ! j = map fst kvs ! i"
    using i len assms(2) by (metis nth_map)
  then have "j = i"
    using assms(3) i j(1) len by (metis length_map nth_eq_iff_index_eq)
  then show "kvs ! i = kvs' ! i"
    using j(2) by simp
qed

lemma string_object_inj:
  assumes "canonical_v1 (string_object kvs) = canonical_v1 (string_object kvs')"
    and "map fst kvs = map fst kvs'" "distinct (map fst kvs)"
  shows "kvs = kvs'"
proof -
  have free: "number_free (string_object ps)" for ps
    by (auto simp: string_object_def list_all_iff)
  have sorted: "sort_members (string_object ps) = Object (sort_key key_order (map (\<lambda>(k, v). (k, String v)) ps))" for ps
    by (simp add: string_object_def comp_def case_prod_unfold)
  have "sort_members (string_object kvs) = sort_members (string_object kvs')"
    using assms(1) free canonical_json.inj by (simp add: canonical_v1_spec number_free_sort_members)
  then have "set (map (\<lambda>(k, v). (k, String v)) kvs) = set (map (\<lambda>(k, v). (k, String v)) kvs')"
    unfolding sorted by (metis json.inject(5) set_sort)
  moreover have "inj (\<lambda>(k :: bytes, v). (k, String v))"
    by (auto simp: inj_def)
  ultimately have "set kvs = set kvs'"
    by (simp add: inj_image_eq_iff)
  then show ?thesis
    using assms(2,3) by (rule same_keys_eq)
qed

text \<open>
  C24: The bytes under a receipt's signature cover every field of the receipt: two receipts have the same
  signed bytes exactly when they agree in version, decision, reason, customer, action, request hash, intent
  hash, policy hash, supplied time, boot id and number.
\<close>

theorem receipt_payload_determines:
  "signing_payload r = signing_payload r' \<longleftrightarrow> r\<lparr>dr_signature := sig\<rparr> = r'\<lparr>dr_signature := sig\<rparr>"
proof
  define kvs where "kvs r = [(''v'', dr_v r), (''decision'', dr_decision r),
     (''reason_code'', dr_reason_code r), (''customer_id'', dr_customer_id r),
     (''action'', dr_action r), (''request_hash'', dr_request_hash r),
     (''intent_sig_hash'', dr_intent_sig_hash r), (''policy_hash'', dr_policy_hash r),
     (''supplied_ts_ms'', dr_supplied_ts_ms r), (''boot_id'', dr_boot_id r), (''seq'', dr_seq r)]" for r :: decision_receipt
  have val: "receipt_value r = string_object (kvs r)" for r
    by (simp add: receipt_value_def kvs_def string_object_def)
  assume "signing_payload r = signing_payload r'"
  then have "kvs r = kvs r'"
    by (intro string_object_inj) (simp_all add: signing_payload_def val kvs_def)
  then show "r\<lparr>dr_signature := sig\<rparr> = r'\<lparr>dr_signature := sig\<rparr>"
    by (simp add: kvs_def)
next
  assume eq: "r\<lparr>dr_signature := sig\<rparr> = r'\<lparr>dr_signature := sig\<rparr>"
  have drop: "signing_payload x = signing_payload (x\<lparr>dr_signature := sig\<rparr>)" for x
    by (simp add: signing_payload_def receipt_value_def)
  show "signing_payload r = signing_payload r'"
    by (subst (1 2) drop) (simp only: eq)
qed

text \<open>
  The request hash in a receipt is taken over unambiguous bytes: two requests have the
  same hash input exactly when all sixteen evaluated fields agree (with an absent field
  counted as an empty one), for fields shorter than \<open>2\<^sup>64\<close> bytes.
\<close>

theorem request_preimage_determines:
  assumes "list_all (len_fits 8) (request_fields X r)" "list_all (len_fits 8) (request_fields X r')"
  shows "request_preimage X r = request_preimage X r' \<longleftrightarrow> request_fields X r = request_fields X r'"
proof -
  have "length (request_fields X r) = length (request_fields X r')"
    by (simp add: request_fields_def)
  then show ?thesis
    using lp.concat_cancel [of "request_fields X r" "request_fields X r'" 8 "[]" "[]"] assms
    unfolding request_preimage_def list_all_iff by auto
qed


theorem request_preimage_determines_witness:
  "request_preimage sample_enclave sample_sign_request \<noteq> request_preimage sample_enclave (sample_sign_request\<lparr>rq_path := Some ''/x''\<rparr>)"
proof -
  have fits: "list_all (len_fits 8) (request_fields sample_enclave sample_sign_request)"
      "list_all (len_fits 8) (request_fields sample_enclave (sample_sign_request\<lparr>rq_path := Some ''/x''\<rparr>))"
    by (simp_all add: request_fields_def sample_sign_request_def push_str_def push_num_def push_json_def len_fits_def
        fits_def show_nat.simps)
  show ?thesis
    using request_preimage_determines [OF fits]
    by (simp add: request_fields_def sample_sign_request_def push_str_def)
qed

end
