(* ===== verification/Load.thy ===== *)
theory Load
  imports Envelope Policy Tofu Rate_Limiter Intent Receipt
begin

text \<open>
  Loading a sealed secret, \<^verbatim>\<open>enclave/src/handler.rs\<close>: \<^verbatim>\<open>load_secret_for\<close> fetches the plaintext
  of the request's blob under the resolved identity, through the data-key cache or KMS, and
  \<^verbatim>\<open>load_and_parse_blob\<close> puts the venue check in front and the policy floor behind it.

  \<open>enclave_sys\<close> adds the last outside functions: the security module's attestation document, the
  derived (de)serialisers of the envelope, the registry entries, the request and the response,
  and the members of a JSON document before duplicates are merged.

  The state of the enclave process is the record \<open>enclave_state\<close>: the boot secret that keys the token
  hashes and the process-wide stores of the other components.  Clock readings and random
  bytes are the record \<open>draws\<close>, an argument of each request, so that the handlers are functions.

  Shown here: loading touches the data-key cache and the pins only; a plaintext comes from KMS
  or AES-GCM under this identity's own context and additional data, also when the data key
  came from the cache; a strict money venue yields only a policy signed by the baked
  authority and capped.
\<close>

record enclave_sys = kms_ext +
  nsm_document :: "bytes option \<Rightarrow> bytes option \<Rightarrow> bytes option \<Rightarrow> bytes option"
  de_envelope :: "bytes \<Rightarrow> envelope option"
  envelope_text :: "envelope \<Rightarrow> bytes"
  de_refresh_entries :: "bytes \<Rightarrow> refresh_entry list option"
  json_document :: "bytes \<Rightarrow> json option"
  de_request :: "bytes \<Rightarrow> sign_request option"
  response_text :: "sign_response \<Rightarrow> bytes"

record enclave_state =
  es_registry_key :: bytes
  es_registry :: registry
  es_limiter :: limiter
  es_ledger :: ledger
  es_pins :: pin_store
  es_dek :: dek_cache
  es_receipts :: receipt_state

record draws =
  in_now :: nat
  in_now_get :: nat
  in_now_put :: nat
  in_registry_nonce :: bytes
  in_key_draws :: "bytes list"
  in_dek :: bytes
  in_gcm_nonce :: bytes

definition MAX_CIPHERTEXT_BYTES :: nat where
  "MAX_CIPHERTEXT_BYTES = 8 * 1024"


section \<open>The plaintext of a blob\<close>

definition kms_decrypt ::
  "'x kms_ext_scheme \<Rightarrow> aws_credentials \<Rightarrow> bytes \<Rightarrow> (bytes \<times> bytes) list option \<Rightarrow> (load_secret_error, bytes) result" where
  "kms_decrypt X creds ciphertext enc_ctx =
     map_err (\<lambda>e. case e of DecryptAccessDenied \<Rightarrow> LoadKmsDenied | DecryptInternal \<Rightarrow> LoadInternal)
       (kms_client_decrypt X creds ciphertext enc_ctx)"

definition dek_cache_miss_decrypt ::
  "'x kms_ext_scheme \<Rightarrow> aws_credentials \<Rightarrow> bytes \<Rightarrow> (bytes \<times> bytes) list option \<Rightarrow> (load_secret_error, bytes) result" where
  "dek_cache_miss_decrypt X creds wrapped_dek enc_ctx = kms_decrypt X creds wrapped_dek enc_ctx"

text \<open>The data key and whether it is fresh from KMS; a poisoned cache counts as a miss.\<close>

definition obtain_dek ::
  "'x kms_ext_scheme \<Rightarrow> aws_credentials \<Rightarrow> bytes \<Rightarrow> (bytes \<times> bytes) list \<Rightarrow> (cache_error, bytes option) result
     \<Rightarrow> (load_secret_error, bytes \<times> bool) result" where
  "obtain_dek X creds wrapped_dek ctx hit =
     (case hit of
        Ok (Some dek) \<Rightarrow> Ok (dek, False)
      | Ok None \<Rightarrow> try_res (dek_cache_miss_decrypt X creds wrapped_dek (Some ctx)) (\<lambda>dek. Ok (dek, True))
      | Err _ \<Rightarrow> try_res (dek_cache_miss_decrypt X creds wrapped_dek (Some ctx)) (\<lambda>dek. Ok (dek, True)))"

definition load_envelope ::
  "'x enclave_sys_scheme \<Rightarrow> draws \<Rightarrow> aws_credentials \<Rightarrow> bytes \<Rightarrow> (bytes \<times> bytes) list \<Rightarrow> bytes \<Rightarrow> dek_cache
     \<Rightarrow> (load_secret_error, bytes) result \<times> dek_cache" where
  "load_envelope X inp creds raw_blob ctx aad cache =
     (case parse_envelope (de_envelope X) raw_blob of
        Err _ \<Rightarrow> (Err LoadBadRequest, cache)
      | Ok env \<Rightarrow>
          (case b64_decode X (ev_wrapped_dek env) of
             None \<Rightarrow> (Err LoadBadRequest, cache)
           | Some wrapped_dek \<Rightarrow>
               (let cache_key = derive_key (sha256 X) wrapped_dek (Some ctx);
                    (hit, cache1) = dek_get cache_key (in_now_get inp) cache in
                case obtain_dek X creds wrapped_dek ctx hit of
                  Err e \<Rightarrow> (Err e, cache1)
                | Ok (dek, fresh) \<Rightarrow>
                    (case decrypt_with_dek X dek env aad of
                       Err _ \<Rightarrow> (Err LoadInternal, cache1)
                     | Ok plaintext \<Rightarrow>
                         (Ok plaintext,
                          if fresh then snd (dek_put cache_key dek (in_now_put inp) cache1) else cache1)))))"

definition request_blob :: "'x externals_scheme \<Rightarrow> sign_request \<Rightarrow> (load_secret_error, aws_credentials \<times> bytes) result" where
  "request_blob X req =
     try_res (ok_or LoadBadRequest (rq_aws_credentials req)) (\<lambda>creds.
     try_res (ok_or LoadBadRequest (rq_ciphertext_blob_base64 req)) (\<lambda>ciphertext_b64.
     if ciphertext_b64 = [] \<or> length ciphertext_b64 > MAX_CIPHERTEXT_BYTES then Err LoadBadRequest
     else try_res (ok_or LoadBadRequest (b64_decode X ciphertext_b64)) (\<lambda>raw_blob.
       if raw_blob = [] \<or> length raw_blob > MAX_CIPHERTEXT_BYTES then Err LoadBadRequest
       else Ok (creds, raw_blob))))"

definition load_secret_for ::
  "'x enclave_sys_scheme \<Rightarrow> draws \<Rightarrow> sign_request \<Rightarrow> resolved_identity \<Rightarrow> bytes \<Rightarrow> dek_cache
     \<Rightarrow> (load_secret_error, bytes) result \<times> dek_cache" where
  "load_secret_for X inp req identity venue cache =
     (case request_blob X req of
        Err e \<Rightarrow> (Err e, cache)
      | Ok (creds, raw_blob) \<Rightarrow>
          (let ctx = encryption_context identity venue;
               aad = sealed_aad identity venue KEY_VERSION in
           if is_envelope X raw_blob then load_envelope X inp creds raw_blob ctx aad cache
           else (kms_decrypt X creds raw_blob (Some ctx), cache)))"


section \<open>The policy floor\<close>

definition tofu_key :: "resolved_identity \<Rightarrow> bytes \<Rightarrow> bytes" where
  "tofu_key identity venue = ri_customer_id identity @ ''/'' @ venue"

definition check_tofu ::
  "'x enclave_ext_scheme \<Rightarrow> bytes \<Rightarrow> policy \<Rightarrow> pin_store \<Rightarrow> (load_secret_error, unit) result \<times> pin_store" where
  "check_tofu X key p pins =
     (case (pl_signer_pubkey p, pl_policy_signature p) of
        (Some pk_hex, Some sig_hex) \<Rightarrow>
          (case verify_and_pin X key (canonical_policy_signable X p) pk_hex sig_hex pins of
             (Err _, pins') \<Rightarrow> (Err LoadBadRequest, pins')
           | (Ok _, pins') \<Rightarrow> (Ok (), pins'))
      | (None, None) \<Rightarrow> (map_err (\<lambda>_. LoadBadRequest) (require_if_pinned key pins), pins)
      | _ \<Rightarrow> (Err LoadBadRequest, pins))"

definition check_floor ::
  "'x enclave_ext_scheme \<Rightarrow> enclave_config \<Rightarrow> resolved_identity \<Rightarrow> bytes \<Rightarrow> parsed_blob \<Rightarrow> pin_store
     \<Rightarrow> (load_secret_error, policy option \<times> json) result \<times> pin_store" where
  "check_floor X cfg identity venue parsed pins =
     (let strict = blob_floor_strict (policy_required cfg) venue in
      case parsed of
        WithPolicy p secret_json \<Rightarrow>
          if strict \<and> is_money_venue venue
          then (try_res (verify_policy_authority X cfg p (ri_customer_id identity) venue) (\<lambda>_.
                  if rot3_uncapped_money_key_rejected True venue p then Err LoadPolicyRequired
                  else Ok (Some p, secret_json)), pins)
          else (case check_tofu X (tofu_key identity venue) p pins of
                  (Err e, pins') \<Rightarrow> (Err e, pins')
                | (Ok _, pins') \<Rightarrow> (Ok (Some p, secret_json), pins'))
      | Legacy v \<Rightarrow> (if strict then Err LoadPolicyRequired else Ok (None, v), pins))"

definition load_and_parse_blob ::
  "'x enclave_sys_scheme \<Rightarrow> enclave_config \<Rightarrow> draws \<Rightarrow> sign_request \<Rightarrow> resolved_identity \<Rightarrow> enclave_state
     \<Rightarrow> (load_secret_error, policy option \<times> json) result \<times> enclave_state" where
  "load_and_parse_blob X cfg inp req identity st =
     (case venue_for_action (rq_action req) of
        None \<Rightarrow> (Err LoadBadRequest, st)
      | Some venue \<Rightarrow>
          (case authorize_venue identity venue of
             Err e \<Rightarrow> (Err e, st)
           | Ok _ \<Rightarrow>
               (case load_secret_for X inp req identity venue (es_dek st) of
                  (Err e, cache) \<Rightarrow> (Err e, st\<lparr>es_dek := cache\<rparr>)
                | (Ok plaintext, cache) \<Rightarrow>
                    (case from_plaintext X plaintext of
                       None \<Rightarrow> (Err LoadBadRequest, st\<lparr>es_dek := cache\<rparr>)
                     | Some parsed \<Rightarrow>
                         (case check_floor X cfg identity venue parsed (es_pins st) of
                            (r, pins) \<Rightarrow> (r, st\<lparr>es_dek := cache, es_pins := pins\<rparr>))))))"


section \<open>What a load leaves alone and what it yields\<close>

lemma load_frame:
  "\<exists>cache pins. snd (load_and_parse_blob X cfg inp req identity st) = st\<lparr>es_dek := cache, es_pins := pins\<rparr>"
proof -
  have self: "st = st\<lparr>es_dek := es_dek st, es_pins := es_pins st\<rparr>"
    "st\<lparr>es_dek := c\<rparr> = st\<lparr>es_dek := c, es_pins := es_pins st\<rparr>" for c
    by simp_all
  show ?thesis
    unfolding load_and_parse_blob_def
    by (auto split: option.split sum.split prod.split intro: self)
qed

lemma load_Ok:
  assumes "load_and_parse_blob X cfg inp req identity st = (Ok (po, sj), st')"
  obtains venue pt cache parsed where "venue_for_action (rq_action req) = Some venue" "venue_allowed identity venue"
    "load_secret_for X inp req identity venue (es_dek st) = (Ok pt, cache)" "from_plaintext X pt = Some parsed"
    "fst (check_floor X cfg identity venue parsed (es_pins st)) = Ok (po, sj)" "es_dek st' = cache"
  using assms
  by (auto simp: load_and_parse_blob_def authorize_venue_def split: option.splits sum.splits prod.splits if_splits)

lemma check_floor_Ok:
  assumes "fst (check_floor X cfg identity venue parsed pins) = Ok (po, sj)"
  shows "po = blob_policy parsed" "sj = blob_secret_json parsed"
    and "blob_floor_strict (policy_required cfg) venue \<Longrightarrow> po \<noteq> None"
    and "blob_floor_strict (policy_required cfg) venue \<Longrightarrow> is_money_venue venue \<Longrightarrow>
      \<exists>p. po = Some p \<and> verify_policy_authority X cfg p (ri_customer_id identity) venue = Ok ()
        \<and> rot3_binding_cap_present venue p"
proof -
  show "po = blob_policy parsed" "sj = blob_secret_json parsed"
    and "blob_floor_strict (policy_required cfg) venue \<Longrightarrow> po \<noteq> None"
    using assms
    by (cases parsed; auto simp: check_floor_def result_simps split: if_splits prod.splits sum.splits)+
  show "\<exists>p. po = Some p \<and> verify_policy_authority X cfg p (ri_customer_id identity) venue = Ok ()
      \<and> rot3_binding_cap_present venue p"
    if "blob_floor_strict (policy_required cfg) venue" "is_money_venue venue"
    using assms that
    by (cases parsed)
      (auto simp: check_floor_def result_simps rot3_uncapped_money_key_rejected_def split: if_splits)
qed


section \<open>The data-key cache and the tenant boundary\<close>

text \<open>
  A history of loads: who asked for what, with the clock readings and the answers of the child
  process at the time.  \<open>released\<close> collects which data key KMS gave out for which wrapped
  key under which customer and venue.
\<close>

record load_event =
  le_kms :: "bytes list \<Rightarrow> bytes \<Rightarrow> kms_output option"
  le_inp :: draws
  le_req :: sign_request
  le_identity :: resolved_identity
  le_venue :: bytes

definition load_event :: "'x enclave_sys_scheme \<Rightarrow> load_event \<Rightarrow> dek_cache \<Rightarrow> (load_secret_error, bytes) result \<times> dek_cache" where
  "load_event X e c = load_secret_for (X\<lparr>kmstool := le_kms e\<rparr>) (le_inp e) (le_req e) (le_identity e) (le_venue e) c"

fun load_run :: "'x enclave_sys_scheme \<Rightarrow> load_event list \<Rightarrow> dek_cache \<Rightarrow> dek_cache" where
  "load_run X [] c = c"
| "load_run X (e # es) c = load_run X es (snd (load_event X e c))"

definition wrapped_of :: "'x enclave_sys_scheme \<Rightarrow> sign_request \<Rightarrow> bytes option" where
  "wrapped_of X req =
     (case request_blob X req of
        Err _ \<Rightarrow> None
      | Ok (creds, raw) \<Rightarrow>
          if \<not> is_envelope X raw then None
          else (case parse_envelope (de_envelope X) raw of Err _ \<Rightarrow> None | Ok env \<Rightarrow> b64_decode X (ev_wrapped_dek env)))"

definition event_key :: "load_event \<Rightarrow> bytes \<Rightarrow> bytes" where
  "event_key e w = derive_key_preimage w (Some (encryption_context (le_identity e) (le_venue e)))"

definition released :: "'x enclave_sys_scheme \<Rightarrow> load_event list \<Rightarrow> (bytes \<times> bytes \<times> bytes \<times> bytes) set" where
  "released X evs = {(w, cust, venue, dek). \<exists>e creds. e \<in> set evs \<and> wrapped_of X (le_req e) = Some w
     \<and> cust = ri_customer_id (le_identity e) \<and> venue = le_venue e
     \<and> kms_client_decrypt (X\<lparr>kmstool := le_kms e\<rparr>) creds w (Some (encryption_context (le_identity e) venue)) = Ok dek}"

definition preimages :: "'x enclave_sys_scheme \<Rightarrow> load_event list \<Rightarrow> bytes set" where
  "preimages X evs = {event_key e w |e w. e \<in> set evs \<and> wrapped_of X (le_req e) = Some w}"

definition wf_event :: "'x enclave_sys_scheme \<Rightarrow> load_event \<Rightarrow> bool" where
  "wf_event X e \<longleftrightarrow> is_safe_id (ri_customer_id (le_identity e)) \<and> is_safe_id (le_venue e)
     \<and> (\<forall>w. wrapped_of X (le_req e) = Some w \<longrightarrow> length w < 2 ^ 64)"

text \<open>Every cached data key was released by KMS to a load of the history with the same lookup key.\<close>

definition cache_from :: "'x enclave_sys_scheme \<Rightarrow> load_event list \<Rightarrow> dek_cache \<Rightarrow> bool" where
  "cache_from X evs c \<longleftrightarrow>
     (\<forall>key entry. dc_map c key = Some entry \<longrightarrow>
        (\<exists>e w. e \<in> set evs \<and> wrapped_of X (le_req e) = Some w \<and> key = sha256 X (event_key e w)
           \<and> (w, ri_customer_id (le_identity e), le_venue e, de_dek entry) \<in> released X evs))"

lemma kmstool_irrelevant [simp]:
  "request_blob (X\<lparr>kmstool := k\<rparr>) = request_blob X" "is_envelope (X\<lparr>kmstool := k\<rparr>) = is_envelope X"
  "decrypt_with_dek (X\<lparr>kmstool := k\<rparr>) = decrypt_with_dek X" "wrapped_of (X\<lparr>kmstool := k\<rparr>) = wrapped_of X"
  for X :: "'x enclave_sys_scheme"
proof -
  have fields: "b64_decode (X\<lparr>kmstool := k\<rparr>) = b64_decode X" "json_text (X\<lparr>kmstool := k\<rparr>) = json_text X"
    "aes_open (X\<lparr>kmstool := k\<rparr>) = aes_open X" "de_envelope (X\<lparr>kmstool := k\<rparr>) = de_envelope X"
    by simp_all
  show blob: "request_blob (X\<lparr>kmstool := k\<rparr>) = request_blob X"
    and env: "is_envelope (X\<lparr>kmstool := k\<rparr>) = is_envelope X"
    and "decrypt_with_dek (X\<lparr>kmstool := k\<rparr>) = decrypt_with_dek X"
    by (intro ext, simp only: request_blob_def is_envelope_def decrypt_with_dek_def fields)+
  show "wrapped_of (X\<lparr>kmstool := k\<rparr>) = wrapped_of X"
    by (rule ext, simp only: wrapped_of_def blob env fields)
qed

lemma released_mono: "set es \<subseteq> set fs \<Longrightarrow> released X es \<subseteq> released X fs"
  by (auto simp: released_def)

lemma cache_from_mono:
  assumes "cache_from X evs c" "set evs \<subseteq> set fs" "dc_map c' \<subseteq>\<^sub>m dc_map c"
  shows "cache_from X fs c'"
  unfolding cache_from_def
proof (intro allI impI)
  fix key entry
  assume "dc_map c' key = Some entry"
  then have "dc_map c key = Some entry"
    using assms(3) by (metis domI map_le_def)
  then obtain e w where "e \<in> set evs" "wrapped_of X (le_req e) = Some w" "key = sha256 X (event_key e w)"
    "(w, ri_customer_id (le_identity e), le_venue e, de_dek entry) \<in> released X evs"
    using assms(1) unfolding cache_from_def by blast
  then show "\<exists>e w. e \<in> set fs \<and> wrapped_of X (le_req e) = Some w \<and> key = sha256 X (event_key e w)
      \<and> (w, ri_customer_id (le_identity e), le_venue e, de_dek entry) \<in> released X fs"
    using assms(2) released_mono [OF assms(2)] by blast
qed

lemma dek_get_map: "dc_map (snd (dek_get key now c)) \<subseteq>\<^sub>m dc_map c"
  by (auto simp: dek_get_def map_le_def Let_def split: option.splits if_splits)

lemma dek_get_hit:
  "dek_get key now c = (Ok (Some d), c') \<Longrightarrow> \<exists>entry. dc_map c key = Some entry \<and> d = de_dek entry"
  by (auto simp: dek_get_def Let_def split: option.splits if_splits)

lemma dek_put_map:
  "dc_map (snd (dek_put key d now c)) \<subseteq>\<^sub>m (dc_map c)(key \<mapsto> \<lparr>de_dek = d, de_inserted = now\<rparr>)
   \<or> dc_map (snd (dek_put key d now c)) = dc_map c"
proof (cases "dek_enabled c \<and> \<not> dc_poisoned c")
  case True
  obtain order' m' where ev: "dek_evict (dc_max c)
      ((if dc_map c key \<noteq> None then remove_from_order (dc_order c) key else dc_order c) @ [key])
      ((dc_map c)(key \<mapsto> \<lparr>de_dek = d, de_inserted = now\<rparr>)) = (order', m')"
    by fastforce
  then have "dc_map (snd (dek_put key d now c)) = m'"
    using True by (simp add: dek_put_def Let_def)
  then show ?thesis
    using dek_evict_sub [OF ev] by simp
qed (auto simp: dek_put_def)

text \<open>One load: where the data key came from and what the cache gained.\<close>

lemma load_envelope_step:
  assumes "parse_envelope (de_envelope X) raw = Ok env" "b64_decode X (ev_wrapped_dek env) = Some w"
    and "load_envelope X inp creds raw ctx aad c = (r, c')"
  shows "dc_map c' \<subseteq>\<^sub>m dc_map c \<or>
      (\<exists>d. kms_client_decrypt X creds w (Some ctx) = Ok d \<and>
         dc_map c' \<subseteq>\<^sub>m (dc_map c)(derive_key (sha256 X) w (Some ctx) \<mapsto> \<lparr>de_dek = d, de_inserted = in_now_put inp\<rparr>))"
    and "r = Ok pt \<Longrightarrow> \<exists>d. decrypt_with_dek X d env aad = Ok pt \<and>
      (kms_client_decrypt X creds w (Some ctx) = Ok d \<or>
       (\<exists>entry. dc_map c (derive_key (sha256 X) w (Some ctx)) = Some entry \<and> d = de_dek entry))"
proof -
  let ?k = "derive_key (sha256 X) w (Some ctx)"
  obtain hit c1 where get: "dek_get ?k (in_now_get inp) c = (hit, c1)"
    by fastforce
  have c1: "dc_map c1 \<subseteq>\<^sub>m dc_map c"
    using dek_get_map [of ?k "in_now_get inp" c] get by simp
  have out: "load_envelope X inp creds raw ctx aad c =
      (case obtain_dek X creds w ctx hit of Err e \<Rightarrow> (Err e, c1)
       | Ok (dek, fresh) \<Rightarrow> (case decrypt_with_dek X dek env aad of Err _ \<Rightarrow> (Err LoadInternal, c1)
           | Ok pt \<Rightarrow> (Ok pt, if fresh then snd (dek_put ?k dek (in_now_put inp) c1) else c1)))"
    using assms(1,2) get by (simp add: load_envelope_def)
  have src: "(fresh \<longrightarrow> kms_client_decrypt X creds w (Some ctx) = Ok d) \<and> (\<not> fresh \<longrightarrow> hit = Ok (Some d))"
    if "obtain_dek X creds w ctx hit = Ok (d, fresh)" for d fresh
    using that unfolding obtain_dek_def dek_cache_miss_decrypt_def kms_decrypt_def
    by (auto simp: result_simps split: sum.splits option.splits)
  have put: "dc_map (snd (dek_put ?k d t c1)) \<subseteq>\<^sub>m (dc_map c)(?k \<mapsto> \<lparr>de_dek = d, de_inserted = t\<rparr>)
      \<or> dc_map (snd (dek_put ?k d t c1)) \<subseteq>\<^sub>m dc_map c" for d t
  proof -
    have "(dc_map c1)(?k \<mapsto> \<lparr>de_dek = d, de_inserted = t\<rparr>) \<subseteq>\<^sub>m (dc_map c)(?k \<mapsto> \<lparr>de_dek = d, de_inserted = t\<rparr>)"
      using c1 by (rule map_le_upd)
    then show ?thesis
      using dek_put_map [of ?k d t c1] c1 map_le_trans by (elim disjE) (blast, simp)
  qed
  show "dc_map c' \<subseteq>\<^sub>m dc_map c \<or>
      (\<exists>d. kms_client_decrypt X creds w (Some ctx) = Ok d \<and>
         dc_map c' \<subseteq>\<^sub>m (dc_map c)(?k \<mapsto> \<lparr>de_dek = d, de_inserted = in_now_put inp\<rparr>))"
  proof (cases "\<exists>d. obtain_dek X creds w ctx hit = Ok (d, True) \<and> is_ok (decrypt_with_dek X d env aad)")
    case True
    then obtain d where d: "obtain_dek X creds w ctx hit = Ok (d, True)" "is_ok (decrypt_with_dek X d env aad)"
      by blast
    then have "c' = snd (dek_put ?k d (in_now_put inp) c1)"
      using assms(3) unfolding out by (auto simp: result_simps)
    then show ?thesis
      using put [of d "in_now_put inp"] src [OF d(1)] by blast
  next
    case False
    then have "c' = c1"
      using assms(3) unfolding out by (auto simp: result_simps split: sum.splits)
    then show ?thesis
      using c1 by simp
  qed
  show "\<exists>d. decrypt_with_dek X d env aad = Ok pt \<and> (kms_client_decrypt X creds w (Some ctx) = Ok d \<or>
       (\<exists>entry. dc_map c ?k = Some entry \<and> d = de_dek entry))" if rpt: "r = Ok pt"
  proof -
    obtain d fresh where d: "obtain_dek X creds w ctx hit = Ok (d, fresh)" "decrypt_with_dek X d env aad = Ok pt"
      using assms(3) rpt unfolding out by (auto split: sum.splits prod.splits)
    then show ?thesis
      using src [OF d(1)] dek_get_hit get by (cases fresh) blast+
  qed
qed

lemma load_event_wrapped:
  assumes "wrapped_of X (le_req e) = Some w"
  obtains creds raw env where "request_blob X (le_req e) = Ok (creds, raw)" "is_envelope X raw"
    "parse_envelope (de_envelope X) raw = Ok env" "b64_decode X (ev_wrapped_dek env) = Some w"
    "load_event X e c = load_envelope (X\<lparr>kmstool := le_kms e\<rparr>) (le_inp e) creds raw
       (encryption_context (le_identity e) (le_venue e)) (sealed_aad (le_identity e) (le_venue e) KEY_VERSION) c"
  using assms
  by (auto simp: wrapped_of_def load_event_def load_secret_for_def split: sum.splits prod.splits if_splits)

lemma load_event_unwrapped:
  assumes "wrapped_of X (le_req e) = None"
  shows "snd (load_event X e c) = c"
proof (cases "request_blob X (le_req e)")
  case (Inr cr)
  obtain creds raw where cr: "cr = (creds, raw)"
    by (cases cr)
  show ?thesis
  proof (cases "is_envelope X raw")
    case True
    then show ?thesis
      using assms Inr cr
      by (auto simp: wrapped_of_def load_event_def load_secret_for_def load_envelope_def split: sum.splits)
  qed (use Inr cr in \<open>simp add: load_event_def load_secret_for_def\<close>)
qed (simp add: load_event_def load_secret_for_def)

lemma cache_from_upd:
  assumes "cache_from X evs c" "e \<in> set evs" "wrapped_of X (le_req e) = Some w"
    and "(w, ri_customer_id (le_identity e), le_venue e, de_dek entry) \<in> released X evs"
  shows "cache_from X evs (c\<lparr>dc_map := (dc_map c)(sha256 X (event_key e w) \<mapsto> entry)\<rparr>)"
  unfolding cache_from_def
proof (intro allI impI)
  fix key entry'
  assume *: "dc_map (c\<lparr>dc_map := (dc_map c)(sha256 X (event_key e w) \<mapsto> entry)\<rparr>) key = Some entry'"
  show "\<exists>e w. e \<in> set evs \<and> wrapped_of X (le_req e) = Some w \<and> key = sha256 X (event_key e w)
      \<and> (w, ri_customer_id (le_identity e), le_venue e, de_dek entry') \<in> released X evs"
  proof (cases "key = sha256 X (event_key e w)")
    case True
    then have "entry' = entry"
      using * by simp
    then show ?thesis
      using assms(2-4) True by (intro exI [of _ e] exI [of _ w] conjI) simp_all
  next
    case False
    then have "dc_map c key = Some entry'"
      using * by simp
    then show ?thesis
      using assms(1) unfolding cache_from_def by blast
  qed
qed

lemma load_event_cache_from:
  assumes "cache_from X evs c"
  shows "cache_from X (evs @ [e]) (snd (load_event X e c))"
proof (cases "wrapped_of X (le_req e)")
  case None
  then show ?thesis
    using cache_from_mono [OF assms, of "evs @ [e]" c] by (simp add: load_event_unwrapped subset_insertI)
next
  case (Some w)
  let ?Y = "X\<lparr>kmstool := le_kms e\<rparr>" and ?ctx = "encryption_context (le_identity e) (le_venue e)"
  obtain creds raw env where blob: "parse_envelope (de_envelope ?Y) raw = Ok env" "b64_decode ?Y (ev_wrapped_dek env) = Some w"
    and ev: "load_event X e c = load_envelope ?Y (le_inp e) creds raw ?ctx
       (sealed_aad (le_identity e) (le_venue e) KEY_VERSION) c"
    using Some by (rule load_event_wrapped) simp
  have key: "derive_key (sha256 ?Y) w (Some ?ctx) = sha256 X (event_key e w)"
    by (simp add: derive_key_def event_key_def)
  note step = load_envelope_step(1) [OF blob, of "le_inp e" creds ?ctx _ c, OF prod.collapse [symmetric]]
  have "dc_map (snd (load_event X e c)) \<subseteq>\<^sub>m dc_map c \<or>
      (\<exists>d. kms_client_decrypt ?Y creds w (Some ?ctx) = Ok d \<and>
         dc_map (snd (load_event X e c)) \<subseteq>\<^sub>m
           (dc_map c)(sha256 X (event_key e w) \<mapsto> \<lparr>de_dek = d, de_inserted = in_now_put (le_inp e)\<rparr>))"
    using step unfolding ev key .
  then show ?thesis
  proof
    assume "dc_map (snd (load_event X e c)) \<subseteq>\<^sub>m dc_map c"
    then show ?thesis
      using assms by (intro cache_from_mono [OF assms]) auto
  next
    assume "\<exists>d. kms_client_decrypt ?Y creds w (Some ?ctx) = Ok d \<and>
         dc_map (snd (load_event X e c)) \<subseteq>\<^sub>m
           (dc_map c)(sha256 X (event_key e w) \<mapsto> \<lparr>de_dek = d, de_inserted = in_now_put (le_inp e)\<rparr>)"
    then obtain d where d: "kms_client_decrypt ?Y creds w (Some ?ctx) = Ok d"
      "dc_map (snd (load_event X e c)) \<subseteq>\<^sub>m
         (dc_map c)(sha256 X (event_key e w) \<mapsto> \<lparr>de_dek = d, de_inserted = in_now_put (le_inp e)\<rparr>)"
      by blast
    have new: "(w, ri_customer_id (le_identity e), le_venue e, d) \<in> released X (evs @ [e])"
      using d(1) Some by (auto simp: released_def)
    have old: "cache_from X (evs @ [e]) c"
      by (rule cache_from_mono [OF assms]) auto
    have "cache_from X (evs @ [e])
        (c\<lparr>dc_map := (dc_map c)(sha256 X (event_key e w) \<mapsto> \<lparr>de_dek = d, de_inserted = in_now_put (le_inp e)\<rparr>)\<rparr>)"
      using new Some by (intro cache_from_upd [OF old]) simp_all
    then show ?thesis
      using d(2) by (elim cache_from_mono) simp_all
  qed
qed

lemma load_run_append: "load_run X (es @ fs) c = load_run X fs (load_run X es c)"
  by (induction es arbitrary: c) simp_all

lemma load_run_cache_from: "cache_from X evs (load_run X evs (dek_new ttl mx))"
proof (induction evs rule: rev_induct)
  case Nil
  then show ?case
    by (simp add: cache_from_def dek_new_def)
next
  case (snoc e evs)
  then show ?case
    using load_event_cache_from [of X evs] by (simp add: load_run_append)
qed

lemma safe_id_no_sep: "is_safe_id s \<Longrightarrow> sep_entry \<notin> set s"
proof -
  have "\<not> (is_ascii_alphanumeric sep_entry \<or> sep_entry = CHR ''-'' \<or> sep_entry = CHR ''_'')"
    by code_simp
  then show "is_safe_id s \<Longrightarrow> sep_entry \<notin> set s"
    unfolding is_safe_id_def list_all_iff by blast
qed

lemma event_key_inj:
  assumes "wf_event X e" "wf_event X f" "wrapped_of X (le_req e) = Some w" "wrapped_of X (le_req f) = Some w'"
    and "event_key e w = event_key f w'"
  shows "w = w' \<and> ri_customer_id (le_identity e) = ri_customer_id (le_identity f) \<and> le_venue e = le_venue f"
proof -
  have clean: "clean_context (encryption_context (le_identity x) (le_venue x))" if "wf_event X x" for x
    using that safe_id_no_sep
    by (simp add: wf_event_def clean_context_def encryption_context_def char_of_def)
  have sort: "sort_key fst (encryption_context i v) = encryption_context i v" for i v
    by (simp add: encryption_context_def)
  have "length w < 2 ^ 64" "length w' < 2 ^ 64"
    using assms(1-4) by (simp_all only: wf_event_def)
  then have "w = w' \<and> encryption_context (le_identity e) (le_venue e) = encryption_context (le_identity f) (le_venue f)"
    using derive_key_preimage_cancel [OF _ _ clean [OF assms(1)] clean [OF assms(2)]] assms(5)
    unfolding event_key_def sort by blast
  then show ?thesis
    by (simp add: encryption_context_def)
qed


section \<open>Properties\<close>

text \<open>
  C40: The data-key cache never carries a key across the tenant boundary.  After any history of
  loads by any tenants, a load that returns a plaintext from an enveloped blob used a data
  key that KMS released, now or earlier, for this same wrapped key under this same customer
  and venue, and opened the ciphertext with this identity's additional data.  Assumed: customer
  ids and venues pass the registry's character check, and SHA-256 has no collision among the
  cache keys of the history.
\<close>

theorem cache_respects_tenants:
  assumes "fst (load_event X e (load_run X evs (dek_new ttl mx))) = Ok pt" "wrapped_of X (le_req e) = Some w"
    and "list_all (wf_event X) (evs @ [e])" "inj_on (sha256 X) (preimages X (evs @ [e]))"
  shows "\<exists>dek n ct. (w, ri_customer_id (le_identity e), le_venue e, dek) \<in> released X (evs @ [e])
    \<and> aes_open X dek n ct (sealed_aad (le_identity e) (le_venue e) KEY_VERSION) = Some pt"
proof -
  let ?c = "load_run X evs (dek_new ttl mx)"
  let ?Y = "X\<lparr>kmstool := le_kms e\<rparr>" and ?ctx = "encryption_context (le_identity e) (le_venue e)"
  let ?aad = "sealed_aad (le_identity e) (le_venue e) KEY_VERSION"
  obtain creds raw env where blob: "parse_envelope (de_envelope ?Y) raw = Ok env" "b64_decode ?Y (ev_wrapped_dek env) = Some w"
    and ev: "load_event X e ?c = load_envelope ?Y (le_inp e) creds raw ?ctx ?aad ?c"
    using assms(2) by (rule load_event_wrapped) simp
  obtain dek where open_: "decrypt_with_dek ?Y dek env ?aad = Ok pt"
    and src: "kms_client_decrypt ?Y creds w (Some ?ctx) = Ok dek \<or>
       (\<exists>entry. dc_map ?c (derive_key (sha256 ?Y) w (Some ?ctx)) = Some entry \<and> dek = de_dek entry)"
    using load_envelope_step(2) [OF blob prod.collapse [symmetric]] assms(1) unfolding ev by metis
  have "(w, ri_customer_id (le_identity e), le_venue e, dek) \<in> released X (evs @ [e])"
    using src
  proof
    assume "kms_client_decrypt ?Y creds w (Some ?ctx) = Ok dek"
    then show ?thesis
      using assms(2) by (auto simp: released_def)
  next
    assume "\<exists>entry. dc_map ?c (derive_key (sha256 ?Y) w (Some ?ctx)) = Some entry \<and> dek = de_dek entry"
    then obtain entry where "dc_map ?c (sha256 X (event_key e w)) = Some entry" "dek = de_dek entry"
      by (auto simp: derive_key_def event_key_def)
    then obtain f w' where f: "f \<in> set evs" "wrapped_of X (le_req f) = Some w'"
      "sha256 X (event_key e w) = sha256 X (event_key f w')"
      "(w', ri_customer_id (le_identity f), le_venue f, dek) \<in> released X evs"
      using load_run_cache_from [of X evs ttl mx] unfolding cache_from_def by blast
    have "event_key e w = event_key f w'"
      using assms(2) f(1,2) by (intro inj_onD [OF assms(4) f(3)]) (auto simp: preimages_def)
    then have "w = w'" "ri_customer_id (le_identity e) = ri_customer_id (le_identity f)" "le_venue e = le_venue f"
      using event_key_inj [OF _ _ assms(2) f(2)] assms(3) f(1) by (auto simp: list_all_iff)
    then show ?thesis
      using f(4) released_mono [of evs "evs @ [e]" X] by auto
  qed
  then show ?thesis
    using open_ unfolding decrypt_with_dek_Ok by auto
qed

text \<open>
  A system to evaluate examples on: every blob is an envelope, the child process releases a fixed
  data key, every signature verifies, and every plaintext carries one capped, authority-signed
  policy and one secret of each kind.
\<close>

definition sample_env :: envelope where
  "sample_env = \<lparr>ev_version = 2, ev_wrapped_dek = ''W'', ev_nonce = replicate 12 (CHR ''n''), ev_ciphertext = ''secret''\<rparr>"

definition sample_kmstool :: "bytes list \<Rightarrow> bytes \<Rightarrow> kms_output option" where
  "sample_kmstool argv stdin =
     Some \<lparr>ko_success = True, ko_stdout = ''PLAINTEXT:'' @ replicate 32 (CHR ''k''), ko_stderr = []\<rparr>"

definition sample_policy :: policy where
  "sample_policy = policy_default\<lparr>
     pl_order_caps := Some [\<lparr>oc_symbol = ''BTCUSDT'', oc_max_qty = ''0.5'', oc_max_notional = Some ''31000''\<rparr>],
     pl_hl_order_caps := Some [\<lparr>hc_asset = 7, hc_max_size = ''1.0'', hc_max_notional = Some ''16''\<rparr>],
     pl_policy_authority_sig := Some (replicate 128 (CHR ''0''))\<rparr>"

definition sample_sys :: enclave_sys where
  "sample_sys = kms_ext.extend
     (enclave_ext.extend
        (sample_enclave\<lparr>json_text := (\<lambda>_. Some (Object [(''version'', Number (PosInt 2)), (''policy'', Null)])),
           de_policy_wrapped := (\<lambda>_. Some (sample_policy, Null)),
           de_key_secret := (\<lambda>_. Some \<lparr>ks_key = ''K'', ks_secret = ''S''\<rparr>),
           de_hyperliquid := (\<lambda>_. Some \<lparr>hl_exchange = ''hl'', hl_private_key = ''0x'' @ replicate 64 (CHR ''0''),
              hl_wallet_address = ''0x'' @ replicate 40 (CHR ''0''), hl_vault_address = None\<rparr>),
           de_asterdex := (\<lambda>_. Some \<lparr>as_exchange = ''as'', as_private_key = ''0x'' @ replicate 64 (CHR ''0''),
              as_signer_address = ''0x'' @ replicate 40 (CHR ''0'')\<rparr>)\<rparr>)
        (kms_ext.fields sample_kmstool))
     (enclave_sys.fields (\<lambda>_ _ _. None) (\<lambda>_. Some sample_env) (\<lambda>_. ''{}'') (\<lambda>_. None) (\<lambda>_. None) (\<lambda>_. None) (\<lambda>_. []))"

definition sample_draws :: draws where
  "sample_draws = \<lparr>in_now = 0, in_now_get = 1, in_now_put = 1, in_registry_nonce = [], in_key_draws = [], in_dek = [],
     in_gcm_nonce = []\<rparr>"

definition sample_creds :: aws_credentials where
  "sample_creds = \<lparr>ac_access_key_id = ''A'', ac_secret_access_key = ''S'', ac_session_token = ''T''\<rparr>"

definition sample_load :: load_event where
  "sample_load = \<lparr>le_kms = sample_kmstool, le_inp = sample_draws,
     le_req = sample_sign_request\<lparr>rq_aws_credentials := Some sample_creds, rq_ciphertext_blob_base64 := Some ''blob''\<rparr>,
     le_identity = sample_identity, le_venue = ''binance''\<rparr>"

lemma sample_sys_fields [simp]:
  "b64_decode sample_sys s = Some s" "de_envelope sample_sys s = Some sample_env" "kmstool sample_sys = sample_kmstool"
  by (simp_all add: sample_sys_def sample_enclave_def sample_ext_def enclave_ext.defs externals.defs kms_ext.defs enclave_sys.defs)

lemma sample_load_facts:
  "request_blob sample_sys (le_req sample_load) = Ok (sample_creds, ''blob'')" "is_envelope sample_sys ''blob''"
  "parse_envelope (de_envelope sample_sys) ''blob'' = Ok sample_env"
  "decrypt_with_dek sample_sys (replicate 32 (CHR ''k'')) sample_env aad = Ok ''secret''"
proof -
  show "request_blob sample_sys (le_req sample_load) = Ok (sample_creds, ''blob'')"
    by (simp add: request_blob_def sample_load_def MAX_CIPHERTEXT_BYTES_def)
  show "is_envelope sample_sys ''blob''"
    by code_simp
  show "parse_envelope (de_envelope sample_sys) ''blob'' = Ok sample_env"
    by code_simp
  show "decrypt_with_dek sample_sys (replicate 32 (CHR ''k'')) sample_env aad = Ok ''secret''"
    by (simp add: decrypt_with_dek_def sample_env_def sample_sys_def sample_enclave_def sample_ext_def DEK_LEN_def NONCE_LEN_def
        enclave_ext.defs externals.defs kms_ext.defs enclave_sys.defs)
qed

lemma sample_kms_releases:
  assumes "ri_customer_id i = ''c''" "venue \<in> {''binance'', ''hyperliquid_main'', ''asterdex''}"
  shows "kms_client_decrypt sample_sys sample_creds w (Some (encryption_context i venue)) = Ok (replicate 32 (CHR ''k''))"
proof -
  have "\<not> has_whitespace ''customer_id''" "\<not> has_whitespace ''c''" "\<not> has_whitespace ''venue_id''"
    "\<not> has_whitespace ''binance''" "\<not> has_whitespace ''hyperliquid_main''" "\<not> has_whitespace ''asterdex''"
    by (intro has_whitespace_graphic, code_simp)+
  then have "is_ok (context_args (encryption_context i venue))"
    using assms by (auto simp: encryption_context_def validate_context_pair_def has_forbidden_def result_simps)
  moreover have "is_ok (build_stdin_secrets sample_creds None)"
    by code_simp
  moreover have "list_all graphic (''PLAINTEXT:'' @ replicate 32 (CHR ''k''))" "utf8_valid (''PLAINTEXT:'' @ replicate 32 (CHR ''k''))"
    "str_lines (''PLAINTEXT:'' @ replicate 32 (CHR ''k'')) = [''PLAINTEXT:'' @ replicate 32 (CHR ''k'')]"
    by code_simp+
  then have "parse_kmstool_stdout (''PLAINTEXT:'' @ replicate 32 (CHR ''k'')) = Some (replicate 32 (CHR ''k''))"
    by (simp only: parse_kmstool_stdout_def parse_kmstool_line_def first_value.simps line_value_graphic option.case if_True)
  then have "decrypt_output sample_sys \<lparr>ko_success = True, ko_stdout = ''PLAINTEXT:'' @ replicate 32 (CHR ''k''), ko_stderr = []\<rparr>
      = Ok (replicate 32 (CHR ''k''))"
    by (simp only: decrypt_output_def kms_output.simps) (simp add: result_simps)
  moreover have "sort_key fst (encryption_context i v) = encryption_context i v" for i v
    by (simp add: encryption_context_def)
  ultimately show ?thesis
    unfolding kms_client_decrypt_def run_with_stdin_secrets_def sample_sys_fields sample_kmstool_def
    by (auto simp only: result_simps option.case)
qed

lemma sample_load_runs:
  "wrapped_of sample_sys (le_req sample_load) = Some ''W''"
  "fst (load_event sample_sys (sample_load\<lparr>le_kms := \<lambda>_ _. None\<rparr>) (load_run sample_sys [sample_load] (dek_new 60 8)))
     = Ok ''secret''"
proof -
  have key: "ev_wrapped_dek sample_env = ''W''"
    by (simp add: sample_env_def)
  show "wrapped_of sample_sys (le_req sample_load) = Some ''W''"
    by (simp add: wrapped_of_def sample_load_facts key)
  let ?ctx = "encryption_context sample_identity ''binance''" and ?dek = "replicate 32 (CHR ''k'')"
  let ?aad = "sealed_aad sample_identity ''binance'' KEY_VERSION"
  let ?k = "derive_key (sha256 sample_sys) ''W'' (Some ?ctx)"
  let ?c = "(dek_new 60 8)\<lparr>dc_map := [?k \<mapsto> \<lparr>de_dek = ?dek, de_inserted = 1\<rparr>], dc_order := [?k]\<rparr>"
  have event: "load_event sample_sys (sample_load\<lparr>le_kms := k\<rparr>) c
      = load_envelope (sample_sys\<lparr>kmstool := k\<rparr>) sample_draws sample_creds ''blob'' ?ctx ?aad c" for k c
    using sample_load_facts(1,2) by (simp add: load_event_def load_secret_for_def) (simp add: sample_load_def)
  have rel: "kms_client_decrypt sample_sys sample_creds w (Some ?ctx) = Ok ?dek" for w
    by (intro sample_kms_releases) (simp_all add: sample_identity_def)
  have miss: "dek_get ?k 1 (dek_new 60 8) = (Ok None, dek_new 60 8)"
    by (simp add: dek_get_def dek_new_def dek_enabled_def)
  have put: "snd (dek_put ?k ?dek 1 (dek_new 60 8)) = ?c"
    by (simp add: dek_put_def dek_new_def dek_enabled_def clamp_def MAX_ENTRIES_CEILING_def remove_from_order_def)
  obtain c' where hit: "dek_get ?k 1 ?c = (Ok (Some ?dek), c')"
    by (simp add: dek_get_def dek_new_def dek_enabled_def)
  have same: "sample_load = sample_load\<lparr>le_kms := sample_kmstool\<rparr>" "sample_sys = sample_sys\<lparr>kmstool := sample_kmstool\<rparr>"
    by (simp add: sample_load_def) (simp add: sample_sys_def kms_ext.defs enclave_ext.defs)
  have "snd (load_event sample_sys sample_load (dek_new 60 8)) = ?c"
    by (subst same(1), subst event, subst same(2) [symmetric])
      (simp add: load_envelope_def sample_load_facts key sample_draws_def miss obtain_dek_def dek_cache_miss_decrypt_def
        kms_decrypt_def rel put Let_def del: One_nat_def)
  then show "fst (load_event sample_sys (sample_load\<lparr>le_kms := \<lambda>_ _. None\<rparr>) (load_run sample_sys [sample_load] (dek_new 60 8)))
     = Ok ''secret''"
    using hit by (simp add: event load_envelope_def sample_load_facts key sample_draws_def obtain_dek_def Let_def
        del: One_nat_def)
qed

text \<open>A second load of the same blob, with KMS unreachable, is served from the cache.\<close>

theorem cache_respects_tenants_witness:
  "\<exists>dek n ct. (''W'', ''c'', ''binance'', dek) \<in> released sample_sys [sample_load, sample_load\<lparr>le_kms := \<lambda>_ _. None\<rparr>]
     \<and> aes_open sample_sys dek n ct (sealed_aad sample_identity ''binance'' KEY_VERSION) = Some ''secret''"
proof -
  let ?e = "sample_load\<lparr>le_kms := \<lambda>_ _. None\<rparr>"
  have ids: "le_identity sample_load = sample_identity" "le_venue sample_load = ''binance''"
    "ri_customer_id sample_identity = ''c''"
    by (simp_all add: sample_load_def sample_identity_def)
  have "is_safe_id ''c''" "is_safe_id ''binance''"
    by code_simp+
  then have "list_all (wf_event sample_sys) ([sample_load] @ [?e])"
    by (simp add: wf_event_def ids sample_load_runs)
  moreover have "preimages sample_sys ([sample_load] @ [?e]) \<subseteq> {event_key sample_load ''W''}"
    by (auto simp: preimages_def sample_load_runs event_key_def)
  then have "inj_on (sha256 sample_sys) (preimages sample_sys ([sample_load] @ [?e]))"
    by (rule inj_on_subset [rotated]) simp
  moreover have "fst (load_event sample_sys ?e (load_run sample_sys [sample_load] (dek_new 60 8))) = Ok ''secret''"
    by (rule sample_load_runs)
  moreover have "wrapped_of sample_sys (le_req ?e) = Some ''W''"
    using sample_load_runs(1) by simp
  ultimately show ?thesis
    using cache_respects_tenants [of sample_sys ?e "[sample_load]" 60 8 "''secret''" "''W''"] ids by simp
qed

end
