(* ===== verification/Decimal.thy ===== *)
theory Decimal
  imports Prelude
begin

text \<open>
  The decimal-string arithmetic of \<^verbatim>\<open>enclave/src/signer.rs\<close> on which every
  size and notional cap rests: \<^verbatim>\<open>decimal_digits\<close>, the schoolbook \<^verbatim>\<open>mul_digits\<close>
  and \<^verbatim>\<open>add_digits\<close>, \<^verbatim>\<open>cmp_scaled\<close> and the four comparisons built from them.
  Digit vectors are most-significant-first lists of naturals, as in the code;
  the \<^verbatim>\<open>u8\<close> and \<^verbatim>\<open>u32\<close> cells are naturals, with lemmas that bound every
  intermediate value below the width.  The lemmas show that each routine is
  exact rational arithmetic on the accepted strings, and which strings are
  accepted.
\<close>

section \<open>The operations\<close>

datatype decimal_error = EmptyDecimal | TooLong | BadByte | ManyDots | NoDigits

definition MAX_NOTIONAL_OPERAND_LEN :: nat where
  "MAX_NOTIONAL_OPERAND_LEN = 64"

text \<open>\<^verbatim>\<open>digits.drain(..nz)\<close> for the first non-zero position \<^verbatim>\<open>nz\<close>.\<close>

definition strip_zeros :: "nat list \<Rightarrow> nat list" where
  "strip_zeros = dropWhile (\<lambda>d. d = 0)"

definition decimal_digits :: "bytes \<Rightarrow> (decimal_error, nat list \<times> nat) result" where
  "decimal_digits s =
     (if s = [] then Err EmptyDecimal
      else if length s > MAX_NOTIONAL_OPERAND_LEN then Err TooLong
      else if list_ex (\<lambda>c. \<not> is_ascii_digit c \<and> c \<noteq> CHR ''.'') s then Err BadByte
      else if length (filter (\<lambda>c. c = CHR ''.'') s) > 1 then Err ManyDots
      else if \<not> list_ex is_ascii_digit s then Err NoDigits
      else
        let (int_part, frac) = (case split_once CHR ''.'' s of Some (i, f) \<Rightarrow> (i, f) | None \<Rightarrow> (s, []))
        in Ok (strip_zeros (map digit_val (int_part @ frac)), length frac))"

text \<open>The accumulation loops of \<^verbatim>\<open>mul_digits\<close>; both operands least significant digit first.\<close>

fun mul_row :: "nat \<Rightarrow> nat list \<Rightarrow> nat \<Rightarrow> nat list \<Rightarrow> nat list" where
  "mul_row da [] k acc = acc"
| "mul_row da (db # bs) k acc = mul_row da bs (Suc k) (acc[k := acc ! k + da * db])"

fun mul_acc :: "nat list \<Rightarrow> nat list \<Rightarrow> nat \<Rightarrow> nat list \<Rightarrow> nat list" where
  "mul_acc [] bs i acc = acc"
| "mul_acc (da # as) bs i acc = mul_acc as bs (Suc i) (mul_row da bs i acc)"

fun carry_pass :: "nat \<Rightarrow> nat list \<Rightarrow> nat list \<times> nat" where
  "carry_pass carry [] = ([], carry)"
| "carry_pass carry (cell # cells) =
     (let v = cell + carry; (rest, c) = carry_pass (v div 10) cells in (v mod 10 # rest, c))"

definition mul_digits :: "nat list \<Rightarrow> nat list \<Rightarrow> nat list" where
  "mul_digits a b =
     (if a = [] \<or> b = [] then []
      else strip_zeros (rev (fst (carry_pass 0
             (mul_acc (rev a) (rev b) 0 (replicate (length a + length b) 0))))))"

text \<open>
  The \<open>n\<close> rounds of \<^verbatim>\<open>add_digits\<close>; an exhausted iterator yields 0.
\<close>

fun next_digit :: "nat list \<Rightarrow> nat \<times> nat list" where
  "next_digit [] = (0, [])"
| "next_digit (d # ds) = (d, ds)"

fun add_loop :: "nat \<Rightarrow> nat list \<Rightarrow> nat list \<Rightarrow> nat \<Rightarrow> nat list" where
  "add_loop 0 xi yi carry = (if carry > 0 then [carry] else [])"
| "add_loop (Suc n) xi yi carry =
     (let (x, xi') = next_digit xi; (y, yi') = next_digit yi; s = x + y + carry
      in s mod 10 # add_loop n xi' yi' (s div 10))"

definition zero_extend :: "nat list \<Rightarrow> nat \<Rightarrow> nat list" where
  "zero_extend x k = (if x = [] then [] else x @ replicate k 0)"

definition add_digits :: "nat list \<Rightarrow> nat \<Rightarrow> nat list \<Rightarrow> nat \<Rightarrow> nat list \<times> nat" where
  "add_digits a a_scale b b_scale =
     (let scale = max a_scale b_scale;
          x = zero_extend a (scale - a_scale);
          y = zero_extend b (scale - b_scale);
          n = max (length x) (length y)
      in (strip_zeros (rev (add_loop n (rev x) (rev y) 0)), scale))"

text \<open>Lexicographic comparison of byte vectors, \<^verbatim>\<open>Ord for Vec<u8>\<close>.\<close>

fun lex_cmp :: "nat list \<Rightarrow> nat list \<Rightarrow> ordering" where
  "lex_cmp [] [] = Equal"
| "lex_cmp [] (y # ys) = Less"
| "lex_cmp (x # xs) [] = Greater"
| "lex_cmp (x # xs) (y # ys) = (if x < y then Less else if x > y then Greater else lex_cmp xs ys)"

definition cmp_scaled :: "nat list \<Rightarrow> nat \<Rightarrow> nat list \<Rightarrow> nat \<Rightarrow> ordering" where
  "cmp_scaled l l_scale r r_scale =
     (let left = (if l_scale < r_scale then zero_extend l (r_scale - l_scale) else l);
          right = (if l_scale > r_scale then zero_extend r (l_scale - r_scale) else r)
      in case cmp_of (length left) (length right) of
           Equal \<Rightarrow> lex_cmp left right
         | ord \<Rightarrow> ord)"

definition cmp_positive_decimals :: "bytes \<Rightarrow> bytes \<Rightarrow> (decimal_error, ordering) result" where
  "cmp_positive_decimals a b =
     try_res (decimal_digits a) (\<lambda>(ad, a_scale).
     try_res (decimal_digits b) (\<lambda>(bd, b_scale).
     Ok (cmp_scaled ad a_scale bd b_scale)))"

definition notional_exceeds :: "bytes \<Rightarrow> bytes \<Rightarrow> bytes \<Rightarrow> (decimal_error, bool) result" where
  "notional_exceeds qty price max_notional =
     try_res (decimal_digits qty) (\<lambda>(qd, qs).
     try_res (decimal_digits price) (\<lambda>(pd, ps).
     try_res (decimal_digits max_notional) (\<lambda>(cd, cs).
     Ok (cmp_scaled (mul_digits qd pd) (qs + ps) cd cs = Greater))))"

fun sum_loop :: "bytes list \<Rightarrow> nat list \<times> nat \<Rightarrow> (decimal_error, nat list \<times> nat) result" where
  "sum_loop [] acc = Ok acc"
| "sum_loop (v # vs) (acc, acc_scale) =
     try_res (decimal_digits v) (\<lambda>(d, s). sum_loop vs (add_digits acc acc_scale d s))"

definition sum_exceeds :: "bytes list \<Rightarrow> bytes \<Rightarrow> (decimal_error, bool) result" where
  "sum_exceeds values cap =
     try_res (decimal_digits cap) (\<lambda>(cd, cs).
     try_res (sum_loop values ([], 0)) (\<lambda>(acc, acc_scale).
     Ok (cmp_scaled acc acc_scale cd cs = Greater)))"

fun notional_sum_loop ::
  "(bytes \<times> bytes) list \<Rightarrow> nat list \<times> nat \<Rightarrow> (decimal_error, nat list \<times> nat) result" where
  "notional_sum_loop [] acc = Ok acc"
| "notional_sum_loop ((qty, price) # ps) (acc, acc_scale) =
     try_res (decimal_digits qty) (\<lambda>(qd, qs).
     try_res (decimal_digits price) (\<lambda>(pd, psc).
     notional_sum_loop ps (add_digits acc acc_scale (mul_digits qd pd) (qs + psc))))"

definition notional_sum_exceeds :: "(bytes \<times> bytes) list \<Rightarrow> bytes \<Rightarrow> (decimal_error, bool) result" where
  "notional_sum_exceeds pairs max_notional =
     try_res (decimal_digits max_notional) (\<lambda>(cd, cs).
     try_res (notional_sum_loop pairs ([], 0)) (\<lambda>(acc, acc_scale).
     Ok (cmp_scaled acc acc_scale cd cs = Greater)))"


section \<open>Values of digit vectors\<close>

definition num_val :: "nat list \<Rightarrow> nat" where
  "num_val ds = foldl (\<lambda>n d. 10 * n + d) 0 ds"

fun lsd_val :: "nat list \<Rightarrow> nat" where
  "lsd_val [] = 0"
| "lsd_val (d # ds) = d + 10 * lsd_val ds"

text \<open>The shape every vector handed to \<^const>\<open>cmp_scaled\<close> has: decimal digits, no leading zero.\<close>

definition wf_digits :: "nat list \<Rightarrow> bool" where
  "wf_digits ds \<longleftrightarrow> (\<forall>d \<in> set ds. d < 10) \<and> (ds \<noteq> [] \<longrightarrow> hd ds \<noteq> 0)"

definition scaled_val :: "nat list \<times> nat \<Rightarrow> rat" where
  "scaled_val = (\<lambda>(ds, sc). of_nat (num_val ds) / 10 ^ sc)"

lemma num_val_simps [simp]:
  "num_val [] = 0"
  "num_val (ds @ [d]) = 10 * num_val ds + d"
  by (simp_all add: num_val_def)

lemma num_val_append: "num_val (xs @ ys) = num_val xs * 10 ^ length ys + num_val ys"
proof (induction ys rule: rev_induct)
  case (snoc y ys)
  then show ?case
    by (simp flip: append_assoc add: algebra_simps)
qed simp

lemma num_val_Cons: "num_val (d # ds) = d * 10 ^ length ds + num_val ds"
  using num_val_append [of "[d]" ds] num_val_simps(2) [of "[]" d] by simp

lemma num_val_zeros [simp]: "num_val (replicate k 0) = 0"
  by (induction k) (simp_all add: num_val_Cons)

lemma num_val_digits: "num_val (map digit_val s) = dec_val s"
  by (induction s rule: rev_induct) simp_all

lemma lsd_val_rev: "lsd_val (rev ds) = num_val ds"
proof -
  have "lsd_val ds = num_val (rev ds)" for ds
    by (induction ds) simp_all
  from this [of "rev ds"] show ?thesis by simp
qed

lemma num_val_rev: "num_val (rev ds) = lsd_val ds"
  by (metis lsd_val_rev rev_rev_ident)

lemma num_val_strip [simp]: "num_val (strip_zeros ds) = num_val ds"
  by (induction ds) (simp_all add: strip_zeros_def num_val_Cons)

lemma wf_digits_strip: "\<forall>d \<in> set ds. d < 10 \<Longrightarrow> wf_digits (strip_zeros ds)"
  by (induction ds) (auto simp: wf_digits_def strip_zeros_def)

lemma wf_digits_Nil [simp]: "wf_digits []"
  by (simp add: wf_digits_def)

lemma num_val_bound: "\<forall>d \<in> set ds. d < 10 \<Longrightarrow> num_val ds < 10 ^ length ds"
  by (induction ds rule: rev_induct) auto

lemma num_val_lower: "wf_digits ds \<Longrightarrow> ds \<noteq> [] \<Longrightarrow> 10 ^ (length ds - 1) \<le> num_val ds"
  by (cases ds) (auto simp: wf_digits_def num_val_Cons intro: trans_le_add1)

lemma num_val_zero_extend [simp]: "num_val (zero_extend ds k) = num_val ds * 10 ^ k"
  by (simp add: zero_extend_def num_val_append)

lemma wf_digits_zero_extend: "wf_digits ds \<Longrightarrow> wf_digits (zero_extend ds k)"
  by (auto simp: zero_extend_def wf_digits_def)

section \<open>Multiplication and addition\<close>

lemma lsd_val_zeros [simp]: "lsd_val (replicate k 0) = 0"
  by (induction k) simp_all

lemma lsd_val_update:
  "k < length acc \<Longrightarrow> lsd_val (acc[k := acc ! k + z]) = lsd_val acc + z * 10 ^ k"
  by (induction acc arbitrary: k) (auto simp: nth_Cons split: nat.splits)

lemma mul_row_length [simp]: "length (mul_row da bs k acc) = length acc"
  by (induction da bs k acc rule: mul_row.induct) simp_all

lemma mul_acc_length [simp]: "length (mul_acc as bs i acc) = length acc"
  by (induction as bs i acc rule: mul_acc.induct) simp_all

lemma mul_row_val:
  "k + length bs \<le> length acc \<Longrightarrow>
   lsd_val (mul_row da bs k acc) = lsd_val acc + da * lsd_val bs * 10 ^ k"
  by (induction da bs k acc rule: mul_row.induct)
     (simp_all add: lsd_val_update distrib_left distrib_right mult.assoc mult.left_commute)

lemma mul_acc_val:
  "i + length as + length bs \<le> length acc \<Longrightarrow>
   lsd_val (mul_acc as bs i acc) = lsd_val acc + lsd_val as * lsd_val bs * 10 ^ i"
  by (induction as bs i acc rule: mul_acc.induct) (simp_all add: mul_row_val algebra_simps)

lemma carry_pass_props:
  "carry_pass c cells = (ds, c') \<Longrightarrow>
   lsd_val ds + c' * 10 ^ length cells = lsd_val cells + c \<and> length ds = length cells \<and> (\<forall>d \<in> set ds. d < 10)"
proof (induction c cells arbitrary: ds c' rule: carry_pass.induct)
  case (2 carry cell cells)
  obtain rest where rest: "carry_pass ((cell + carry) div 10) cells = (rest, c')"
    and ds: "ds = (cell + carry) mod 10 # rest"
    using "2.prems" by (auto simp: Let_def split: prod.splits)
  have IH: "lsd_val rest + c' * 10 ^ length cells = lsd_val cells + (cell + carry) div 10"
    "length rest = length cells" "\<forall>d \<in> set rest. d < 10"
    using "2.IH" [OF refl rest] by auto
  have "lsd_val ds + c' * 10 ^ length (cell # cells)
      = (cell + carry) mod 10 + 10 * (lsd_val rest + c' * 10 ^ length cells)"
    by (simp add: ds algebra_simps)
  also have "\<dots> = lsd_val (cell # cells) + carry"
    by (simp add: IH(1) algebra_simps)
  finally show ?case
    using IH ds by auto
qed simp


text \<open>The accumulator is large enough: the last carry, which the code asserts to be 0, is 0.\<close>

lemma mul_final_carry:
  assumes "\<forall>d \<in> set a. d < 10" "\<forall>d \<in> set b. d < 10" "a \<noteq> []"
    and "carry_pass 0 (mul_acc (rev a) (rev b) 0 (replicate (length a + length b) 0)) = (ds, c)"
  shows "c = 0 \<and> lsd_val ds = num_val a * num_val b \<and> (\<forall>d \<in> set ds. d < 10)"
proof -
  let ?n = "length a + length b"
  have sum: "lsd_val ds + c * 10 ^ ?n = num_val a * num_val b" and small: "\<forall>d \<in> set ds. d < 10"
    using carry_pass_props [OF assms(4)] by (simp_all add: mul_acc_val lsd_val_rev)
  have "num_val a * num_val b < 10 ^ length a * 10 ^ length b"
    using num_val_bound assms(1,2) by (intro mult_strict_mono) auto
  then have "num_val a * num_val b < 10 ^ ?n"
    by (simp add: power_add)
  then have "c * 10 ^ ?n < 1 * 10 ^ ?n"
    using sum by linarith
  then have "c = 0"
    by simp
  then show ?thesis
    using sum small by simp
qed

lemma mul_digits_val:
  assumes "wf_digits a" "wf_digits b"
  shows "num_val (mul_digits a b) = num_val a * num_val b" "wf_digits (mul_digits a b)"
proof -
  obtain ds c where cp:
    "carry_pass 0 (mul_acc (rev a) (rev b) 0 (replicate (length a + length b) 0)) = (ds, c)"
    by (cases "carry_pass 0 (mul_acc (rev a) (rev b) 0 (replicate (length a + length b) 0))") auto
  have ds: "lsd_val ds = num_val a * num_val b" "\<forall>d \<in> set ds. d < 10" if "a \<noteq> []"
    using mul_final_carry [OF _ _ that cp] assms by (simp_all add: wf_digits_def)
  have body: "mul_digits a b = (if a = [] \<or> b = [] then [] else strip_zeros (rev ds))"
    by (simp add: mul_digits_def cp)
  show "num_val (mul_digits a b) = num_val a * num_val b"
    by (simp add: body num_val_rev ds(1))
  show "wf_digits (mul_digits a b)"
    by (simp add: body wf_digits_strip ds(2))
qed

lemma add_loop_val:
  "length xi \<le> n \<Longrightarrow> length yi \<le> n \<Longrightarrow>
   lsd_val (add_loop n xi yi c) = lsd_val xi + lsd_val yi + c"
proof (induction n arbitrary: xi yi c)
  case (Suc n)
  obtain x xi' where x: "next_digit xi = (x, xi')" by fastforce
  obtain y yi' where y: "next_digit yi = (y, yi')" by fastforce
  have step: "lsd_val xi = x + 10 * lsd_val xi'" "lsd_val yi = y + 10 * lsd_val yi'"
    "length xi' \<le> n" "length yi' \<le> n"
    using x y Suc.prems by (cases xi; cases yi; simp)+
  show ?case
    by (simp add: x y step Let_def Suc.IH)
qed auto

lemma add_loop_digits:
  "c \<le> 1 \<Longrightarrow> \<forall>d \<in> set xi. d < 10 \<Longrightarrow> \<forall>d \<in> set yi. d < 10 \<Longrightarrow>
   \<forall>d \<in> set (add_loop n xi yi c). d < 10"
proof (induction n arbitrary: xi yi c)
  case (Suc n)
  obtain x xi' where x: "next_digit xi = (x, xi')" by fastforce
  obtain y yi' where y: "next_digit yi = (y, yi')" by fastforce
  have step: "x < 10" "y < 10" "\<forall>d \<in> set xi'. d < 10" "\<forall>d \<in> set yi'. d < 10"
    using x y Suc.prems by (cases xi; cases yi; auto)+
  then have "(x + y + c) div 10 \<le> 1"
    using Suc.prems(1) by linarith
  then show ?case
    using Suc.IH [of "(x + y + c) div 10" xi' yi'] x y step by (simp add: Let_def)
qed auto

lemma add_digits_val:
  assumes "wf_digits a" "wf_digits b"
  shows "scaled_val (add_digits a sa b sb) = scaled_val (a, sa) + scaled_val (b, sb)"
    "wf_digits (fst (add_digits a sa b sb))"
proof -
  let ?m = "max sa sb"
  let ?x = "zero_extend a (?m - sa)" and ?y = "zero_extend b (?m - sb)"
  have val: "num_val (fst (add_digits a sa b sb)) = num_val a * 10 ^ (?m - sa) + num_val b * 10 ^ (?m - sb)"
    by (simp add: add_digits_def Let_def num_val_rev add_loop_val lsd_val_rev)
  have scale: "(of_nat (n * 10 ^ (?m - s)) :: rat) / 10 ^ ?m = of_nat n / 10 ^ s" if "s \<le> ?m" for n s
  proof -
    have "(10::rat) ^ ?m = 10 ^ s * 10 ^ (?m - s)"
      using that by (simp flip: power_add)
    then show ?thesis by (simp add: field_simps)
  qed
  have "scaled_val (add_digits a sa b sb) = of_nat (num_val (fst (add_digits a sa b sb))) / 10 ^ ?m"
    by (simp add: scaled_val_def add_digits_def Let_def)
  also have "\<dots> = scaled_val (a, sa) + scaled_val (b, sb)"
    using scale [of sa "num_val a"] scale [of sb "num_val b"]
    by (simp add: val scaled_val_def add_divide_distrib)
  finally show "scaled_val (add_digits a sa b sb) = scaled_val (a, sa) + scaled_val (b, sb)" .
  have "\<forall>d \<in> set ?x. d < 10" "\<forall>d \<in> set ?y. d < 10"
    using assms wf_digits_zero_extend by (auto simp: wf_digits_def)
  then show "wf_digits (fst (add_digits a sa b sb))"
    using add_loop_digits [of 0 "rev ?x" "rev ?y"]
    by (simp add: add_digits_def Let_def wf_digits_strip)
qed

section \<open>Comparison\<close>

lemma lex_cmp_val:
  "length l = length r \<Longrightarrow> \<forall>d \<in> set l. d < 10 \<Longrightarrow> \<forall>d \<in> set r. d < 10 \<Longrightarrow>
   lex_cmp l r = cmp_of (num_val l) (num_val r)"
proof (induction l r rule: list_induct2)
  case Nil
  then show ?case by (simp add: cmp_of_def)
next
  case (Cons x xs y ys)
  have lt: "a * 10 ^ length xs + num_val us < b * 10 ^ length xs + num_val vs"
    if "a < b" "num_val us < 10 ^ length xs" for a b us vs
  proof -
    have "(a + 1) * 10 ^ length xs \<le> b * 10 ^ length xs"
      using that by (intro mult_le_mono1) simp
    then show ?thesis using that by simp
  qed
  have "num_val xs < 10 ^ length xs" "num_val ys < 10 ^ length xs"
    using Cons num_val_bound [of xs] num_val_bound [of ys] by auto
  then show ?case
    using Cons lt [of x y xs ys] lt [of y x ys xs]
    by (auto simp: num_val_Cons cmp_of_def)
qed

lemma length_less_val:
  assumes "wf_digits l" "wf_digits r" "length l < length r"
  shows "num_val l < num_val r"
proof -
  have "num_val l < 10 ^ length l"
    using assms num_val_bound by (auto simp: wf_digits_def)
  also have "(10::nat) ^ length l \<le> 10 ^ (length r - 1)"
    using assms by (intro power_increasing) auto
  also have "\<dots> \<le> num_val r"
    using assms by (intro num_val_lower) auto
  finally show ?thesis .
qed

lemma length_lex_val:
  assumes "wf_digits l" "wf_digits r"
  shows "(case cmp_of (length l) (length r) of Equal \<Rightarrow> lex_cmp l r | ord \<Rightarrow> ord)
       = cmp_of (num_val l) (num_val r)"
proof (cases "length l" "length r" rule: linorder_cases)
  case less
  then show ?thesis
    using length_less_val [OF assms] by (simp add: cmp_of_def)
next
  case equal
  then show ?thesis
    using lex_cmp_val assms by (simp add: cmp_of_def wf_digits_def)
next
  case greater
  then show ?thesis
    using length_less_val [OF assms(2,1)] by (simp add: cmp_of_def)
qed

lemma cmp_of_div_of_nat:
  "cmp_of ((of_nat a :: rat) / 10 ^ m) (of_nat b / 10 ^ m) = cmp_of a b"
  by (simp add: cmp_of_def divide_less_cancel)

lemma cmp_of_scaled:
  "k \<le> m \<Longrightarrow> cmp_of (a * 10 ^ (m - k)) b = cmp_of ((of_nat a :: rat) / 10 ^ k) (of_nat b / 10 ^ m)"
proof -
  assume "k \<le> m"
  then have ten: "(10::rat) ^ m = 10 ^ k * 10 ^ (m - k)"
    by (simp flip: power_add)
  have "(of_nat a :: rat) / 10 ^ k = of_nat (a * 10 ^ (m - k)) / 10 ^ m"
    by (simp add: ten field_simps)
  then show ?thesis
    by (simp only: cmp_of_div_of_nat)
qed

lemma cmp_of_swap: "cmp_of a b = (case cmp_of b a of Less \<Rightarrow> Greater | Equal \<Rightarrow> Equal | Greater \<Rightarrow> Less)"
  by (auto simp: cmp_of_def)

lemma cmp_scaled_val:
  assumes "wf_digits l" "wf_digits r"
  shows "cmp_scaled l ls r rs = cmp_of (scaled_val (l, ls)) (scaled_val (r, rs))"
proof (cases ls rs rule: linorder_cases)
  case less
  then show ?thesis
    using assms by (simp add: cmp_scaled_def length_lex_val wf_digits_zero_extend cmp_of_scaled scaled_val_def)
next
  case equal
  then show ?thesis
    using assms by (simp add: cmp_scaled_def length_lex_val scaled_val_def cmp_of_div_of_nat)
next
  case greater
  then show ?thesis
    using assms cmp_of_scaled [of rs ls "num_val r" "num_val l"]
    unfolding cmp_of_swap [of "scaled_val (l, ls)"]
    by (simp add: cmp_scaled_def length_lex_val wf_digits_zero_extend scaled_val_def)
       (subst cmp_of_swap, simp)
qed


section \<open>Decimal strings and their values\<close>

text \<open>
  The language the parser accepts, as a grammar: digits with at most one dot
  among them, at least one digit, at most 64 bytes.  \<open>dec_rat\<close> is the number
  such a string denotes.
\<close>

definition decimal_string :: "bytes \<Rightarrow> bool" where
  "decimal_string s \<longleftrightarrow> length s \<le> MAX_NOTIONAL_OPERAND_LEN \<and>
     (\<exists>i f. i @ f \<noteq> [] \<and> (\<forall>c \<in> set (i @ f). is_ascii_digit c) \<and> (s = i \<and> f = [] \<or> s = i @ CHR ''.'' # f))"

definition dec_rat :: "bytes \<Rightarrow> rat" where
  "dec_rat s = (case split_once CHR ''.'' s of
       None \<Rightarrow> of_nat (dec_val s)
     | Some (i, f) \<Rightarrow> of_nat (dec_val i) + of_nat (dec_val f) / 10 ^ length f)"

lemma dot_not_digit [simp]: "\<not> is_ascii_digit CHR ''.''"
  by (simp add: is_ascii_digit_def)

lemma digits_no_dot: "\<forall>c \<in> set s. is_ascii_digit c \<Longrightarrow> CHR ''.'' \<notin> set s"
  using dot_not_digit by blast

lemma digits_filter_dot: "\<forall>c \<in> set s. is_ascii_digit c \<Longrightarrow> filter (\<lambda>c. c = CHR ''.'') s = []"
  using digits_no_dot by (auto simp: filter_empty_conv)

lemma dec_rat_nonneg [simp]: "0 \<le> dec_rat s"
  by (simp add: dec_rat_def split: option.splits prod.splits)

lemma digits_scaled:
  assumes "\<forall>c \<in> set (i @ f). is_ascii_digit c"
  shows "wf_digits (strip_zeros (map digit_val (i @ f)))"
    "scaled_val (strip_zeros (map digit_val (i @ f)), length f)
       = of_nat (dec_val i) + of_nat (dec_val f) / 10 ^ length f"
proof -
  show "wf_digits (strip_zeros (map digit_val (i @ f)))"
    using assms digit_byte_minus by (intro wf_digits_strip) (auto simp: digit_val_def)
  have "num_val (map digit_val (i @ f)) = dec_val i * 10 ^ length f + dec_val f"
    by (simp only: num_val_digits dec_val_append)
  then show "scaled_val (strip_zeros (map digit_val (i @ f)), length f)
       = of_nat (dec_val i) + of_nat (dec_val f) / 10 ^ length f"
    by (simp add: scaled_val_def add_divide_distrib del: map_append)
qed

lemma decimal_digits_ok:
  assumes "decimal_string s"
  obtains ds sc where "decimal_digits s = Ok (ds, sc)" "wf_digits ds" "scaled_val (ds, sc) = dec_rat s"
proof -
  from assms obtain i f where shape: "i @ f \<noteq> []" "\<forall>c \<in> set (i @ f). is_ascii_digit c"
    "s = i \<and> f = [] \<or> s = i @ CHR ''.'' # f" and len: "length s \<le> MAX_NOTIONAL_OPERAND_LEN"
    by (auto simp: decimal_string_def)
  have nodot: "CHR ''.'' \<notin> set i" "filter (\<lambda>c. c = CHR ''.'') i = []" "filter (\<lambda>c. c = CHR ''.'') f = []"
    using shape(2) digits_no_dot digits_filter_dot by auto
  have once: "(case split_once CHR ''.'' s of Some (i, f) \<Rightarrow> (i, f) | None \<Rightarrow> (s, [])) = (i, f)"
    and rat: "dec_rat s = of_nat (dec_val i) + of_nat (dec_val f) / 10 ^ length f"
    using shape(3) nodot split_once_append [of "CHR ''.''" i f] split_once_None [of "CHR ''.''" i]
    by (auto simp: dec_rat_def)
  have some: "list_ex is_ascii_digit s" and ok: "\<not> list_ex (\<lambda>c. \<not> is_ascii_digit c \<and> c \<noteq> CHR ''.'') s"
    and dots: "\<not> length (filter (\<lambda>c. c = CHR ''.'') s) > 1" and ne: "s \<noteq> []"
    using shape nodot by (cases i; cases f; auto simp: list_ex_iff)+
  have "decimal_digits s = Ok (strip_zeros (map digit_val (i @ f)), length f)"
    using len some ok dots ne once by (simp add: decimal_digits_def del: map_append)
  then show thesis
    using that digits_scaled [OF shape(2)] rat by simp
qed

lemma decimal_digits_OkD:
  assumes "decimal_digits s = Ok r"
  shows "decimal_string s"
proof -
  let ?d = "CHR ''.''"
  have len: "length s \<le> MAX_NOTIONAL_OPERAND_LEN"
    and cs: "\<forall>c \<in> set s. is_ascii_digit c \<or> c = ?d"
    and dots: "length (filter (\<lambda>c. c = ?d) s) \<le> 1"
    and some: "\<exists>c \<in> set s. is_ascii_digit c"
    using assms by (auto simp: decimal_digits_def list_ex_iff split: if_splits)
  have "\<exists>i f. i @ f \<noteq> [] \<and> (\<forall>c \<in> set (i @ f). is_ascii_digit c) \<and> (s = i \<and> f = [] \<or> s = i @ ?d # f)"
  proof (cases "split_once ?d s")
    case None
    then have "\<forall>c \<in> set s. is_ascii_digit c"
      using cs split_once_None by blast
    then show ?thesis
      using some by (intro exI [of _ s] exI [of _ "[]"]) auto
  next
    case (Some p)
    then obtain i f where s: "s = i @ ?d # f" and i: "?d \<notin> set i"
      by (cases p) (auto dest: split_once_SomeD)
    have "filter (\<lambda>c. c = ?d) f = []"
      using dots by (auto simp: s)
    then have "\<forall>c \<in> set (i @ f). is_ascii_digit c"
      using cs i by (auto simp: s filter_empty_conv)
    moreover have "i @ f \<noteq> []"
      using some by (auto simp: s)
    ultimately show ?thesis
      using s by blast
  qed
  then show ?thesis
    using len by (simp add: decimal_string_def)
qed

lemma decimal_digits_err: "\<not> decimal_string s \<Longrightarrow> \<exists>e. decimal_digits s = Err e"
  using decimal_digits_OkD by (cases "decimal_digits s") auto


section \<open>The comparisons are exact\<close>

text \<open>
  Folding the exact addition over a list: the contract shared by the size and
  the notional accumulators.
\<close>

definition acc_exact :: "nat list \<times> nat \<Rightarrow> rat \<Rightarrow> bool" where
  "acc_exact acc v \<longleftrightarrow> wf_digits (fst acc) \<and> scaled_val acc = v"

lemma acc_exact_start [simp]: "acc_exact ([], 0) 0"
  by (simp add: acc_exact_def scaled_val_def)

lemma acc_exact_add:
  assumes "acc_exact (acc, sc) v" "wf_digits d" "scaled_val (d, s) = w"
  shows "acc_exact (add_digits acc sc d s) (v + w)"
  using assms add_digits_val [of acc d sc s] by (simp add: acc_exact_def)

lemma scaled_val_mul:
  assumes "wf_digits a" "wf_digits b"
  shows "scaled_val (mul_digits a b, sa + sb) = scaled_val (a, sa) * scaled_val (b, sb)"
  using assms by (simp add: scaled_val_def mul_digits_val power_add)

lemma cmp_acc_exact:
  "acc_exact (acc, sc) v \<Longrightarrow> wf_digits cd \<Longrightarrow>
   cmp_scaled acc sc cd cs = Greater \<longleftrightarrow> v > scaled_val (cd, cs)"
  by (auto simp: acc_exact_def cmp_scaled_val)

lemma sum_loop_ok:
  "list_all decimal_string vs \<Longrightarrow> acc_exact acc v \<Longrightarrow>
   \<exists>acc'. sum_loop vs acc = Ok acc' \<and> acc_exact acc' (v + sum_list (map dec_rat vs))"
proof (induction vs arbitrary: acc v)
  case (Cons x xs)
  obtain d s where d: "decimal_digits x = Ok (d, s)" "wf_digits d" "scaled_val (d, s) = dec_rat x"
    using Cons.prems decimal_digits_ok by (metis list.pred_inject(2))
  show ?case
    using Cons.IH [of "add_digits (fst acc) (snd acc) d s" "v + dec_rat x"] Cons.prems d
      acc_exact_add [of "fst acc" "snd acc" v d s]
    by (cases acc) (simp add: add.assoc)
qed simp

lemma sum_loop_OkD: "sum_loop vs acc = Ok r \<Longrightarrow> list_all decimal_string vs"
  by (induction vs acc rule: sum_loop.induct) (auto simp: result_simps dest: decimal_digits_OkD)

abbreviation pair_ok :: "bytes \<times> bytes \<Rightarrow> bool" where
  "pair_ok p \<equiv> decimal_string (fst p) \<and> decimal_string (snd p)"

abbreviation pair_val :: "bytes \<times> bytes \<Rightarrow> rat" where
  "pair_val p \<equiv> dec_rat (fst p) * dec_rat (snd p)"

lemma notional_sum_loop_ok:
  "list_all pair_ok ps \<Longrightarrow> acc_exact acc v \<Longrightarrow>
   \<exists>acc'. notional_sum_loop ps acc = Ok acc' \<and> acc_exact acc' (v + sum_list (map pair_val ps))"
proof (induction ps arbitrary: acc v)
  case (Cons x xs)
  obtain q p where x: "x = (q, p)" by fastforce
  obtain qd qs where q: "decimal_digits q = Ok (qd, qs)" "wf_digits qd" "scaled_val (qd, qs) = dec_rat q"
    using Cons.prems decimal_digits_ok by (metis fst_conv list.pred_inject(2) x)
  obtain pd ps where p: "decimal_digits p = Ok (pd, ps)" "wf_digits pd" "scaled_val (pd, ps) = dec_rat p"
    using Cons.prems decimal_digits_ok by (metis snd_conv list.pred_inject(2) x)
  have m: "wf_digits (mul_digits qd pd)" "scaled_val (mul_digits qd pd, qs + ps) = pair_val x"
    using q p by (simp_all add: x mul_digits_val scaled_val_mul)
  show ?case
    using Cons.IH [of "add_digits (fst acc) (snd acc) (mul_digits qd pd) (qs + ps)" "v + pair_val x"]
      Cons.prems q(1) p(1) acc_exact_add [OF _ m, of "fst acc" "snd acc" v]
    by (cases acc) (simp add: x add.assoc)
qed simp

lemma notional_sum_loop_OkD: "notional_sum_loop ps acc = Ok r \<Longrightarrow> list_all pair_ok ps"
  by (induction ps acc rule: notional_sum_loop.induct) (auto simp: result_simps dest: decimal_digits_OkD)

text \<open>
  What a policy check may rely on: a comparison of a batch against a cap that
  is exact on well-formed operands and an error on all others.
\<close>

locale exact_total =
  fixes item_ok :: "'a \<Rightarrow> bool"
    and item_val :: "'a \<Rightarrow> rat"
    and exceeds :: "'a list \<Rightarrow> bytes \<Rightarrow> (decimal_error, bool) result"
  assumes exact: "exceeds xs cap = Ok b \<longleftrightarrow>
      decimal_string cap \<and> list_all item_ok xs \<and> b = (dec_rat cap < sum_list (map item_val xs))"
    and nonneg: "0 \<le> item_val x"
begin

lemma within: "exceeds xs cap = Ok False \<Longrightarrow> sum_list (map item_val xs) \<le> dec_rat cap"
  by (simp add: exact not_less)

lemma item_within:
  assumes "exceeds xs cap = Ok False" "x \<in> set xs"
  shows "item_val x \<le> dec_rat cap"
proof -
  have "item_val x \<le> sum_list (map item_val xs)"
    using assms(2) nonneg by (intro member_le_sum_list) auto
  then show ?thesis using within [OF assms(1)] by simp
qed

lemma error_iff: "(\<exists>e. exceeds xs cap = Err e) \<longleftrightarrow> \<not> (decimal_string cap \<and> list_all item_ok xs)"
  using exact [of xs cap "dec_rat cap < sum_list (map item_val xs)"] exact [of xs cap]
  by (cases "exceeds xs cap") auto

lemma empty_within: "decimal_string cap \<Longrightarrow> exceeds [] cap = Ok False"
  by (simp add: exact not_less)

end

lemma sum_exceeds_exact:
  "sum_exceeds vs cap = Ok b \<longleftrightarrow>
     decimal_string cap \<and> list_all decimal_string vs \<and> b = (dec_rat cap < sum_list (map dec_rat vs))"
proof (cases "decimal_string cap \<and> list_all decimal_string vs")
  case True
  then obtain cd cs where c: "decimal_digits cap = Ok (cd, cs)" "wf_digits cd" "scaled_val (cd, cs) = dec_rat cap"
    using decimal_digits_ok by metis
  obtain acc where acc: "sum_loop vs ([], 0) = Ok acc" "acc_exact acc (sum_list (map dec_rat vs))"
    using sum_loop_ok [of vs "([], 0)" 0] True by auto
  then show ?thesis
    using True c cmp_acc_exact [of "fst acc" "snd acc" _ cd cs]
    by (cases acc) (auto simp: sum_exceeds_def)
next
  case False
  then show ?thesis
    by (auto simp: sum_exceeds_def result_simps dest: decimal_digits_OkD sum_loop_OkD)
qed

lemma notional_sum_exceeds_exact:
  "notional_sum_exceeds ps cap = Ok b \<longleftrightarrow>
     decimal_string cap \<and> list_all pair_ok ps \<and> b = (dec_rat cap < sum_list (map pair_val ps))"
proof (cases "decimal_string cap \<and> list_all pair_ok ps")
  case True
  then obtain cd cs where c: "decimal_digits cap = Ok (cd, cs)" "wf_digits cd" "scaled_val (cd, cs) = dec_rat cap"
    using decimal_digits_ok by metis
  obtain acc where acc: "notional_sum_loop ps ([], 0) = Ok acc" "acc_exact acc (sum_list (map pair_val ps))"
    using notional_sum_loop_ok [of ps "([], 0)" 0] True by auto
  then show ?thesis
    using True c cmp_acc_exact [of "fst acc" "snd acc" _ cd cs]
    by (cases acc) (auto simp: notional_sum_exceeds_def)
next
  case False
  then show ?thesis
    by (auto simp: notional_sum_exceeds_def result_simps dest: decimal_digits_OkD notional_sum_loop_OkD)
qed

interpretation sizes: exact_total decimal_string dec_rat sum_exceeds
  by unfold_locales (simp_all add: sum_exceeds_exact)

interpretation notionals: exact_total pair_ok pair_val notional_sum_exceeds
  by unfold_locales (simp_all add: notional_sum_exceeds_exact)

lemma cmp_decimals_exact:
  "cmp_positive_decimals a b = Ok ord \<longleftrightarrow>
     decimal_string a \<and> decimal_string b \<and> ord = cmp_of (dec_rat a) (dec_rat b)"
proof (cases "decimal_string a \<and> decimal_string b")
  case True
  then obtain ad asc bd bsc where
    "decimal_digits a = Ok (ad, asc)" "wf_digits ad" "scaled_val (ad, asc) = dec_rat a"
    "decimal_digits b = Ok (bd, bsc)" "wf_digits bd" "scaled_val (bd, bsc) = dec_rat b"
    using decimal_digits_ok by metis
  then show ?thesis
    using True by (auto simp: cmp_positive_decimals_def cmp_scaled_val)
next
  case False
  then show ?thesis
    by (auto simp: cmp_positive_decimals_def result_simps dest: decimal_digits_OkD)
qed

lemma notional_single:
  "notional_exceeds q p c = Ok b \<longleftrightarrow> notional_sum_exceeds [(q, p)] c = Ok b"
proof (cases "decimal_string q \<and> decimal_string p \<and> decimal_string c")
  case True
  then obtain qd qs pd ps cd cs where
    q: "decimal_digits q = Ok (qd, qs)" "wf_digits qd" "scaled_val (qd, qs) = dec_rat q" and
    p: "decimal_digits p = Ok (pd, ps)" "wf_digits pd" "scaled_val (pd, ps) = dec_rat p" and
    c: "decimal_digits c = Ok (cd, cs)" "wf_digits cd" "scaled_val (cd, cs) = dec_rat c"
    using decimal_digits_ok by metis
  then have "notional_exceeds q p c = Ok (dec_rat c < dec_rat q * dec_rat p)"
    by (simp add: notional_exceeds_def cmp_scaled_val mul_digits_val scaled_val_mul)
  then show ?thesis
    using True by (auto simp: notional_sum_exceeds_exact)
next
  case False
  then show ?thesis
    by (auto simp: notional_exceeds_def notional_sum_exceeds_exact result_simps dest: decimal_digits_OkD)
qed

lemma notional_exact:
  "notional_exceeds q p c = Ok b \<longleftrightarrow>
     decimal_string q \<and> decimal_string p \<and> decimal_string c \<and> b = (dec_rat c < dec_rat q * dec_rat p)"
  by (auto simp: notional_single notional_sum_exceeds_exact)

end
