(* ===== verification/Order_Caps.thy ===== *)
theory Order_Caps
  imports Policy Decimal
begin

text \<open>
  Symbol-keyed order caps of \<^verbatim>\<open>enclave/src/handler.rs\<close>, and the gates that keep a capped key
  from placing orders through the generic HMAC routes: the parameter whitelist
  of \<^verbatim>\<open>/sign/binance-request\<close> and the safe read and cancel operations of
  \<^verbatim>\<open>generic_capped_op_allowed\<close>.

  Shown here: a sized order passes exactly when its symbol is listed, its quantity is at
  most the cap and, under a notional cap, it carries a price with quantity times
  price at most the cap, all as exact rational numbers; a capped key's generic
  requests carry no body and, in the whole query, only filters of the named read.
\<close>

section \<open>Caps with blame attribution\<close>

text \<open>
  A comparison that fails to parse is the policy's fault when the policy's operand
  alone fails, and the client's otherwise.
\<close>

definition size_check :: "err_code \<Rightarrow> bytes \<Rightarrow> bytes \<Rightarrow> (sign_response, unit) result" where
  "size_check over q max_qty =
     (case cmp_positive_decimals q max_qty of
        Ok ord \<Rightarrow> if ord = Greater then Err (rsp_err over) else Ok ()
      | Err _ \<Rightarrow> if \<not> is_ok (cmp_positive_decimals max_qty max_qty) then Err (rsp_err INTERNAL_ERROR)
                 else Err (rsp_err BAD_REQUEST))"

definition notional_check :: "err_code \<Rightarrow> bytes \<Rightarrow> bytes \<Rightarrow> bytes \<Rightarrow> (sign_response, unit) result" where
  "notional_check over q px max_notional =
     (case notional_exceeds q px max_notional of
        Ok b \<Rightarrow> if b then Err (rsp_err over) else Ok ()
      | Err _ \<Rightarrow> if \<not> is_ok (notional_exceeds ''1'' ''1'' max_notional) then Err (rsp_err INTERNAL_ERROR)
                 else Err (rsp_err BAD_REQUEST))"

definition enforce_order_cap ::
  "policy option \<Rightarrow> bytes \<Rightarrow> bytes option \<Rightarrow> bytes option \<Rightarrow> (sign_response, unit) result" where
  "enforce_order_cap policy_opt symbol qty price =
     (case policy_opt of
        None \<Rightarrow> Ok ()
      | Some p \<Rightarrow>
          (case pl_order_caps p of
             None \<Rightarrow> Ok ()
           | Some caps \<Rightarrow>
               (case find (\<lambda>c. oc_symbol c = symbol) caps of
                  None \<Rightarrow> Err (rsp_err POLICY_DENIED)
                | Some entry \<Rightarrow>
                    (case qty of
                       None \<Rightarrow> Ok ()
                     | Some q \<Rightarrow>
                         try_res (size_check SIZE_OVER_CAP q (oc_max_qty entry)) (\<lambda>_.
                         case oc_max_notional entry of
                           None \<Rightarrow> Ok ()
                         | Some max_notional \<Rightarrow>
                             (case price of
                                None \<Rightarrow> Err (rsp_err NOTIONAL_OVER_CAP)
                              | Some px \<Rightarrow> notional_check NOTIONAL_OVER_CAP q px max_notional))))))"

lemma size_check_Ok:
  "size_check over q m = Ok () \<longleftrightarrow> decimal_string q \<and> decimal_string m \<and> dec_rat q \<le> dec_rat m"
proof (cases "cmp_positive_decimals q m")
  case (Inl e)
  then have "\<not> (decimal_string q \<and> decimal_string m)"
    using cmp_decimals_exact [of q m "cmp_of (dec_rat q) (dec_rat m)"] by auto
  then show ?thesis
    using Inl by (auto simp: size_check_def)
next
  case (Inr ord)
  then show ?thesis
    using Inr [unfolded cmp_decimals_exact] by (auto simp: size_check_def not_less)
qed

lemma notional_check_Ok:
  "notional_check over q px m = Ok () \<longleftrightarrow>
     decimal_string q \<and> decimal_string px \<and> decimal_string m \<and> dec_rat q * dec_rat px \<le> dec_rat m"
proof (cases "notional_exceeds q px m")
  case (Inl e)
  then have "\<not> (decimal_string q \<and> decimal_string px \<and> decimal_string m)"
    using notional_exact [of q px m "dec_rat m < dec_rat q * dec_rat px"] by auto
  then show ?thesis
    using Inl by (auto simp: notional_check_def)
next
  case (Inr b)
  then show ?thesis
    using Inr [unfolded notional_exact] by (auto simp: notional_check_def not_less)
qed

lemma check_Err:
  "size_check over q m = Err r \<Longrightarrow> \<exists>code. r = rsp_err code"
  "notional_check over q px m = Err r \<Longrightarrow> \<exists>code. r = rsp_err code"
  by (auto simp: size_check_def notional_check_def split: sum.splits if_splits)

lemma enforce_order_cap_Err: "enforce_order_cap p s q px = Err r \<Longrightarrow> \<exists>code. r = rsp_err code"
  by (auto simp: enforce_order_cap_def result_simps dest: check_Err split: option.splits)

text \<open>What a cap promises of a sized order.\<close>

definition within_cap :: "order_asset_cap \<Rightarrow> bytes \<Rightarrow> bytes option \<Rightarrow> bool" where
  "within_cap entry q price \<longleftrightarrow>
     decimal_string q \<and> decimal_string (oc_max_qty entry) \<and> dec_rat q \<le> dec_rat (oc_max_qty entry)
     \<and> (\<forall>mx. oc_max_notional entry = Some mx \<longrightarrow>
          (\<exists>px. price = Some px \<and> decimal_string px \<and> decimal_string mx \<and> dec_rat q * dec_rat px \<le> dec_rat mx))"

lemma enforce_order_cap_Ok:
  assumes "pl_order_caps p = Some caps"
  shows "enforce_order_cap (Some p) symbol (Some q) price = Ok () \<longleftrightarrow>
    (\<exists>entry. find (\<lambda>c. oc_symbol c = symbol) caps = Some entry \<and> within_cap entry q price)"
proof (cases "find (\<lambda>c. oc_symbol c = symbol) caps")
  case None
  then show ?thesis
    using assms by (simp add: enforce_order_cap_def)
next
  case (Some entry)
  then show ?thesis
    using assms
    by (cases "oc_max_notional entry"; cases price)
      (auto simp: enforce_order_cap_def within_cap_def result_simps size_check_Ok notional_check_Ok)
qed

text \<open>
  C15: The order cap is exact.  Under a policy with order caps, an order for a quantity and
  an optional price passes exactly when its symbol is listed and, for the first entry of that
  symbol, the quantity is at most \<open>max_qty\<close> and, where the entry has a \<open>max_notional\<close>, a price is
  given and quantity times price is at most it.  The comparison is of the exact values of the
  decimal strings; a string that is not a decimal number of at most 64 bytes never passes.
\<close>

theorem order_cap_exact:
  assumes "pl_order_caps p = Some caps"
  shows "enforce_order_cap (Some p) symbol (Some q) price = Ok () \<longleftrightarrow>
    (\<exists>entry. find (\<lambda>c. oc_symbol c = symbol) caps = Some entry
       \<and> decimal_string q \<and> decimal_string (oc_max_qty entry) \<and> dec_rat q \<le> dec_rat (oc_max_qty entry)
       \<and> (\<forall>mx. oc_max_notional entry = Some mx \<longrightarrow>
            (\<exists>px. price = Some px \<and> decimal_string px \<and> decimal_string mx \<and> dec_rat q * dec_rat px \<le> dec_rat mx)))"
  unfolding enforce_order_cap_Ok [OF assms] within_cap_def ..

definition sample_cap :: order_asset_cap where
  "sample_cap = \<lparr>oc_symbol = ''BTCUSDT'', oc_max_qty = ''0.5'', oc_max_notional = Some ''30000''\<rparr>"

definition sample_capped :: policy where
  "sample_capped = policy_default\<lparr>pl_order_caps := Some [sample_cap]\<rparr>"

theorem order_cap_exact_witness:
  "enforce_order_cap (Some sample_capped) ''BTCUSDT'' (Some ''0.50'') (Some ''60000.0'') = Ok ()
   \<and> dec_rat ''0.50'' * dec_rat ''60000.0'' \<le> dec_rat ''30000''
   \<and> enforce_order_cap (Some sample_capped) ''BTCUSDT'' (Some ''0.50'') None \<noteq> Ok ()"
proof -
  have caps: "pl_order_caps sample_capped = Some [sample_cap]"
    by (simp add: sample_capped_def)
  have "enforce_order_cap (Some sample_capped) ''BTCUSDT'' (Some ''0.50'') (Some ''60000.0'') = Ok ()"
    by code_simp
  then show ?thesis
    using order_cap_exact [OF caps, of "''BTCUSDT''" "''0.50''" "Some ''60000.0''"]
      order_cap_exact [OF caps, of "''BTCUSDT''" "''0.50''" None]
    by (auto simp: sample_cap_def)
qed



section \<open>The generic Binance request route\<close>

definition BINANCE_OP_PARAMS :: "(bytes \<times> bytes list) list" where
  "BINANCE_OP_PARAMS =
     [(''account'', [''recvWindow'', ''timestamp'']),
      (''positionRisk'', [''symbol'', ''recvWindow'', ''timestamp'']),
      (''openOrders'', [''symbol'', ''recvWindow'', ''timestamp'']),
      (''orderStatus'', [''symbol'', ''orderId'', ''origClientOrderId'', ''recvWindow'', ''timestamp'']),
      (''userTrades'', [''symbol'', ''startTime'', ''endTime'', ''fromId'', ''limit'', ''recvWindow'', ''timestamp'']),
      (''income'', [''symbol'', ''incomeType'', ''startTime'', ''endTime'', ''limit'', ''recvWindow'', ''timestamp'']),
      (''listenKey'', [''recvWindow'', ''timestamp'']),
      (''order'', [''symbol'', ''side'', ''positionSide'', ''type'', ''timeInForce'', ''quantity'', ''reduceOnly'', ''price'',
                   ''newClientOrderId'', ''stopPrice'', ''closePosition'', ''activationPrice'', ''callbackRate'',
                   ''workingType'', ''priceProtect'', ''newOrderRespType'', ''recvWindow'', ''timestamp'']),
      (''cancel'', [''symbol'', ''orderId'', ''origClientOrderId'', ''recvWindow'', ''timestamp'']),
      (''allOpenOrders'', [''symbol'', ''recvWindow'', ''timestamp'']),
      (''leverage'', [''symbol'', ''leverage'', ''recvWindow'', ''timestamp'']),
      (''positionMode'', [''dualSidePosition'', ''recvWindow'', ''timestamp''])]"

definition binance_request_allowed_params :: "bytes \<Rightarrow> bytes list option" where
  "binance_request_allowed_params op = map_of BINANCE_OP_PARAMS op"

definition binance_request_order_denied_for_capped :: "bytes \<Rightarrow> policy option \<Rightarrow> bool" where
  "binance_request_order_denied_for_capped op policy_opt \<longleftrightarrow>
     op = ''order''
     \<and> (case policy_opt of None \<Rightarrow> False | Some p \<Rightarrow> pl_order_caps p \<noteq> None \<or> pl_intent_pubkey p \<noteq> None)"

fun check_params :: "bytes \<Rightarrow> bytes list \<Rightarrow> bytes list \<Rightarrow> (bytes, unit) result" where
  "check_params op allowed [] = Ok ()"
| "check_params op allowed (pair # pairs) =
     (if pair = [] then check_params op allowed pairs
      else let name = hd (split_on CHR ''='' pair)
           in if name \<notin> set allowed then Err (''param_not_allowed:'' @ op @ '':'' @ name)
              else check_params op allowed pairs)"

definition check_binance_request_allow :: "bytes \<Rightarrow> bytes \<Rightarrow> (bytes, unit) result" where
  "check_binance_request_allow op payload =
     try_res (ok_or (''op_not_allowed:'' @ op) (binance_request_allowed_params op)) (\<lambda>allowed.
       check_params op allowed (split_on CHR ''&'' payload))"

definition BINANCE_OP_ROUTES :: "(bytes \<times> bytes \<times> bytes) list" where
  "BINANCE_OP_ROUTES =
     [(''account'', (''GET'', ''/fapi/v2/account'')),
      (''positionRisk'', (''GET'', ''/fapi/v2/positionRisk'')),
      (''openOrders'', (''GET'', ''/fapi/v1/openOrders'')),
      (''orderStatus'', (''GET'', ''/fapi/v1/order'')),
      (''userTrades'', (''GET'', ''/fapi/v1/userTrades'')),
      (''income'', (''GET'', ''/fapi/v1/income'')),
      (''positionMode'', (''POST'', ''/fapi/v1/positionSide/dual'')),
      (''listenKey'', (''POST'', ''/fapi/v1/listenKey'')),
      (''leverage'', (''POST'', ''/fapi/v1/leverage'')),
      (''order'', (''POST'', ''/fapi/v1/order'')),
      (''cancel'', (''DELETE'', ''/fapi/v1/order'')),
      (''allOpenOrders'', (''DELETE'', ''/fapi/v1/allOpenOrders''))]"

definition binance_request_method_path :: "bytes \<Rightarrow> (bytes \<times> bytes) option" where
  "binance_request_method_path op = map_of BINANCE_OP_ROUTES op"


section \<open>Generic operations of a capped key\<close>

definition is_token :: "bytes \<Rightarrow> bool" where
  "is_token v \<longleftrightarrow> v \<noteq> [] \<and> list_all (\<lambda>b. is_ascii_alphanumeric b \<or> b = CHR ''-'' \<or> b = CHR ''_'') v"

fun params_scan :: "bytes list \<Rightarrow> bytes list \<Rightarrow> bytes list \<Rightarrow> bytes list option" where
  "params_scan allowed seen [] = Some seen"
| "params_scan allowed seen (pair # pairs) =
     (case split_once CHR ''='' pair of
        None \<Rightarrow> None
      | Some (k, v) \<Rightarrow>
          if k \<notin> set allowed \<or> k \<in> set seen then None
          else if \<not> is_token v then None
          else params_scan allowed (seen @ [k]) pairs)"

definition params_subset_of :: "bytes \<Rightarrow> bytes list \<Rightarrow> bytes list \<Rightarrow> bool" where
  "params_subset_of q allowed required =
     (if q = [] then required = []
      else case params_scan allowed [] (split_on CHR ''&'' q) of
             None \<Rightarrow> False
           | Some seen \<Rightarrow> list_all (\<lambda>r. r \<in> set seen) required)"

definition single_filter :: "bytes \<Rightarrow> bytes \<Rightarrow> bool" where
  "single_filter q key =
     (case strip_prefix q key of
        None \<Rightarrow> False
      | Some r \<Rightarrow> (case strip_prefix r ''='' of None \<Rightarrow> False | Some v \<Rightarrow> is_token v))"

definition merged_query :: "bytes \<Rightarrow> bytes \<Rightarrow> bytes \<times> bytes" where
  "merged_query path query =
     (case split_once CHR ''?'' path of
        Some (p, e) \<Rightarrow> (p, if e \<noteq> [] then e else query)
      | None \<Rightarrow> (path, query))"

definition BINANCE_TRADE_FILTERS :: "bytes list" where
  "BINANCE_TRADE_FILTERS = [''symbol'', ''orderId'', ''startTime'', ''endTime'', ''fromId'', ''limit'']"

definition OKX_FILL_FILTERS :: "bytes list" where
  "OKX_FILL_FILTERS = [''instType'', ''instId'', ''ordId'', ''after'', ''before'', ''begin'', ''end'', ''limit'']"

definition generic_capped_op_allowed :: "bytes \<Rightarrow> bytes \<Rightarrow> bytes \<Rightarrow> bytes \<Rightarrow> bytes \<Rightarrow> bool" where
  "generic_capped_op_allowed venue method path query body =
     (if body \<noteq> [] then False
      else if CHR ''?'' \<in> set path \<and> query \<noteq> [] then False
      else let (path_only, q) = merged_query path query
           in if venue = ''binance'' then
                (if (method, path_only) = (''GET'', ''/fapi/v2/account'') then q = []
                 else if (method, path_only) = (''GET'', ''/fapi/v1/openOrders'') then q = [] \<or> single_filter q ''symbol''
                 else if (method, path_only) = (''GET'', ''/api/v3/account'') then q = []
                 else if (method, path_only) = (''GET'', ''/api/v3/openOrders'') then q = [] \<or> single_filter q ''symbol''
                 else if (method, path_only) = (''GET'', ''/fapi/v1/userTrades'')
                 then params_subset_of q BINANCE_TRADE_FILTERS [''symbol'']
                 else if (method, path_only) = (''DELETE'', ''/fapi/v1/allOpenOrders'') then single_filter q ''symbol''
                 else False)
              else if venue = ''okx'' then
                (if (method, path_only) = (''GET'', ''/api/v5/account/balance'') then q = []
                 else if (method, path_only) = (''GET'', ''/api/v5/account/positions'') then q = []
                 else if (method, path_only) = (''GET'', ''/api/v5/trade/orders-pending'')
                 then q = [] \<or> single_filter q ''instId''
                 else if (method, path_only) = (''GET'', ''/api/v5/trade/fills-history'')
                 then params_subset_of q OKX_FILL_FILTERS [''instType'']
                 else False)
              else False)"



section \<open>What the generic gates let through\<close>

lemma join_split_on: "join_with [c] (split_on c s) = s"
proof (induction s)
  case Nil
  show ?case by simp
next
  case (Cons x s)
  obtain p ps where sp: "split_on c s = p # ps"
    by (cases "split_on c s") simp_all
  show ?case
    using Cons sp by (cases ps) auto
qed

definition filter_text :: "bytes \<times> bytes \<Rightarrow> bytes" where
  "filter_text kv = fst kv @ ''='' @ snd kv"

lemma params_scan_Some:
  "params_scan allowed seen pairs = Some seen' \<Longrightarrow> distinct seen \<Longrightarrow>
     \<exists>kvs. pairs = map filter_text kvs \<and> seen' = seen @ map fst kvs \<and> distinct (seen @ map fst kvs)
       \<and> set (map fst kvs) \<subseteq> set allowed \<and> list_all is_token (map snd kvs)"
proof (induction allowed seen pairs rule: params_scan.induct)
  case (1 allowed seen)
  then show ?case by simp
next
  case (2 allowed seen pair pairs)
  then obtain k v where kv: "split_once CHR ''='' pair = Some (k, v)" "k \<in> set allowed" "k \<notin> set seen" "is_token v"
      "params_scan allowed (seen @ [k]) pairs = Some seen'"
    by (auto split: option.splits if_splits)
  then obtain kvs where "pairs = map filter_text kvs" "seen' = (seen @ [k]) @ map fst kvs" "distinct ((seen @ [k]) @ map fst kvs)"
      "set (map fst kvs) \<subseteq> set allowed" "list_all is_token (map snd kvs)"
    using "2.IH" [OF kv(1) refl] "2.prems"(2) by auto
  moreover have "pair = filter_text (k, v)"
    using kv(1) by (simp add: split_once_Some filter_text_def)
  ultimately show ?case
    using kv by (intro exI [of _ "(k, v) # kvs"]) simp
qed

text \<open>A query is a list of distinct filters with token values.\<close>

definition filters_only :: "bytes list \<Rightarrow> bytes \<Rightarrow> bool" where
  "filters_only allowed q \<longleftrightarrow> q = [] \<or>
     (\<exists>kvs. q = join_with ''&'' (map filter_text kvs) \<and> distinct (map fst kvs)
        \<and> set (map fst kvs) \<subseteq> set allowed \<and> list_all is_token (map snd kvs))"

lemma params_subset_of_filters: "params_subset_of q allowed required \<Longrightarrow> filters_only allowed q"
  using params_scan_Some [of allowed "[]" "split_on CHR ''&'' q"] join_split_on [of "CHR ''&''" q]
  unfolding params_subset_of_def filters_only_def
  by (auto split: if_splits option.splits)

lemma single_filter_filters: "single_filter q key \<Longrightarrow> key \<in> set allowed \<Longrightarrow> filters_only allowed q"
  unfolding single_filter_def filters_only_def
  by (intro disjI2 exI [of _ "[(key, drop (length key + 1) q)]"])
    (auto simp: strip_prefix_def filter_text_def starts_with_iff split: if_splits option.splits)

definition SAFE_OPS :: "(bytes \<times> bytes \<times> bytes) list" where
  "SAFE_OPS =
     [(''binance'', ''GET'', ''/fapi/v2/account''), (''binance'', ''GET'', ''/fapi/v1/openOrders''),
      (''binance'', ''GET'', ''/api/v3/account''), (''binance'', ''GET'', ''/api/v3/openOrders''),
      (''binance'', ''GET'', ''/fapi/v1/userTrades''), (''binance'', ''DELETE'', ''/fapi/v1/allOpenOrders''),
      (''okx'', ''GET'', ''/api/v5/account/balance''), (''okx'', ''GET'', ''/api/v5/account/positions''),
      (''okx'', ''GET'', ''/api/v5/trade/orders-pending''), (''okx'', ''GET'', ''/api/v5/trade/fills-history'')]"

lemma generic_capped_cases:
  assumes "generic_capped_op_allowed venue method path query body" "merged_query path query = (po, q)"
  shows "body = []" "CHR ''?'' \<notin> set path \<or> query = []" "(venue, method, po) \<in> set SAFE_OPS"
    and "q = [] \<or> single_filter q ''symbol'' \<or> single_filter q ''instId''
      \<or> params_subset_of q BINANCE_TRADE_FILTERS [''symbol''] \<or> params_subset_of q OKX_FILL_FILTERS [''instType'']"
  using assms unfolding generic_capped_op_allowed_def SAFE_OPS_def
  by (auto split: if_splits)

text \<open>
  What the gate lets through has no body, carries its query in one place only, names one of the nine
  account reads or the cancel-all operation, and its whole query is a list of distinct read
  filters with plain token values.
\<close>

definition READ_FILTERS :: "bytes list" where
  "READ_FILTERS = BINANCE_TRADE_FILTERS @ OKX_FILL_FILTERS"

lemma generic_capped_safe:
  assumes "generic_capped_op_allowed venue method path query body"
  shows "body = [] \<and> (CHR ''?'' \<notin> set path \<or> query = [])
    \<and> (venue, method, fst (merged_query path query)) \<in> set SAFE_OPS
    \<and> filters_only READ_FILTERS (snd (merged_query path query)) \<and> filters_only READ_FILTERS query"
proof -
  obtain po q where m: "merged_query path query = (po, q)"
    by (cases "merged_query path query")
  note gate = generic_capped_cases [OF assms m]
  have widen: "filters_only a x \<Longrightarrow> set a \<subseteq> set b \<Longrightarrow> filters_only b x" for a b x
    unfolding filters_only_def using subset_trans [of _ "set a" "set b"] by blast
  have q: "filters_only READ_FILTERS q"
    using gate(4)
  proof (elim disjE)
    assume "q = []"
    then show ?thesis by (simp add: filters_only_def)
  next
    assume "params_subset_of q BINANCE_TRADE_FILTERS [''symbol'']"
    then show ?thesis
      using widen [OF params_subset_of_filters] by (simp add: READ_FILTERS_def)
  next
    assume "params_subset_of q OKX_FILL_FILTERS [''instType'']"
    then show ?thesis
      using widen [OF params_subset_of_filters] by (simp add: READ_FILTERS_def)
  qed (auto intro!: single_filter_filters simp: READ_FILTERS_def BINANCE_TRADE_FILTERS_def OKX_FILL_FILTERS_def)
  moreover have "q = query \<or> query = []"
    using gate(2) m by (auto simp: merged_query_def split_once_None split: option.splits if_splits dest: split_once_SomeD)
  ultimately show ?thesis
    using gate(1-3) m by (auto simp: filters_only_def [of _ "[]"])
qed


lemma check_params_Ok:
  "check_params op allowed pairs = Ok () \<longleftrightarrow>
     (\<forall>pair \<in> set pairs. pair \<noteq> [] \<longrightarrow> hd (split_on CHR ''='' pair) \<in> set allowed)"
  by (induction op allowed pairs rule: check_params.induct) (auto simp: Let_def)

definition WITHDRAWAL_PARAMS :: "bytes list" where
  "WITHDRAWAL_PARAMS = [''address'', ''addressTag'', ''amount'', ''asset'', ''coin'', ''network'', ''fromSymbol'', ''toSymbol'',
     ''withdrawOrderId'', ''fromEmail'', ''toEmail'', ''walletType'']"

lemma binance_params_no_withdrawal:
  assumes "binance_request_allowed_params op = Some allowed"
  shows "list_all (\<lambda>name. name \<notin> set WITHDRAWAL_PARAMS) allowed"
proof -
  have "list_all (\<lambda>(op, allowed). list_all (\<lambda>name. name \<notin> set WITHDRAWAL_PARAMS) allowed) BINANCE_OP_PARAMS"
    by code_simp
  then show ?thesis
    using map_of_SomeD [OF assms [unfolded binance_request_allowed_params_def]] by (auto simp: list_all_iff)
qed

lemma binance_op_tables_agree:
  "binance_request_allowed_params op = None \<longleftrightarrow> binance_request_method_path op = None"
proof -
  have "fst ` set BINANCE_OP_PARAMS = fst ` set BINANCE_OP_ROUTES"
    by (simp add: BINANCE_OP_PARAMS_def BINANCE_OP_ROUTES_def insert_commute)
  then show ?thesis
    by (simp add: binance_request_allowed_params_def binance_request_method_path_def map_of_eq_None_iff)
qed

text \<open>
  A payload accepted by the generic Binance route belongs to an operation with a known
  method and path, every parameter name in it is in that operation's whitelist, and no
  parameter is one of the withdrawal and transfer interfaces (address, amount, coin, asset,
  network, \<dots>).
\<close>

theorem binance_request_payload_safe:
  assumes "check_binance_request_allow op payload = Ok ()"
  shows "\<exists>allowed route. binance_request_allowed_params op = Some allowed \<and> binance_request_method_path op = Some route
    \<and> (\<forall>pair \<in> set (split_on CHR ''&'' payload). pair \<noteq> [] \<longrightarrow>
         hd (split_on CHR ''='' pair) \<in> set allowed \<and> hd (split_on CHR ''='' pair) \<notin> set WITHDRAWAL_PARAMS)"
proof -
  obtain allowed where allowed: "binance_request_allowed_params op = Some allowed"
      "check_params op allowed (split_on CHR ''&'' payload) = Ok ()"
    using assms by (auto simp: check_binance_request_allow_def result_simps)
  moreover obtain route where "binance_request_method_path op = Some route"
    using binance_op_tables_agree [of op] allowed(1) by (cases "binance_request_method_path op") auto
  ultimately show ?thesis
    using binance_params_no_withdrawal [OF allowed(1)] by (auto simp: check_params_Ok list_all_iff)
qed

theorem binance_request_payload_safe_witness:
  "binance_request_method_path ''cancel'' \<noteq> None
   \<and> hd (split_on CHR ''='' ''orderId=7'') \<notin> set WITHDRAWAL_PARAMS"
proof -
  have "check_binance_request_allow ''cancel'' ''symbol=BTCUSDT&orderId=7'' = Ok ()"
    by code_simp
  from binance_request_payload_safe [OF this] show ?thesis
    by auto
qed

end
