(* ===== verification/Handler_Base.thy ===== *)
theory Handler_Base
  imports Load Order_Caps
begin

text \<open>
  What the signing handlers of \<^verbatim>\<open>enclave/src/handler.rs\<close> share.  Every one of them opens with the
  same steps: load the blob, turn a load error into its wire code, enforce the policy, and
  continue under the policy's hash; and each denial after that carries the hash.  The steps are
  written once, with the rest of the handler as a continuation.

  Shown here: a response that carries a signature or authenticated headers has passed the venue
  check, the load, the floor and the policy (\<open>with_blob_signed\<close>), and every refusal is an error
  response without key-derived material (\<open>refusals\<close>).
\<close>

type_synonym reply = "sign_response \<times> enclave_state"

named_theorems refusals

definition load_error_code :: "load_secret_error \<Rightarrow> err_code" where
  "load_error_code e =
     (case e of
        LoadBadRequest \<Rightarrow> BAD_REQUEST
      | LoadKmsDenied \<Rightarrow> KMS_DECRYPT_DENIED
      | LoadInternal \<Rightarrow> INTERNAL_ERROR
      | LoadPolicyRequired \<Rightarrow> POLICY_REQUIRED)"

definition with_blob ::
  "'x enclave_sys_scheme \<Rightarrow> enclave_config \<Rightarrow> draws \<Rightarrow> sign_request \<Rightarrow> resolved_identity \<Rightarrow> enclave_state
     \<Rightarrow> (policy option \<Rightarrow> json \<Rightarrow> bytes option \<Rightarrow> enclave_state \<Rightarrow> reply) \<Rightarrow> reply" where
  "with_blob X cfg inp req identity st k =
     (case load_and_parse_blob X cfg inp req identity st of
        (Err e, st') \<Rightarrow> (rsp_err (load_error_code e), st')
      | (Ok (policy, secret_json), st') \<Rightarrow>
          (case enforce_policy X policy req of
             Err resp \<Rightarrow> (resp, st')
           | Ok policy_hash \<Rightarrow> k policy secret_json policy_hash st'))"

definition respond :: "(sign_response, sign_response) result \<Rightarrow> sign_response" where
  "respond r = (case r of Err resp \<Rightarrow> resp | Ok resp \<Rightarrow> resp)"

text \<open>A failing step of a handler that answers with a code under the policy hash.\<close>

definition deny_if_err :: "bytes option \<Rightarrow> err_code \<Rightarrow> ('e, 'a) result \<Rightarrow> (sign_response, 'a) result" where
  "deny_if_err policy_hash code r = map_err (\<lambda>_. deny_under policy_hash code) r"

definition deny_if :: "bytes option \<Rightarrow> err_code \<Rightarrow> bool \<Rightarrow> (sign_response, unit) result" where
  "deny_if policy_hash code b = (if b then Err (deny_under policy_hash code) else Ok ())"

definition complete_secret ::
  "bytes option \<Rightarrow> (json \<Rightarrow> 's option) \<Rightarrow> ('s \<Rightarrow> bool) \<Rightarrow> json \<Rightarrow> (sign_response, 's) result" where
  "complete_secret policy_hash deserialize_into is_complete secret_json =
     try_res (deny_if_err policy_hash BAD_REQUEST (ok_or () (deserialize_into secret_json))) (\<lambda>secret.
     try_res (deny_if policy_hash BAD_REQUEST (\<not> is_complete secret)) (\<lambda>_.
     Ok secret))"

definition ok_headers_under :: "bytes option \<Rightarrow> (bytes \<times> bytes) list \<Rightarrow> sign_response" where
  "ok_headers_under policy_hash headers = with_policy_hash policy_hash (rsp_ok_headers headers)"

definition policy_order_caps :: "policy option \<Rightarrow> order_asset_cap list option" where
  "policy_order_caps policy = (case policy of None \<Rightarrow> None | Some p \<Rightarrow> pl_order_caps p)"

text \<open>The agent-intent gate, which alone of the checks writes to a store, the replay ledger.\<close>

definition intent_gated ::
  "bytes option \<Rightarrow> (ledger \<Rightarrow> (sign_response, unit) result \<times> ledger) \<Rightarrow> enclave_state
     \<Rightarrow> (enclave_state \<Rightarrow> reply) \<Rightarrow> reply" where
  "intent_gated policy_hash gate st k =
     (case gate (es_ledger st) of
        (Err resp, led) \<Rightarrow> (with_policy_hash policy_hash resp, st\<lparr>es_ledger := led\<rparr>)
      | (Ok _, led) \<Rightarrow> k (st\<lparr>es_ledger := led\<rparr>))"


section \<open>Refusals\<close>

definition refusal :: "sign_response \<Rightarrow> bool" where
  "refusal r \<longleftrightarrow> (\<exists>code h. r = with_policy_hash h (rsp_err code))"

lemma refusal_simps [simp, intro]:
  "refusal (rsp_err c)" "refusal (deny_under h c)"
proof -
  have "rsp_err c = with_policy_hash None (rsp_err c)"
    by (simp add: rsp_defs)
  then show "refusal (rsp_err c)" "refusal (deny_under h c)"
    unfolding refusal_def deny_under_def by blast+
qed

lemma refusal_with_hash [simp]: "refusal r \<Longrightarrow> refusal (with_policy_hash h r)"
  by (auto simp: refusal_def rsp_defs)

lemma refusal_no_signature: "refusal r \<Longrightarrow> \<not> carries_signature r"
  by (auto simp: refusal_def)

lemma refusal_error: "refusal r \<Longrightarrow> rs_error r \<noteq> None"
  by (auto simp: refusal_def rsp_defs)

definition refuses :: "(sign_response, 'a) result \<Rightarrow> bool" where
  "refuses m \<longleftrightarrow> (\<forall>e. m = Err e \<longrightarrow> refusal e)"

lemma refusesD: "m = Err e \<Longrightarrow> refuses m \<Longrightarrow> refusal e"
  by (simp add: refuses_def)

lemma refuses_simps:
  "refuses (Ok x)" "refuses (Err e) \<longleftrightarrow> refusal e" "refuses (ok_or e n) \<longleftrightarrow> (n = None \<longrightarrow> refusal e)"
  "refuses (map_err g w) \<longleftrightarrow> (\<forall>e. w = Err e \<longrightarrow> refusal (g e))"
  "refuses (try_res m f) \<longleftrightarrow> refuses m \<and> (\<forall>y. m = Ok y \<longrightarrow> refuses (f y))"
  "refuses (if b then k else k') \<longleftrightarrow> (b \<longrightarrow> refuses k) \<and> (\<not> b \<longrightarrow> refuses k')"
  by (auto simp: refuses_def result_simps)

lemma enforce_policy_refusal [refusals]: "enforce_policy X policy req = Err r \<Longrightarrow> refusal r"
  by (auto simp: enforce_policy_def enforce_policy_inner_def result_simps split: option.splits if_splits)

lemma size_check_refusal [refusals]: "size_check c q m = Err r \<Longrightarrow> refusal r"
  by (auto simp: size_check_def split: sum.splits if_splits)

lemma notional_check_refusal [refusals]: "notional_check c q p m = Err r \<Longrightarrow> refusal r"
  by (auto simp: notional_check_def split: sum.splits if_splits)

lemma enforce_order_cap_refusal [refusals]: "enforce_order_cap policy s q p = Err r \<Longrightarrow> refusal r"
  by (auto simp: enforce_order_cap_def result_simps split: option.splits if_splits dest: refusals)

lemma verify_agent_intent_refusal [refusals]: "verify_agent_intent X pk sig m led = (Err r, led') \<Longrightarrow> refusal r"
  by (auto simp: verify_agent_intent_def split: option.splits if_splits prod.splits bool.splits)

lemma enforce_agent_intent_refusal [refusals]:
  "enforce_agent_intent_order X policy identity v a ts ord req led = (Err r, led') \<Longrightarrow> refusal r"
  "enforce_agent_intent_cancel X policy identity v a ts cn req led = (Err r, led') \<Longrightarrow> refusal r"
  by (auto simp: enforce_agent_intent_order_def enforce_agent_intent_cancel_def split: option.splits dest: refusals)

lemma deny_refusal [refusals]:
  "deny_if_err h c m = Err r \<Longrightarrow> refusal r" "deny_if h c b = Err r \<Longrightarrow> refusal r"
  by (auto simp: deny_if_err_def deny_if_def result_simps split: if_splits)

lemma deny_Ok [result_simps]:
  "deny_if_err h c m = Ok x \<longleftrightarrow> m = Ok x" "deny_if h c b = Ok u \<longleftrightarrow> \<not> b"
  by (simp_all add: deny_if_err_def deny_if_def result_simps)

lemma complete_secret_Ok [result_simps]:
  "complete_secret h de ok sj = Ok s \<longleftrightarrow> de sj = Some s \<and> ok s"
  by (auto simp: complete_secret_def result_simps)

lemma complete_secret_refusal [refusals]: "complete_secret h de ok sj = Err r \<Longrightarrow> refusal r"
  by (auto simp: complete_secret_def result_simps dest: refusals)

lemma refuses_gates:
  "refuses (enforce_policy X policy req)" "refuses (deny_if h c b)" "refuses (deny_if_err h c m)"
  "refuses (complete_secret h de ok sj)" "refuses (enforce_order_cap policy s q p)"
  by (auto simp: refuses_def dest: refusals)

lemma respond_signed:
  assumes "carries_signature (respond r)" "\<And>e. r = Err e \<Longrightarrow> refusal e"
  obtains x where "r = Ok x" "respond r = x"
  using assms refusal_no_signature by (cases r) (auto simp: respond_def)


section \<open>A signature implies the checks that all handlers share\<close>

lemma with_blob_signed:
  assumes "carries_signature (fst (with_blob X cfg inp req identity st k))"
  obtains policy secret_json policy_hash st' where
    "load_and_parse_blob X cfg inp req identity st = (Ok (policy, secret_json), st')"
    "enforce_policy X policy req = Ok policy_hash"
    "with_blob X cfg inp req identity st k = k policy secret_json policy_hash st'"
    "carries_signature (fst (k policy secret_json policy_hash st'))"
proof -
  obtain r st' where load: "load_and_parse_blob X cfg inp req identity st = (r, st')"
    by (cases "load_and_parse_blob X cfg inp req identity st")
  show thesis
  proof (cases r)
    case (Inl e)
    then show thesis
      using assms load by (simp add: with_blob_def)
  next
    case (Inr ps)
    obtain policy sj where r: "r = Ok (policy, sj)"
      using Inr by (cases ps) simp
    show thesis
    proof (cases "enforce_policy X policy req")
      case (Inl resp)
      then show thesis
        using assms load r refusal_no_signature [OF enforce_policy_refusal [OF Inl]] by (simp add: with_blob_def)
    next
      case (Inr h)
      then have "with_blob X cfg inp req identity st k = k policy sj h st'"
        using load r by (simp add: with_blob_def)
      then show thesis
        using that load r Inr assms by simp
    qed
  qed
qed

lemma intent_gated_signed:
  assumes "carries_signature (fst (intent_gated h gate st k))" "\<And>r led led'. gate led = (Err r, led') \<Longrightarrow> refusal r"
  obtains led where "gate (es_ledger st) = (Ok (), led)" "intent_gated h gate st k = k (st\<lparr>es_ledger := led\<rparr>)"
proof -
  obtain r led where g: "gate (es_ledger st) = (r, led)"
    by (cases "gate (es_ledger st)")
  show thesis
  proof (cases r)
    case (Inl e)
    then show thesis
      using assms(1) assms(2) [of "es_ledger st" e led] g refusal_no_signature [of e] by (simp add: intent_gated_def)
  next
    case (Inr u)
    then show thesis
      using that g by (simp add: intent_gated_def)
  qed
qed

end
