(* ===== verification/Cex_Handlers.thy ===== *)
theory Cex_Handlers
  imports Handler_Base
begin

text \<open>
  The handlers of the centralised venues in \<^verbatim>\<open>enclave/src/handler.rs\<close>: the generic KuCoin, Binance,
  Bybit and OKX signers, the Binance read/cancel route by operation name, and the structured
  Binance and OKX orders and cancels.  Each is one definition: the fields it requires, the
  shared load and policy steps, its own checks, the secret, the headers.

  Shown here: what has been checked when a handler answers with headers.
\<close>

section \<open>Generic signers\<close>

definition handle_sign_kucoin ::
  "'x enclave_sys_scheme \<Rightarrow> enclave_config \<Rightarrow> draws \<Rightarrow> sign_request \<Rightarrow> resolved_identity \<Rightarrow> enclave_state \<Rightarrow> reply" where
  "handle_sign_kucoin X cfg inp req identity st =
     (case (rq_method req, rq_path req, rq_body req, rq_timestamp_ms req) of
        (Some method, Some path, Some body, Some ts) \<Rightarrow>
          if method \<notin> set ALLOWED_METHODS then (rsp_err BAD_REQUEST, st)
          else with_blob X cfg inp req identity st (\<lambda>policy secret_json policy_hash st1.
            (respond
               (try_res (deny_if policy_hash POLICY_DENIED (policy_order_caps policy \<noteq> None)) (\<lambda>_.
                try_res (complete_secret policy_hash (de_pass_secret X) pass_secret_is_complete secret_json) (\<lambda>secret.
                try_res (deny_if_err policy_hash INTERNAL_ERROR
                  (compute_kucoin_headers X (ps_secret secret) (ps_passphrase secret) (ps_key secret) ts method path body))
                  (\<lambda>headers.
                Ok (ok_headers_under policy_hash headers))))), st1))
      | _ \<Rightarrow> (rsp_err BAD_REQUEST, st))"

definition user_query :: "sign_request \<Rightarrow> bytes" where
  "user_query req = (case rq_query req of None \<Rightarrow> [] | Some q \<Rightarrow> q)"

definition handle_sign_binance ::
  "'x enclave_sys_scheme \<Rightarrow> enclave_config \<Rightarrow> draws \<Rightarrow> sign_request \<Rightarrow> resolved_identity \<Rightarrow> enclave_state \<Rightarrow> reply" where
  "handle_sign_binance X cfg inp req identity st =
     (case (rq_method req, rq_body req, rq_timestamp_ms req) of
        (Some method, Some body, Some ts) \<Rightarrow>
          if method \<notin> set ALLOWED_METHODS then (rsp_err BAD_REQUEST, st)
          else with_blob X cfg inp req identity st (\<lambda>policy secret_json policy_hash st1.
            (respond
               (try_res (deny_if policy_hash POLICY_DENIED
                  (policy_order_caps policy \<noteq> None
                   \<and> \<not> generic_capped_op_allowed ''binance'' method (case rq_path req of None \<Rightarrow> [] | Some p \<Rightarrow> p)
                         (user_query req) body)) (\<lambda>_.
                try_res (complete_secret policy_hash (de_key_secret X) key_secret_is_complete secret_json) (\<lambda>secret.
                try_res (deny_if_err policy_hash INTERNAL_ERROR
                  (compute_binance_headers X (ks_secret secret) (ks_key secret) ts (user_query req) body)) (\<lambda>headers.
                Ok (ok_headers_under policy_hash headers))))), st1))
      | _ \<Rightarrow> (rsp_err BAD_REQUEST, st))"

definition handle_sign_bybit ::
  "'x enclave_sys_scheme \<Rightarrow> enclave_config \<Rightarrow> draws \<Rightarrow> sign_request \<Rightarrow> resolved_identity \<Rightarrow> enclave_state \<Rightarrow> reply" where
  "handle_sign_bybit X cfg inp req identity st =
     (case (rq_method req, rq_body req, rq_timestamp_ms req) of
        (Some method, Some body, Some ts) \<Rightarrow>
          if method \<notin> set ALLOWED_METHODS then (rsp_err BAD_REQUEST, st)
          else with_blob X cfg inp req identity st (\<lambda>policy secret_json policy_hash st1.
            (respond
               (try_res (deny_if policy_hash POLICY_DENIED (policy_order_caps policy \<noteq> None)) (\<lambda>_.
                try_res (complete_secret policy_hash (de_key_secret X) key_secret_is_complete secret_json) (\<lambda>secret.
                try_res (deny_if_err policy_hash INTERNAL_ERROR
                  (compute_bybit_headers X (ks_secret secret) (ks_key secret) ts method (user_query req) body)) (\<lambda>headers.
                Ok (ok_headers_under policy_hash headers))))), st1))
      | _ \<Rightarrow> (rsp_err BAD_REQUEST, st))"

definition okx_request_path :: "sign_request \<Rightarrow> bytes \<Rightarrow> bytes" where
  "okx_request_path req path =
     (case rq_query req of
        None \<Rightarrow> path
      | Some q \<Rightarrow>
          if q = [] then path
          else if CHR ''?'' \<in> set path then path @ ''&'' @ q
          else path @ ''?'' @ q)"

definition handle_sign_okx ::
  "'x enclave_sys_scheme \<Rightarrow> enclave_config \<Rightarrow> draws \<Rightarrow> sign_request \<Rightarrow> resolved_identity \<Rightarrow> enclave_state \<Rightarrow> reply" where
  "handle_sign_okx X cfg inp req identity st =
     (case (rq_method req, rq_path req, rq_body req, rq_timestamp_ms req) of
        (Some method, Some path, Some body, Some ts) \<Rightarrow>
          if method \<notin> set ALLOWED_METHODS then (rsp_err BAD_REQUEST, st)
          else with_blob X cfg inp req identity st (\<lambda>policy secret_json policy_hash st1.
            (respond
               (let request_path = okx_request_path req path in
                try_res (deny_if policy_hash POLICY_DENIED
                  (policy_order_caps policy \<noteq> None \<and> \<not> generic_capped_op_allowed ''okx'' method request_path [] body)) (\<lambda>_.
                try_res (complete_secret policy_hash (de_pass_secret X) pass_secret_is_complete secret_json) (\<lambda>secret.
                try_res (deny_if_err policy_hash BAD_REQUEST
                  (compute_okx_headers X (ps_secret secret) (ps_passphrase secret) (ps_key secret) ts method request_path body))
                  (\<lambda>headers.
                Ok (ok_headers_under policy_hash headers))))), st1))
      | _ \<Rightarrow> (rsp_err BAD_REQUEST, st))"


section \<open>Binance by operation name\<close>

text \<open>The operation and payload are taken out of the request, the method and path put in from the operation's route.\<close>

definition routed_request :: "sign_request \<Rightarrow> bytes \<Rightarrow> bytes \<Rightarrow> sign_request" where
  "routed_request req method path =
     req\<lparr>rq_op := None, rq_payload := None, rq_method := Some method, rq_path := Some path\<rparr>"

definition handle_sign_binance_request ::
  "'x enclave_sys_scheme \<Rightarrow> enclave_config \<Rightarrow> draws \<Rightarrow> sign_request \<Rightarrow> resolved_identity \<Rightarrow> enclave_state \<Rightarrow> reply" where
  "handle_sign_binance_request X cfg inp req identity st =
     (case (rq_op req, rq_payload req) of
        (Some op, Some payload) \<Rightarrow>
          if \<not> is_ok (check_binance_request_allow op payload) then (rsp_err ACTION_NOT_ALLOWED, st)
          else (case binance_request_method_path op of
            None \<Rightarrow> (rsp_err INTERNAL_ERROR, st)
          | Some (method, path) \<Rightarrow>
              with_blob X cfg inp (routed_request req method path) identity st (\<lambda>policy secret_json policy_hash st1.
                (respond
                   (try_res (deny_if policy_hash POLICY_DENIED (binance_request_order_denied_for_capped op policy)) (\<lambda>_.
                    try_res (complete_secret policy_hash (de_key_secret X) key_secret_is_complete secret_json) (\<lambda>secret.
                    try_res (deny_if_err policy_hash INTERNAL_ERROR (sign_binance X (ks_secret secret) payload [])) (\<lambda>sig.
                    Ok (ok_headers_under policy_hash
                          (headers_of [(''signature'', sig), (''api_key'', ks_key secret)])))))), st1)))
      | _ \<Rightarrow> (rsp_err BAD_REQUEST, st))"


section \<open>Structured orders and cancels\<close>

definition handle_sign_binance_order ::
  "'x enclave_sys_scheme \<Rightarrow> enclave_config \<Rightarrow> draws \<Rightarrow> sign_request \<Rightarrow> resolved_identity \<Rightarrow> enclave_state \<Rightarrow> reply" where
  "handle_sign_binance_order X cfg inp req identity st =
     (case (rq_order req, rq_timestamp_ms req) of
        (Some order, Some ts) \<Rightarrow>
          with_blob X cfg inp req identity st (\<lambda>policy secret_json policy_hash st1.
            case enforce_order_cap policy (or_symbol order) (Some (or_qty order)) (or_price order) of
              Err resp \<Rightarrow> (with_policy_hash policy_hash resp, st1)
            | Ok _ \<Rightarrow>
                intent_gated policy_hash
                  (enforce_agent_intent_order X policy identity ''binance'' ''sign_binance_order'' ts order req) st1 (\<lambda>st2.
                  (respond
                     (try_res (deny_if_err policy_hash BAD_REQUEST (build_binance_order_query order)) (\<lambda>canonical.
                      try_res (complete_secret policy_hash (de_key_secret X) key_secret_is_complete secret_json) (\<lambda>secret.
                      try_res (deny_if_err policy_hash INTERNAL_ERROR
                        (compute_binance_headers X (ks_secret secret) (ks_key secret) ts canonical [])) (\<lambda>headers.
                      Ok (with_canonical_body canonical (ok_headers_under policy_hash headers)))))), st2)))
      | _ \<Rightarrow> (rsp_err BAD_REQUEST, st))"

definition handle_sign_binance_cancel ::
  "'x enclave_sys_scheme \<Rightarrow> enclave_config \<Rightarrow> draws \<Rightarrow> sign_request \<Rightarrow> resolved_identity \<Rightarrow> enclave_state \<Rightarrow> reply" where
  "handle_sign_binance_cancel X cfg inp req identity st =
     (case (rq_cancel req, rq_timestamp_ms req) of
        (Some cancel_req, Some ts) \<Rightarrow>
          with_blob X cfg inp req identity st (\<lambda>policy secret_json policy_hash st1.
            case enforce_order_cap policy (cr_symbol cancel_req) None None of
              Err resp \<Rightarrow> (with_policy_hash policy_hash resp, st1)
            | Ok _ \<Rightarrow>
                intent_gated policy_hash
                  (enforce_agent_intent_cancel X policy identity ''binance'' ''sign_binance_cancel'' ts cancel_req req) st1 (\<lambda>st2.
                  (respond
                     (try_res (deny_if_err policy_hash BAD_REQUEST (build_binance_cancel_query cancel_req)) (\<lambda>canonical.
                      try_res (complete_secret policy_hash (de_key_secret X) key_secret_is_complete secret_json) (\<lambda>secret.
                      try_res (deny_if_err policy_hash INTERNAL_ERROR
                        (compute_binance_headers X (ks_secret secret) (ks_key secret) ts canonical [])) (\<lambda>headers.
                      Ok (with_canonical_body canonical (ok_headers_under policy_hash headers)))))), st2)))
      | _ \<Rightarrow> (rsp_err BAD_REQUEST, st))"

definition handle_sign_okx_order ::
  "'x enclave_sys_scheme \<Rightarrow> enclave_config \<Rightarrow> draws \<Rightarrow> sign_request \<Rightarrow> resolved_identity \<Rightarrow> enclave_state \<Rightarrow> reply" where
  "handle_sign_okx_order X cfg inp req identity st =
     (case (rq_order req, rq_timestamp_ms req) of
        (Some order, Some ts) \<Rightarrow>
          with_blob X cfg inp req identity st (\<lambda>policy secret_json policy_hash st1.
            case enforce_order_cap policy (or_symbol order) (Some (or_qty order)) (or_price order) of
              Err resp \<Rightarrow> (with_policy_hash policy_hash resp, st1)
            | Ok _ \<Rightarrow>
                intent_gated policy_hash
                  (enforce_agent_intent_order X policy identity ''okx'' ''sign_okx_order'' ts order req) st1 (\<lambda>st2.
                  (respond
                     (try_res (deny_if_err policy_hash BAD_REQUEST (build_okx_order_body order)) (\<lambda>canonical.
                      try_res (complete_secret policy_hash (de_pass_secret X) pass_secret_is_complete secret_json) (\<lambda>secret.
                      try_res (deny_if_err policy_hash BAD_REQUEST
                        (compute_okx_headers X (ps_secret secret) (ps_passphrase secret) (ps_key secret) ts
                           ''POST'' ''/api/v5/trade/order'' canonical)) (\<lambda>headers.
                      Ok (with_canonical_body canonical (ok_headers_under policy_hash headers)))))), st2)))
      | _ \<Rightarrow> (rsp_err BAD_REQUEST, st))"

definition handle_sign_okx_cancel ::
  "'x enclave_sys_scheme \<Rightarrow> enclave_config \<Rightarrow> draws \<Rightarrow> sign_request \<Rightarrow> resolved_identity \<Rightarrow> enclave_state \<Rightarrow> reply" where
  "handle_sign_okx_cancel X cfg inp req identity st =
     (case (rq_cancel req, rq_timestamp_ms req) of
        (Some cancel_req, Some ts) \<Rightarrow>
          with_blob X cfg inp req identity st (\<lambda>policy secret_json policy_hash st1.
            case enforce_order_cap policy (cr_symbol cancel_req) None None of
              Err resp \<Rightarrow> (with_policy_hash policy_hash resp, st1)
            | Ok _ \<Rightarrow>
                intent_gated policy_hash
                  (enforce_agent_intent_cancel X policy identity ''okx'' ''sign_okx_cancel'' ts cancel_req req) st1 (\<lambda>st2.
                  (respond
                     (try_res (deny_if_err policy_hash BAD_REQUEST (build_okx_cancel_body cancel_req)) (\<lambda>canonical.
                      try_res (complete_secret policy_hash (de_pass_secret X) pass_secret_is_complete secret_json) (\<lambda>secret.
                      try_res (deny_if_err policy_hash BAD_REQUEST
                        (compute_okx_headers X (ps_secret secret) (ps_passphrase secret) (ps_key secret) ts
                           ''POST'' ''/api/v5/trade/cancel-order'' canonical)) (\<lambda>headers.
                      Ok (with_canonical_body canonical (ok_headers_under policy_hash headers)))))), st2)))
      | _ \<Rightarrow> (rsp_err BAD_REQUEST, st))"


section \<open>What a signed order has passed\<close>

text \<open>The shape of the four structured handlers, with what differs between them as parameters.\<close>

definition order_shape ::
  "'x enclave_sys_scheme \<Rightarrow> enclave_config \<Rightarrow> draws \<Rightarrow> sign_request \<Rightarrow> resolved_identity \<Rightarrow> enclave_state
     \<Rightarrow> (policy option \<Rightarrow> (sign_response, unit) result) \<Rightarrow> (policy option \<Rightarrow> ledger \<Rightarrow> (sign_response, unit) result \<times> ledger)
     \<Rightarrow> (bytes option \<Rightarrow> json \<Rightarrow> (sign_response, sign_response) result) \<Rightarrow> reply" where
  "order_shape X cfg inp req identity st cap gate sign =
     with_blob X cfg inp req identity st (\<lambda>policy secret_json policy_hash st1.
       case cap policy of
         Err resp \<Rightarrow> (with_policy_hash policy_hash resp, st1)
       | Ok _ \<Rightarrow> intent_gated policy_hash (gate policy) st1 (\<lambda>st2. (respond (sign policy_hash secret_json), st2)))"

lemma order_shape_signed:
  assumes "carries_signature (fst (order_shape X cfg inp req identity st cap gate sign))"
    and cap: "\<And>p r. cap p = Err r \<Longrightarrow> refusal r" and gate: "\<And>p r led led'. gate p led = (Err r, led') \<Longrightarrow> refusal r"
    and sign: "\<And>h sj r. sign h sj = Err r \<Longrightarrow> refusal r"
  obtains policy secret_json h st1 where
    "load_and_parse_blob X cfg inp req identity st = (Ok (policy, secret_json), st1)" "enforce_policy X policy req = Ok h"
    "cap policy = Ok ()" "fst (gate policy (es_ledger st1)) = Ok ()"
    "sign h secret_json = Ok (fst (order_shape X cfg inp req identity st cap gate sign))"
  using assms(1) [unfolded order_shape_def]
proof (rule with_blob_signed)
  fix policy secret_json h st1
  let ?k = "\<lambda>policy secret_json policy_hash st1. case cap policy of
         Err resp \<Rightarrow> (with_policy_hash policy_hash resp, st1)
       | Ok _ \<Rightarrow> intent_gated policy_hash (gate policy) st1 (\<lambda>st2. (respond (sign policy_hash secret_json), st2))"
  assume load: "load_and_parse_blob X cfg inp req identity st = (Ok (policy, secret_json), st1)" "enforce_policy X policy req = Ok h"
    and eq: "with_blob X cfg inp req identity st ?k = ?k policy secret_json h st1"
    and signed: "carries_signature (fst (?k policy secret_json h st1))"
  have cap_ok: "cap policy = Ok ()"
  proof (cases "cap policy")
    case (Inl r)
    then show ?thesis
      using signed refusal_no_signature [OF cap [OF Inl]] by simp
  qed simp
  then have gated: "carries_signature (fst (intent_gated h (gate policy) st1 (\<lambda>st2. (respond (sign h secret_json), st2))))"
    using signed by simp
  from gated gate obtain led where led: "gate policy (es_ledger st1) = (Ok (), led)"
    "intent_gated h (gate policy) st1 (\<lambda>st2. (respond (sign h secret_json), st2))
       = (respond (sign h secret_json), st1\<lparr>es_ledger := led\<rparr>)"
    by (rule intent_gated_signed)
  have "carries_signature (respond (sign h secret_json))"
    using gated led(2) by simp
  then obtain x where x: "sign h secret_json = Ok x" "respond (sign h secret_json) = x"
    using sign by (rule respond_signed)
  show thesis
    by (rule that [OF load cap_ok]) (use led x eq cap_ok in \<open>simp_all add: order_shape_def\<close>)
qed

definition order_sign ::
  "('e, bytes) result \<Rightarrow> (json \<Rightarrow> 's option) \<Rightarrow> ('s \<Rightarrow> bool) \<Rightarrow> ('s \<Rightarrow> bytes \<Rightarrow> ('e, (bytes \<times> bytes) list) result) \<Rightarrow> err_code
     \<Rightarrow> bytes option \<Rightarrow> json \<Rightarrow> (sign_response, sign_response) result" where
  "order_sign build de is_complete headers_for code policy_hash secret_json =
     try_res (deny_if_err policy_hash BAD_REQUEST build) (\<lambda>canonical.
     try_res (complete_secret policy_hash de is_complete secret_json) (\<lambda>secret.
     try_res (deny_if_err policy_hash code (headers_for secret canonical)) (\<lambda>headers.
     Ok (with_canonical_body canonical (ok_headers_under policy_hash headers)))))"

lemma structured_signed:
  assumes "carries_signature (fst (order_shape X cfg inp req identity st cap gate (order_sign build de ok headers_for code)))"
    and "\<And>p r. cap p = Err r \<Longrightarrow> refusal r" "\<And>p r led led'. gate p led = (Err r, led') \<Longrightarrow> refusal r"
  obtains policy secret_json h st1 canonical secret headers where
    "load_and_parse_blob X cfg inp req identity st = (Ok (policy, secret_json), st1)" "enforce_policy X policy req = Ok h"
    "cap policy = Ok ()" "fst (gate policy (es_ledger st1)) = Ok ()"
    "build = Ok canonical" "de secret_json = Some secret" "headers_for secret canonical = Ok headers"
    "fst (order_shape X cfg inp req identity st cap gate (order_sign build de ok headers_for code))
       = with_canonical_body canonical (ok_headers_under h headers)"
  using assms
proof (rule order_shape_signed)
  show "refusal r" if "order_sign build de ok headers_for code h sj = Err r" for h sj r
    using that by (rule refusesD) (simp add: order_sign_def refuses_simps refuses_gates)
next
  fix policy secret_json h st1
  let ?resp = "fst (order_shape X cfg inp req identity st cap gate (order_sign build de ok headers_for code))"
  assume load: "load_and_parse_blob X cfg inp req identity st = (Ok (policy, secret_json), st1)" "enforce_policy X policy req = Ok h"
    "cap policy = Ok ()" "fst (gate policy (es_ledger st1)) = Ok ()"
    and "order_sign build de ok headers_for code h secret_json = Ok ?resp"
  then obtain canonical secret headers where "build = Ok canonical" "de secret_json = Some secret"
    "headers_for secret canonical = Ok headers" "?resp = with_canonical_body canonical (ok_headers_under h headers)"
    by (auto simp: order_sign_def result_simps)
  then show thesis
    using that [OF load] by blast
qed

lemma structured_handlers_shape:
  assumes "rq_timestamp_ms req = Some ts"
  shows "rq_order req = Some order \<Longrightarrow> handle_sign_binance_order X cfg inp req identity st = order_shape X cfg inp req identity st
      (\<lambda>policy. enforce_order_cap policy (or_symbol order) (Some (or_qty order)) (or_price order))
      (\<lambda>policy. enforce_agent_intent_order X policy identity ''binance'' ''sign_binance_order'' ts order req)
      (order_sign (build_binance_order_query order) (de_key_secret X) key_secret_is_complete
         (\<lambda>s c. compute_binance_headers X (ks_secret s) (ks_key s) ts c []) INTERNAL_ERROR)"
    and "rq_order req = Some order \<Longrightarrow> handle_sign_okx_order X cfg inp req identity st = order_shape X cfg inp req identity st
      (\<lambda>policy. enforce_order_cap policy (or_symbol order) (Some (or_qty order)) (or_price order))
      (\<lambda>policy. enforce_agent_intent_order X policy identity ''okx'' ''sign_okx_order'' ts order req)
      (order_sign (build_okx_order_body order) (de_pass_secret X) pass_secret_is_complete
         (\<lambda>s c. compute_okx_headers X (ps_secret s) (ps_passphrase s) (ps_key s) ts ''POST'' ''/api/v5/trade/order'' c) BAD_REQUEST)"
    and "rq_cancel req = Some cn \<Longrightarrow> handle_sign_binance_cancel X cfg inp req identity st = order_shape X cfg inp req identity st
      (\<lambda>policy. enforce_order_cap policy (cr_symbol cn) None None)
      (\<lambda>policy. enforce_agent_intent_cancel X policy identity ''binance'' ''sign_binance_cancel'' ts cn req)
      (order_sign (build_binance_cancel_query cn) (de_key_secret X) key_secret_is_complete
         (\<lambda>s c. compute_binance_headers X (ks_secret s) (ks_key s) ts c []) INTERNAL_ERROR)"
    and "rq_cancel req = Some cn \<Longrightarrow> handle_sign_okx_cancel X cfg inp req identity st = order_shape X cfg inp req identity st
      (\<lambda>policy. enforce_order_cap policy (cr_symbol cn) None None)
      (\<lambda>policy. enforce_agent_intent_cancel X policy identity ''okx'' ''sign_okx_cancel'' ts cn req)
      (order_sign (build_okx_cancel_body cn) (de_pass_secret X) pass_secret_is_complete
         (\<lambda>s c. compute_okx_headers X (ps_secret s) (ps_passphrase s) (ps_key s) ts ''POST'' ''/api/v5/trade/cancel-order'' c)
         BAD_REQUEST)"
  unfolding handle_sign_binance_order_def handle_sign_okx_order_def handle_sign_binance_cancel_def
    handle_sign_okx_cancel_def order_shape_def order_sign_def
  using assms by simp_all

lemma order_handlers_signed:
  assumes "carries_signature (fst (handle_sign_binance_order X cfg inp req identity st)) \<or>
      carries_signature (fst (handle_sign_okx_order X cfg inp req identity st))"
  obtains order ts where "rq_order req = Some order" "rq_timestamp_ms req = Some ts"
  using assms by (auto simp: handle_sign_binance_order_def handle_sign_okx_order_def split: option.splits)

end
