(* ===== verification/Hl_Caps.thy ===== *)
theory Hl_Caps
  imports Order_Caps Eip712
begin

text \<open>
  The Hyperliquid caps of \<^verbatim>\<open>enclave/src/handler.rs\<close>: the vault allow-list, the per-order
  bounds, and the bounds on the whole action.  An action is a JSON value whose
  \<^verbatim>\<open>orders\<close> name their asset by index; all of them are covered by one signature.

  Shown here: when the caps admit an action, then for every asset the sum of the sizes
  of its orders is at most the cap, and under a notional cap so is the sum of
  size times price, as exact rational numbers.
\<close>

section \<open>Address lists\<close>

text \<open>
  The scan of an address list without early exit, shared by the vault and the
  recipient lists: whether the address was found and whether an entry was malformed.
\<close>

fun address_scan :: "'x externals_scheme \<Rightarrow> bytes list \<Rightarrow> bytes \<Rightarrow> bool \<times> bool \<Rightarrow> bool \<times> bool" where
  "address_scan X [] needle acc = acc"
| "address_scan X (entry # es) needle (found, malformed) =
     (case parse_evm_address X entry of
        Ok a \<Rightarrow> address_scan X es needle (found \<or> a = needle, malformed)
      | Err _ \<Rightarrow> address_scan X es needle (found, True))"

lemma address_scan_val:
  "address_scan X es needle (f, m) =
     (f \<or> Ok needle \<in> parse_evm_address X ` set es, m \<or> (\<exists>e \<in> set es. \<not> is_ok (parse_evm_address X e)))"
  by (induction es arbitrary: f m) (auto simp: result_simps split: sum.splits)


section \<open>Model\<close>

definition hl_vault_check :: "'x externals_scheme \<Rightarrow> policy \<Rightarrow> bytes option \<Rightarrow> (sign_response, unit) result" where
  "hl_vault_check X p vault =
     (case pl_allowed_vaults p of
        None \<Rightarrow> Ok ()
      | Some allowed \<Rightarrow>
          (case vault of
             None \<Rightarrow> Ok ()
           | Some v \<Rightarrow>
               (case address_scan X allowed v (False, False) of
                  (found, malformed) \<Rightarrow>
                    if malformed then Err (rsp_err POLICY_DENIED)
                    else if \<not> found then Err (rsp_err POLICY_DENIED)
                    else Ok ())))"

definition order_asset :: "json \<Rightarrow> 64 word option" where
  "order_asset order = Option.bind (json_get ''a'' order) as_u64"

definition order_size :: "json \<Rightarrow> bytes option" where
  "order_size order = Option.bind (json_get ''s'' order) as_str"

definition order_price :: "json \<Rightarrow> bytes option" where
  "order_price order = Option.bind (json_get ''p'' order) as_str"

definition order_is_limit :: "json \<Rightarrow> bool" where
  "order_is_limit order \<longleftrightarrow> Option.bind (json_get ''t'' order) (json_get ''limit'') \<noteq> None"

definition hl_notional_check ::
  "hl_order_cap \<Rightarrow> json \<Rightarrow> bytes \<Rightarrow> (sign_response, (bytes \<times> bytes) option) result" where
  "hl_notional_check cap order sz =
     (case hc_max_notional cap of
        None \<Rightarrow> Ok None
      | Some max_notional \<Rightarrow>
          if \<not> order_is_limit order then Err (rsp_err POLICY_DENIED)
          else try_res (ok_or (rsp_err BAD_REQUEST) (order_price order)) (\<lambda>px.
               try_res (notional_check POLICY_DENIED sz px max_notional) (\<lambda>_. Ok (Some (sz, px)))))"

definition hl_order_check ::
  "hl_order_cap list \<Rightarrow> json \<Rightarrow> (sign_response, 64 word \<times> hl_order_cap \<times> bytes \<times> (bytes \<times> bytes) option) result" where
  "hl_order_check caps order =
     try_res (ok_or (rsp_err BAD_REQUEST) (order_asset order)) (\<lambda>asset.
     try_res (ok_or (rsp_err BAD_REQUEST) (order_size order)) (\<lambda>sz.
     try_res (ok_or (rsp_err POLICY_DENIED) (find (\<lambda>c. hc_asset c = asset) caps)) (\<lambda>cap.
     try_res (size_check POLICY_DENIED sz (hc_max_size cap)) (\<lambda>_.
     try_res (hl_notional_check cap order sz) (\<lambda>pair. Ok (asset, cap, sz, pair))))))"

record asset_total =
  at_asset :: "64 word"
  at_cap :: hl_order_cap
  at_sizes :: "bytes list"
  at_notionals :: "(bytes \<times> bytes) list"

definition pair_list :: "'a option \<Rightarrow> 'a list" where
  "pair_list v = (case v of None \<Rightarrow> [] | Some x \<Rightarrow> [x])"

fun add_total ::
  "64 word \<Rightarrow> hl_order_cap \<Rightarrow> bytes \<Rightarrow> (bytes \<times> bytes) option \<Rightarrow> asset_total list \<Rightarrow> asset_total list" where
  "add_total asset cap sz pair [] =
     [\<lparr>at_asset = asset, at_cap = cap, at_sizes = [sz], at_notionals = pair_list pair\<rparr>]"
| "add_total asset cap sz pair (t # ts) =
     (if at_asset t = asset
      then t\<lparr>at_sizes := at_sizes t @ [sz], at_notionals := at_notionals t @ pair_list pair\<rparr> # ts
      else t # add_total asset cap sz pair ts)"

fun hl_orders_pass ::
  "hl_order_cap list \<Rightarrow> json list \<Rightarrow> asset_total list \<Rightarrow> (sign_response, asset_total list) result" where
  "hl_orders_pass caps [] totals = Ok totals"
| "hl_orders_pass caps (order # orders) totals =
     try_res (hl_order_check caps order) (\<lambda>(asset, cap, sz, pair).
       hl_orders_pass caps orders (add_total asset cap sz pair totals))"

definition size_total_check :: "asset_total \<Rightarrow> (sign_response, unit) result" where
  "size_total_check t =
     (if length (at_sizes t) > 1
      then (case sum_exceeds (at_sizes t) (hc_max_size (at_cap t)) of
              Ok b \<Rightarrow> if b then Err (rsp_err POLICY_DENIED) else Ok ()
            | Err _ \<Rightarrow> if \<not> is_ok (sum_exceeds [''1''] (hc_max_size (at_cap t))) then Err (rsp_err INTERNAL_ERROR)
                       else Err (rsp_err BAD_REQUEST))
      else Ok ())"

definition notional_total_check :: "asset_total \<Rightarrow> (sign_response, unit) result" where
  "notional_total_check t =
     (if length (at_notionals t) > 1
      then (case hc_max_notional (at_cap t) of
              None \<Rightarrow> Err (rsp_err INTERNAL_ERROR)
            | Some max_notional \<Rightarrow>
                (case notional_sum_exceeds (at_notionals t) max_notional of
                   Ok b \<Rightarrow> if b then Err (rsp_err POLICY_DENIED) else Ok ()
                 | Err _ \<Rightarrow> if \<not> is_ok (notional_sum_exceeds [(''1'', ''1'')] max_notional)
                            then Err (rsp_err INTERNAL_ERROR) else Err (rsp_err BAD_REQUEST)))
      else Ok ())"

fun totals_check :: "asset_total list \<Rightarrow> (sign_response, unit) result" where
  "totals_check [] = Ok ()"
| "totals_check (t # ts) =
     try_res (size_total_check t) (\<lambda>_. try_res (notional_total_check t) (\<lambda>_. totals_check ts))"

definition hl_size_caps_check :: "policy \<Rightarrow> json \<Rightarrow> (sign_response, unit) result" where
  "hl_size_caps_check p action =
     (case pl_hl_order_caps p of
        None \<Rightarrow> Ok ()
      | Some caps \<Rightarrow>
          (case Option.bind (json_get ''orders'' action) as_array of
             None \<Rightarrow> Ok ()
           | Some orders \<Rightarrow> try_res (hl_orders_pass caps orders []) totals_check))"

definition enforce_hl_caps ::
  "'x externals_scheme \<Rightarrow> policy option \<Rightarrow> json \<Rightarrow> bytes option \<Rightarrow> (sign_response, unit) result" where
  "enforce_hl_caps X policy_opt action vault =
     (case policy_opt of
        None \<Rightarrow> Ok ()
      | Some p \<Rightarrow> try_res (hl_vault_check X p vault) (\<lambda>_. hl_size_caps_check p action))"


section \<open>The totals of an accepted action\<close>

text \<open>The orders of one asset, their sizes and their (size, price) pairs.\<close>

definition orders_of :: "json list \<Rightarrow> 64 word \<Rightarrow> json list" where
  "orders_of orders a = filter (\<lambda>o'. order_asset o' = Some a) orders"

definition size_of :: "json \<Rightarrow> bytes" where
  "size_of order = the (order_size order)"

definition price_of :: "json \<Rightarrow> bytes" where
  "price_of order = the (order_price order)"

definition total_ok :: "hl_order_cap list \<Rightarrow> json list \<Rightarrow> asset_total \<Rightarrow> bool" where
  "total_ok caps orders t \<longleftrightarrow>
     find (\<lambda>c. hc_asset c = at_asset t) caps = Some (at_cap t)
     \<and> at_sizes t = map size_of (orders_of orders (at_asset t))
     \<and> at_notionals t = (if hc_max_notional (at_cap t) = None then []
          else map (\<lambda>o'. (size_of o', price_of o')) (orders_of orders (at_asset t)))"

definition totals_ok :: "hl_order_cap list \<Rightarrow> json list \<Rightarrow> asset_total list \<Rightarrow> bool" where
  "totals_ok caps orders ts \<longleftrightarrow>
     distinct (map at_asset ts) \<and> (\<forall>t \<in> set ts. total_ok caps orders t)
     \<and> (\<forall>a. orders_of orders a \<noteq> [] \<longrightarrow> a \<in> at_asset ` set ts)"

text \<open>What the first pass checked of each order.\<close>

definition order_ok :: "hl_order_cap list \<Rightarrow> json \<Rightarrow> bool" where
  "order_ok caps order \<longleftrightarrow>
     (\<exists>a cap sz. order_asset order = Some a \<and> order_size order = Some sz
        \<and> find (\<lambda>c. hc_asset c = a) caps = Some cap
        \<and> decimal_string sz \<and> decimal_string (hc_max_size cap) \<and> dec_rat sz \<le> dec_rat (hc_max_size cap)
        \<and> (\<forall>mx. hc_max_notional cap = Some mx \<longrightarrow>
             (\<exists>px. order_is_limit order \<and> order_price order = Some px \<and> decimal_string px \<and> decimal_string mx
                \<and> dec_rat sz * dec_rat px \<le> dec_rat mx)))"

lemma hl_order_check_Ok:
  assumes "hl_order_check caps order = Ok (a, cap, sz, pair)"
  shows "order_asset order = Some a" "order_size order = Some sz" "find (\<lambda>c. hc_asset c = a) caps = Some cap"
    and "order_ok caps order"
    and "pair = (if hc_max_notional cap = None then None else Some (sz, price_of order))"
  using assms
  by (auto simp: hl_order_check_def hl_notional_check_def order_ok_def price_of_def result_simps size_check_Ok
      notional_check_Ok split: option.splits if_splits)


lemma add_total_assets:
  "map at_asset (add_total a cap sz pair ts) = map at_asset ts @ (if a \<in> at_asset ` set ts then [] else [a])"
  by (induction a cap sz pair ts rule: add_total.induct) auto

lemma add_total_members:
  assumes "t \<in> set (add_total a cap sz pair ts)" "distinct (map at_asset ts)"
  shows "(t \<in> set ts \<and> at_asset t \<noteq> a)
    \<or> (\<exists>t0 \<in> set ts. at_asset t0 = a
          \<and> t = t0\<lparr>at_sizes := at_sizes t0 @ [sz], at_notionals := at_notionals t0 @ pair_list pair\<rparr>)
    \<or> (a \<notin> at_asset ` set ts
          \<and> t = \<lparr>at_asset = a, at_cap = cap, at_sizes = [sz], at_notionals = pair_list pair\<rparr>)"
  using assms
proof (induction a cap sz pair ts rule: add_total.induct)
  case (2 a cap sz pair t0 ts)
  then show ?case by (cases "at_asset t0 = a") (auto simp: image_iff)
qed simp

lemma orders_of_snoc:
  "orders_of (orders @ [o']) a = orders_of orders a @ (if order_asset o' = Some a then [o'] else [])"
  by (simp add: orders_of_def)

lemma total_ok_step:
  assumes inv: "totals_ok caps orders ts" and o': "hl_order_check caps o' = Ok (a, cap, sz, pair)"
    and t: "t \<in> set (add_total a cap sz pair ts)"
  shows "total_ok caps (orders @ [o']) t"
proof -
  note chk = hl_order_check_Ok [OF o']
  have sz: "size_of o' = sz"
    using chk(2) by (simp add: size_of_def)
  have pair: "pair_list pair = (if hc_max_notional cap = None then [] else [(sz, price_of o')])"
    by (simp add: chk(5) pair_list_def)
  consider (other) "t \<in> set ts" "at_asset t \<noteq> a"
    | (grow) t0 where "t0 \<in> set ts" "at_asset t0 = a"
        "t = t0\<lparr>at_sizes := at_sizes t0 @ [sz], at_notionals := at_notionals t0 @ pair_list pair\<rparr>"
    | (new) "a \<notin> at_asset ` set ts" "t = \<lparr>at_asset = a, at_cap = cap, at_sizes = [sz], at_notionals = pair_list pair\<rparr>"
    using add_total_members [OF t] inv by (auto simp: totals_ok_def)
  then show ?thesis
  proof cases
    case other
    then show ?thesis
      using inv chk(1) by (auto simp: totals_ok_def total_ok_def orders_of_snoc)
  next
    case grow
    then have "total_ok caps orders t0"
      using inv by (simp add: totals_ok_def)
    moreover from this grow chk(3) have "at_cap t0 = cap"
      by (simp add: total_ok_def)
    ultimately show ?thesis
      using grow chk(1) sz pair by (simp add: total_ok_def orders_of_snoc)
  next
    case new
    then have "orders_of orders a = []"
      using inv by (auto simp: totals_ok_def)
    then show ?thesis
      using new chk(1,3) sz pair by (simp add: total_ok_def orders_of_snoc)
  qed
qed

lemma totals_ok_step:
  assumes "totals_ok caps orders ts" "hl_order_check caps o' = Ok (a, cap, sz, pair)"
  shows "totals_ok caps (orders @ [o']) (add_total a cap sz pair ts)"
proof -
  have assets: "at_asset ` set (add_total a cap sz pair ts) = insert a (at_asset ` set ts)"
    using arg_cong [OF add_total_assets, of set] by (auto split: if_splits)
  have "distinct (map at_asset (add_total a cap sz pair ts))"
    using assms(1) by (auto simp: add_total_assets totals_ok_def)
  moreover have "b \<in> at_asset ` set (add_total a cap sz pair ts)" if "orders_of (orders @ [o']) b \<noteq> []" for b
    using that assms(1) hl_order_check_Ok(1) [OF assms(2)]
    by (auto simp: assets orders_of_snoc totals_ok_def split: if_splits)
  ultimately show ?thesis
    using total_ok_step [OF assms] by (auto simp: totals_ok_def)
qed

lemma hl_orders_pass_ok:
  assumes "totals_ok caps prev ts" "hl_orders_pass caps orders ts = Ok ts'" "list_all (order_ok caps) prev"
  shows "totals_ok caps (prev @ orders) ts' \<and> list_all (order_ok caps) (prev @ orders)"
  using assms
proof (induction orders arbitrary: ts prev)
  case Nil
  then show ?case by simp
next
  case (Cons o' orders)
  then obtain a cap sz pair where chk: "hl_order_check caps o' = Ok (a, cap, sz, pair)"
      and rest: "hl_orders_pass caps orders (add_total a cap sz pair ts) = Ok ts'"
    by (auto simp: result_simps)
  show ?case
    using Cons.IH [OF totals_ok_step [OF Cons.prems(1) chk] rest] Cons.prems(3) hl_order_check_Ok(4) [OF chk] by simp
qed

lemma totals_check_Ok: "totals_check ts = Ok () \<longleftrightarrow> (\<forall>t \<in> set ts. size_total_check t = Ok () \<and> notional_total_check t = Ok ())"
  by (induction ts) (auto simp: result_simps)

text \<open>The aggregate pass, with the one-element lists it skips covered by the first pass.\<close>

lemma size_total_check_Ok:
  assumes "size_total_check t = Ok ()" "length (at_sizes t) \<le> 1 \<Longrightarrow> sum_list (map dec_rat (at_sizes t)) \<le> c"
    and "c = dec_rat (hc_max_size (at_cap t))"
  shows "sum_list (map dec_rat (at_sizes t)) \<le> c"
  using assms sizes.within [of "at_sizes t" "hc_max_size (at_cap t)"]
  by (auto simp: size_total_check_def split: if_splits sum.splits)

lemma notional_total_check_Ok:
  assumes "notional_total_check t = Ok ()" "hc_max_notional (at_cap t) = Some mx"
    and "length (at_notionals t) \<le> 1 \<Longrightarrow> sum_list (map pair_val (at_notionals t)) \<le> dec_rat mx"
  shows "sum_list (map pair_val (at_notionals t)) \<le> dec_rat mx"
  using assms notionals.within [of "at_notionals t" mx]
  by (auto simp: notional_total_check_def split: if_splits sum.splits)


lemma order_ok_bounds:
  assumes "order_ok caps o'" "order_asset o' = Some a" "find (\<lambda>c. hc_asset c = a) caps = Some cap"
  shows "dec_rat (size_of o') \<le> dec_rat (hc_max_size cap)"
    and "hc_max_notional cap = Some mx \<Longrightarrow> dec_rat (size_of o') * dec_rat (price_of o') \<le> dec_rat mx"
  using assms by (auto simp: order_ok_def size_of_def price_of_def)

lemma accepted_totals:
  assumes "hl_orders_pass caps orders [] = Ok ts" "totals_check ts = Ok ()" "orders_of orders a \<noteq> []"
  obtains cap where "find (\<lambda>c. hc_asset c = a) caps = Some cap"
    "sum_list (map (\<lambda>o'. dec_rat (size_of o')) (orders_of orders a)) \<le> dec_rat (hc_max_size cap)"
    "\<forall>mx. hc_max_notional cap = Some mx \<longrightarrow>
       sum_list (map (\<lambda>o'. dec_rat (size_of o') * dec_rat (price_of o')) (orders_of orders a)) \<le> dec_rat mx"
proof -
  have "totals_ok caps [] []"
    by (simp add: totals_ok_def orders_of_def)
  then have inv: "totals_ok caps orders ts" and each: "list_all (order_ok caps) orders"
    using hl_orders_pass_ok [of caps "[]" "[]" orders ts] assms(1) by simp_all
  then obtain t where t: "t \<in> set ts" "at_asset t = a" "total_ok caps orders t"
    using assms(3) by (auto simp: totals_ok_def)
  define cap where "cap = at_cap t"
  have cap: "find (\<lambda>c. hc_asset c = a) caps = Some cap"
    using t by (simp add: total_ok_def cap_def)
  have sizes: "at_sizes t = map size_of (orders_of orders a)"
    using t by (simp add: total_ok_def)
  have chk: "size_total_check t = Ok ()" "notional_total_check t = Ok ()"
    using assms(2) t(1) by (simp_all add: totals_check_Ok)
  have single: "\<exists>o'. orders_of orders a = [o'] \<and> order_ok caps o' \<and> order_asset o' = Some a"
    if len: "length (orders_of orders a) \<le> 1"
  proof -
    obtain o' where o': "orders_of orders a = [o']"
      using len assms(3) by (cases "orders_of orders a") auto
    then have "o' \<in> set orders \<and> order_asset o' = Some a"
      using list.set_intros(1) [of o' "[]"] by (simp only: o' [symmetric] orders_of_def set_filter mem_Collect_eq)
    then show ?thesis using o' each by (auto simp: list_all_iff)
  qed
  have "sum_list (map dec_rat (at_sizes t)) \<le> dec_rat (hc_max_size cap)"
  proof (rule size_total_check_Ok [OF chk(1)])
    assume "length (at_sizes t) \<le> 1"
    then obtain o' where "orders_of orders a = [o']" "order_ok caps o'" "order_asset o' = Some a"
      using single by (auto simp: sizes)
    then show "sum_list (map dec_rat (at_sizes t)) \<le> dec_rat (hc_max_size cap)"
      using order_ok_bounds(1) [OF _ _ cap] by (simp add: sizes)
  qed (simp add: cap_def)
  then have size_sum: "sum_list (map (\<lambda>o'. dec_rat (size_of o')) (orders_of orders a)) \<le> dec_rat (hc_max_size cap)"
    by (simp add: sizes comp_def)
  have "sum_list (map (\<lambda>o'. dec_rat (size_of o') * dec_rat (price_of o')) (orders_of orders a)) \<le> dec_rat mx"
    if mx: "hc_max_notional cap = Some mx" for mx
  proof -
    have pairs: "at_notionals t = map (\<lambda>o'. (size_of o', price_of o')) (orders_of orders a)"
      using t mx by (simp add: total_ok_def cap_def)
    have "sum_list (map pair_val (at_notionals t)) \<le> dec_rat mx"
    proof (rule notional_total_check_Ok [OF chk(2) mx [unfolded cap_def]])
      assume "length (at_notionals t) \<le> 1"
      then obtain o' where "orders_of orders a = [o']" "order_ok caps o'" "order_asset o' = Some a"
        using single by (auto simp: pairs)
      then show "sum_list (map pair_val (at_notionals t)) \<le> dec_rat mx"
        using order_ok_bounds(2) [OF _ _ cap mx] by (simp add: pairs)
    qed
    then show ?thesis
      by (simp add: pairs comp_def)
  qed
  then show thesis
    using that [OF cap size_sum] by simp
qed

text \<open>All orders of one asset together respect the asset's cap.\<close>

definition asset_bounded :: "hl_order_cap list \<Rightarrow> json list \<Rightarrow> 64 word \<Rightarrow> bool" where
  "asset_bounded caps orders a \<longleftrightarrow>
     (\<exists>cap. find (\<lambda>c. hc_asset c = a) caps = Some cap
        \<and> sum_list (map (\<lambda>o'. dec_rat (size_of o')) (orders_of orders a)) \<le> dec_rat (hc_max_size cap)
        \<and> (\<forall>mx. hc_max_notional cap = Some mx \<longrightarrow>
             sum_list (map (\<lambda>o'. dec_rat (size_of o') * dec_rat (price_of o')) (orders_of orders a)) \<le> dec_rat mx))"

lemma accepted_assets_bounded:
  assumes "enforce_hl_caps X (Some p) action vault = Ok ()" "pl_hl_order_caps p = Some caps"
    and "Option.bind (json_get ''orders'' action) as_array = Some orders" "orders_of orders a \<noteq> []"
  shows "asset_bounded caps orders a"
proof -
  have "hl_size_caps_check p action = Ok ()"
    using assms(1) by (auto simp: enforce_hl_caps_def try_res_Inr)
  then obtain ts where ts: "hl_orders_pass caps orders [] = Ok ts" "totals_check ts = Ok ()"
    using assms(2,3) by (auto simp: hl_size_caps_check_def try_res_Inr)
  from accepted_totals [OF ts assms(4)] show ?thesis
    unfolding asset_bounded_def by blast
qed

text \<open>
  A Hyperliquid action that passes the caps is bounded as a whole.  For every asset that
  the action trades, the policy lists a cap, the exact sum of the sizes of all its orders in
  the action is at most \<open>max_size\<close>, and where the cap has a \<open>max_notional\<close> the exact sum of size
  times price is at most it: splitting an order into many under one signature gains nothing.
\<close>

theorem hl_action_bounded:
  assumes "enforce_hl_caps X (Some p) action vault = Ok ()" "pl_hl_order_caps p = Some caps"
    and "Option.bind (json_get ''orders'' action) as_array = Some orders" "orders_of orders a \<noteq> []"
  shows "\<exists>cap. find (\<lambda>c. hc_asset c = a) caps = Some cap
    \<and> sum_list (map (\<lambda>o'. dec_rat (size_of o')) (orders_of orders a)) \<le> dec_rat (hc_max_size cap)
    \<and> (\<forall>mx. hc_max_notional cap = Some mx \<longrightarrow>
         sum_list (map (\<lambda>o'. dec_rat (size_of o') * dec_rat (price_of o')) (orders_of orders a)) \<le> dec_rat mx)"
  using accepted_assets_bounded [OF assms] unfolding asset_bounded_def .

definition sample_hl_order :: "bytes \<Rightarrow> bytes \<Rightarrow> json" where
  "sample_hl_order sz px = Object [(''a'', Number (PosInt 7)), (''b'', Bool True), (''p'', String px), (''s'', String sz),
     (''r'', Bool False), (''t'', Object [(''limit'', Object [(''tif'', String ''Gtc'')])])]"

definition sample_hl_action :: json where
  "sample_hl_action = Object [(''type'', String ''order''),
     (''orders'', Array [sample_hl_order ''0.4'' ''10'', sample_hl_order ''0.6'' ''20''])]"

definition sample_hl_policy :: policy where
  "sample_hl_policy = policy_default\<lparr>pl_hl_order_caps :=
     Some [\<lparr>hc_asset = 7, hc_max_size = ''1.0'', hc_max_notional = Some ''16''\<rparr>]\<rparr>"

theorem hl_action_bounded_witness:
  "dec_rat ''0.4'' * dec_rat ''10'' + dec_rat ''0.6'' * dec_rat ''20'' \<le> dec_rat ''16''"
proof -
  define orders where "orders = [sample_hl_order ''0.4'' ''10'', sample_hl_order ''0.6'' ''20'']"
  have ok: "enforce_hl_caps sample_ext (Some sample_hl_policy) sample_hl_action None = Ok ()"
    by code_simp
  have caps: "pl_hl_order_caps sample_hl_policy = Some [\<lparr>hc_asset = 7, hc_max_size = ''1.0'', hc_max_notional = Some ''16''\<rparr>]"
    by (simp add: sample_hl_policy_def)
  have arr: "Option.bind (json_get ''orders'' sample_hl_action) as_array = Some orders"
    by (simp add: sample_hl_action_def orders_def)
  have all: "orders_of orders 7 = orders"
    by (simp add: orders_of_def orders_def sample_hl_order_def order_asset_def)
  then have "orders_of orders 7 \<noteq> []"
    by (simp add: orders_def)
  from hl_action_bounded [OF ok caps arr this] show ?thesis
    by (simp add: all) (simp add: orders_def size_of_def price_of_def order_size_def order_price_def sample_hl_order_def)
qed

end
