(* ===== verification/Evm_Caps.thy ===== *)
theory Evm_Caps
  imports Hl_Caps
begin

text \<open>
  The spending rules of x402 payments and Permit2 allowances in
  \<^verbatim>\<open>enclave/src/handler.rs\<close>.  Unlike the order caps they are mandatory: a missing policy,
  clause or field refuses.  Amounts are compared as 32-byte big-endian arrays.

  Shown here: a payment passes exactly when chain, token and recipient are pinned
  by the policy and the amount is at most the ceiling as a number; an allowance
  passes exactly when, further, it is not the infinite one and does not outlive
  the ceiling on its expiration.
\<close>

section \<open>Big-endian comparison\<close>

definition be_nat :: "bytes \<Rightarrow> nat" where
  "be_nat s = foldl (\<lambda>n c. n * 256 + byte c) 0 s"

lemma be_nat_Nil [simp]: "be_nat [] = 0"
  by (simp add: be_nat_def)

lemma be_nat_snoc [simp]: "be_nat (s @ [c]) = be_nat s * 256 + byte c"
  by (simp add: be_nat_def)

lemma be_nat_Cons: "be_nat (c # s) = byte c * 256 ^ length s + be_nat s"
  by (induction s rule: rev_induct) (simp_all flip: append_Cons add: algebra_simps del: append_Cons, simp add: be_nat_def)

lemma be_nat_bound: "be_nat s < 256 ^ length s"
proof (induction s)
  case Nil
  show ?case by simp
next
  case (Cons c s)
  have "byte c + 1 \<le> 256"
    using nat_of_char_less_256 [of c] by linarith
  then have "(byte c + 1) * 256 ^ length s \<le> 256 * 256 ^ length s"
    by (rule mult_le_mono1)
  then have "byte c * 256 ^ length s + 256 ^ length s \<le> 256 * 256 ^ length s"
    by (simp only: add_mult_distrib mult_1)
  then show ?case
    using Cons unfolding be_nat_Cons length_Cons power_Suc by linarith
qed

text \<open>Lexicographic order on arrays of one length is the order of the numbers.\<close>

lemma str_less_be_nat: "length s = length t \<Longrightarrow> str_less s t \<longleftrightarrow> be_nat s < be_nat t"
proof (induction s t rule: list_induct2)
  case Nil
  then show ?case by simp
next
  case (Cons x xs y ys)
  have step: "be_nat (a # as) < be_nat (b # bs)" if "byte a < byte b" "length as = length bs" for a b as bs
  proof -
    have "byte a * 256 ^ length as + 256 ^ length as \<le> byte b * 256 ^ length bs"
      using that mult_le_mono1 [of "byte a + 1" "byte b" "256 ^ length as"] by (simp add: algebra_simps)
    then show ?thesis
      using be_nat_bound [of as] by (simp add: be_nat_Cons)
  qed
  show ?case
  proof (cases "byte x" "byte y" rule: linorder_cases)
    case less
    then show ?thesis using step [of x y xs ys] Cons.hyps by simp
  next
    case equal
    then show ?thesis using Cons by (simp add: be_nat_Cons)
  next
    case greater
    then show ?thesis using step [of y x ys xs] Cons.hyps by auto
  qed
qed

lemma be_nat_be_bytes: "n < 256 ^ k \<Longrightarrow> be_nat (be_bytes k n) = n"
proof (induction k arbitrary: n)
  case 0
  then show ?case by (simp add: be_bytes_def)
next
  case (Suc k)
  have "be_bytes (Suc k) n = be_bytes k (n div 256) @ [char_of (n mod 256)]"
    using be_bytes_snoc [of "n mod 256" k "n div 256"] by simp
  moreover have "n div 256 < 256 ^ k"
    using Suc.prems by (simp add: div_less_iff_less_mult mult.commute)
  ultimately show ?case
    using Suc.IH by simp
qed


section \<open>Model\<close>

definition enforce_x402_cap ::
  "'x externals_scheme \<Rightarrow> policy option \<Rightarrow> 64 word \<Rightarrow> bytes \<Rightarrow> bytes \<Rightarrow> bytes \<Rightarrow> (sign_response, unit) result" where
  "enforce_x402_cap X policy_opt req_chain_id token_address to val =
     try_res (ok_or (rsp_err POLICY_REQUIRED) policy_opt) (\<lambda>p.
     try_res (ok_or (rsp_err POLICY_REQUIRED) (pl_x402 p)) (\<lambda>cap.
     try_res (ok_or (rsp_err POLICY_REQUIRED) (xp_chain_id cap)) (\<lambda>cid.
     if cid \<noteq> req_chain_id then Err (rsp_err POLICY_DENIED)
     else try_res (ok_or (rsp_err POLICY_REQUIRED) (xp_token_address cap)) (\<lambda>tok.
     if parse_evm_address X tok \<noteq> Ok token_address then Err (rsp_err POLICY_DENIED)
     else try_res (ok_or (rsp_err POLICY_REQUIRED) (xp_max_value cap)) (\<lambda>mx.
     if (case parse_u256_be_decimal mx of Ok max_bytes \<Rightarrow> str_less max_bytes val | Err _ \<Rightarrow> True)
     then Err (rsp_err POLICY_DENIED)
     else try_res (ok_or (rsp_err POLICY_REQUIRED) (xp_allowed_recipients cap)) (\<lambda>recipients.
     case address_scan X recipients to (False, False) of
       (recipient_ok, malformed) \<Rightarrow>
         if malformed then Err (rsp_err POLICY_DENIED)
         else if \<not> recipient_ok then Err (rsp_err POLICY_DENIED)
         else Ok ()))))))"

definition permit2_request_shape :: "permit2_request \<Rightarrow> (unit, bytes) result" where
  "permit2_request_shape p2 =
     (if pr_expiration p2 > UINT48_MAX \<or> pr_nonce p2 > UINT48_MAX then Err ()
      else try_res (map_err (\<lambda>_. ()) (parse_u256_be_decimal (pr_amount p2))) (\<lambda>amount.
        if list_ex (\<lambda>b. b \<noteq> CHR 0x00) (take 12 amount) then Err ()
        else try_res (map_err (\<lambda>_. ()) (parse_u256_be_decimal (pr_sig_deadline p2))) (\<lambda>_. Ok amount)))"

fun permit2_list_scan :: "'x externals_scheme \<Rightarrow> bytes list \<Rightarrow> bytes \<Rightarrow> bool \<Rightarrow> (sign_response, bool) result" where
  "permit2_list_scan X [] needle found = Ok found"
| "permit2_list_scan X (it # items) needle found =
     (case parse_evm_address X it of
        Ok a \<Rightarrow> permit2_list_scan X items needle (found \<or> a = needle)
      | Err _ \<Rightarrow> Err (rsp_err POLICY_REQUIRED))"

definition permit2_allow_list ::
  "'x externals_scheme \<Rightarrow> bytes list option \<Rightarrow> bytes \<Rightarrow> (sign_response, unit) result" where
  "permit2_allow_list X items_opt needle =
     (case items_opt of
        None \<Rightarrow> Err (rsp_err POLICY_REQUIRED)
      | Some items \<Rightarrow>
          if items = [] then Err (rsp_err POLICY_REQUIRED)
          else try_res (permit2_list_scan X items needle False) (\<lambda>found.
                 if found then Ok () else Err (rsp_err POLICY_DENIED)))"

definition permit2_infinite :: "bytes \<Rightarrow> bool" where
  "permit2_infinite amount \<longleftrightarrow>
     list_all (\<lambda>b. b = CHR 0x00) (take 12 amount) \<and> list_all (\<lambda>b. b = CHR 0xFF) (drop 12 amount)"

definition enforce_permit2_allowance ::
  "'x externals_scheme \<Rightarrow> policy option \<Rightarrow> 64 word \<Rightarrow> bytes \<Rightarrow> bytes \<Rightarrow> bytes \<Rightarrow> bytes \<Rightarrow> 64 word
     \<Rightarrow> (sign_response, unit) result" where
  "enforce_permit2_allowance X policy_opt req_chain_id verifying_contract token spender amount expiration =
     try_res (ok_or (rsp_err POLICY_REQUIRED) policy_opt) (\<lambda>p.
     try_res (ok_or (rsp_err POLICY_REQUIRED) (pl_permit2 p)) (\<lambda>c.
     if permit2_infinite amount then Err (rsp_err POLICY_DENIED)
     else try_res (ok_or (rsp_err POLICY_REQUIRED) (pp_chain_id c)) (\<lambda>want_chain.
     if want_chain \<noteq> req_chain_id then Err (rsp_err POLICY_DENIED)
     else try_res (ok_or (rsp_err POLICY_REQUIRED) (pp_verifying_contract c)) (\<lambda>want_contract.
     case parse_evm_address X want_contract of
       Err _ \<Rightarrow> Err (rsp_err POLICY_REQUIRED)
     | Ok a \<Rightarrow>
         if a \<noteq> verifying_contract then Err (rsp_err POLICY_DENIED)
         else try_res (permit2_allow_list X (pp_allowed_tokens c) token) (\<lambda>_.
              try_res (permit2_allow_list X (pp_allowed_spenders c) spender) (\<lambda>_.
              try_res (ok_or (rsp_err POLICY_REQUIRED) (pp_max_amount c)) (\<lambda>mx.
              try_res (map_err (\<lambda>_. rsp_err POLICY_REQUIRED) (parse_u256_be_decimal mx)) (\<lambda>max_word.
              if str_less max_word amount then Err (rsp_err POLICY_DENIED)
              else try_res (ok_or (rsp_err POLICY_REQUIRED) (pp_max_expiration c)) (\<lambda>max_exp.
                   if expiration > max_exp then Err (rsp_err POLICY_DENIED) else Ok ())))))))))"



section \<open>What passes\<close>

lemma parse_u256_le:
  assumes "length v = 32"
  shows "(case parse_u256_be_decimal mx of Ok m \<Rightarrow> \<not> str_less m v | Err _ \<Rightarrow> False) \<longleftrightarrow>
    is_ok (parse_u256_be_decimal mx) \<and> be_nat v \<le> dec_val (trim mx)"
proof (cases "parse_u256_be_decimal mx")
  case (Inl e)
  then show ?thesis by simp
next
  case (Inr m)
  then have "dec_val (trim mx) < 2 ^ 256" "m = be_bytes 32 (dec_val (trim mx))"
    by (auto simp: parse_u256_spec split: if_splits)
  then have "be_nat m = dec_val (trim mx)" "length m = 32"
    using be_nat_be_bytes [of "dec_val (trim mx)" 32] by simp_all
  then show ?thesis
    using Inr assms str_less_be_nat [of m v] by (simp add: not_less)
qed

definition x402_permits ::
  "'x externals_scheme \<Rightarrow> x402_policy \<Rightarrow> 64 word \<Rightarrow> bytes \<Rightarrow> bytes \<Rightarrow> nat \<Rightarrow> bool" where
  "x402_permits X cap chain token to amount \<longleftrightarrow>
     xp_chain_id cap = Some chain
     \<and> (\<exists>tok. xp_token_address cap = Some tok \<and> parse_evm_address X tok = Ok token)
     \<and> (\<exists>mx. xp_max_value cap = Some mx \<and> is_ok (parse_u256_be_decimal mx) \<and> amount \<le> dec_val (trim mx))
     \<and> (\<exists>rs. xp_allowed_recipients cap = Some rs \<and> (\<forall>r \<in> set rs. is_ok (parse_evm_address X r))
          \<and> Ok to \<in> parse_evm_address X ` set rs)"

lemma enforce_x402_cap_Ok:
  assumes "length val = 32"
  shows "enforce_x402_cap X po chain token to val = Ok () \<longleftrightarrow>
    (\<exists>p cap. po = Some p \<and> pl_x402 p = Some cap \<and> x402_permits X cap chain token to (be_nat val))"
proof -
  have "(case parse_u256_be_decimal mx of Ok m \<Rightarrow> str_less m val | Err _ \<Rightarrow> True) \<longleftrightarrow>
      \<not> (is_ok (parse_u256_be_decimal mx) \<and> be_nat val \<le> dec_val (trim mx))" for mx
    using parse_u256_le [OF assms, of mx] by (auto split: sum.splits)
  note amount = this
  have main: "enforce_x402_cap X (Some p) chain token to val = Ok () \<longleftrightarrow> x402_permits X cap chain token to (be_nat val)"
    if "pl_x402 p = Some cap" for p cap
    using that unfolding enforce_x402_cap_def x402_permits_def amount
    by (cases "xp_chain_id cap"; cases "xp_token_address cap"; cases "xp_max_value cap"; cases "xp_allowed_recipients cap")
      (auto simp: address_scan_val)
  show ?thesis
  proof (cases po)
    case None
    then show ?thesis by (simp add: enforce_x402_cap_def)
  next
    case (Some p)
    have "pl_x402 p = None \<Longrightarrow> enforce_x402_cap X (Some p) chain token to val \<noteq> Ok ()"
      by (simp add: enforce_x402_cap_def)
    then show ?thesis
      using main [of p] Some by (cases "pl_x402 p") simp_all
  qed
qed


lemma permit2_list_scan_Ok:
  "permit2_list_scan X items needle f = Ok b \<longleftrightarrow>
     (\<forall>it \<in> set items. is_ok (parse_evm_address X it)) \<and> b = (f \<or> Ok needle \<in> parse_evm_address X ` set items)"
  by (induction items arbitrary: f) (auto split: sum.splits)

lemma permit2_allow_list_Ok:
  "permit2_allow_list X l needle = Ok () \<longleftrightarrow>
     (\<exists>items. l = Some items \<and> (\<forall>it \<in> set items. is_ok (parse_evm_address X it))
        \<and> (\<exists>a \<in> set items. parse_evm_address X a = Ok needle))"
proof -
  have "Ok needle \<in> parse_evm_address X ` set items \<longleftrightarrow> (\<exists>a \<in> set items. parse_evm_address X a = Ok needle)" for items
    by (auto simp: image_iff eq_commute [of "Ok needle"])
  then show ?thesis
    by (cases l) (auto simp: permit2_allow_list_def try_res_Inr permit2_list_scan_Ok)
qed

lemma be_nat_inj: "length s = length t \<Longrightarrow> be_nat s = be_nat t \<longleftrightarrow> s = t"
proof (induction s t rule: list_induct2)
  case Nil
  show ?case by simp
next
  case (Cons x xs y ys)
  have split: "be_nat (c # cs) div 256 ^ length cs = byte c" "be_nat (c # cs) mod 256 ^ length cs = be_nat cs" for c cs
    using be_nat_bound [of cs] by (simp_all add: be_nat_Cons)
  show ?case
    using split [of x xs] split [of y ys] Cons by (metis byte_inject list.inject)
qed

lemma be_nat_append: "be_nat (s @ t) = be_nat s * 256 ^ length t + be_nat t"
  by (induction t rule: rev_induct) (simp_all flip: append_assoc add: algebra_simps)

lemma be_nat_replicate_FF: "be_nat (replicate n (CHR 0xFF)) = 256 ^ n - 1"
proof (induction n)
  case 0
  show ?case by simp
next
  case (Suc n)
  have "(1::nat) \<le> 256 ^ n" by simp
  then show ?case
    using Suc by (simp add: be_nat_Cons)
qed

lemma be_nat_replicate_00: "be_nat (replicate n (CHR 0x00)) = 0"
  by (induction n) (simp_all add: be_nat_Cons)

lemma list_all_same: "list_all (\<lambda>b. b = c) xs \<longleftrightarrow> xs = replicate (length xs) c"
  by (induction xs) auto

lemma permit2_infinite_iff:
  assumes "length amount = 32"
  shows "permit2_infinite amount \<longleftrightarrow> be_nat amount = 2 ^ 160 - 1"
proof -
  define top where "top = replicate 12 (CHR 0x00) @ replicate 20 (CHR 0xFF)"
  have len: "length (take 12 amount) = 12" "length (drop 12 amount) = 20"
    using assms by simp_all
  have "permit2_infinite amount \<longleftrightarrow> take 12 amount = replicate 12 (CHR 0x00) \<and> drop 12 amount = replicate 20 (CHR 0xFF)"
    unfolding permit2_infinite_def list_all_same len ..
  also have "\<dots> \<longleftrightarrow> take 12 amount @ drop 12 amount = top"
    unfolding top_def by (rule append_eq_append_conv [symmetric], rule disjI1) (simp only: len length_replicate)
  also have "\<dots> \<longleftrightarrow> amount = top"
    by (simp only: append_take_drop_id)
  also have "\<dots> \<longleftrightarrow> be_nat amount = be_nat top"
    using be_nat_inj [of amount top] assms by (simp add: top_def)
  also have "be_nat top = 256 ^ 20 - 1"
    by (simp only: top_def be_nat_append be_nat_replicate_00 be_nat_replicate_FF)
  also have "(256::nat) ^ 20 - 1 = 2 ^ 160 - 1"
    by simp
  finally show ?thesis .
qed

definition permit2_permits ::
  "'x externals_scheme \<Rightarrow> permit2_policy \<Rightarrow> 64 word \<Rightarrow> bytes \<Rightarrow> bytes \<Rightarrow> bytes \<Rightarrow> nat \<Rightarrow> 64 word \<Rightarrow> bool" where
  "permit2_permits X c chain contract token spender amount expiration \<longleftrightarrow>
     amount \<noteq> 2 ^ 160 - 1
     \<and> pp_chain_id c = Some chain
     \<and> (\<exists>a. pp_verifying_contract c = Some a \<and> parse_evm_address X a = Ok contract)
     \<and> permit2_allow_list X (pp_allowed_tokens c) token = Ok ()
     \<and> permit2_allow_list X (pp_allowed_spenders c) spender = Ok ()
     \<and> (\<exists>mx. pp_max_amount c = Some mx \<and> is_ok (parse_u256_be_decimal mx) \<and> amount \<le> dec_val (trim mx))
     \<and> (\<exists>mx. pp_max_expiration c = Some mx \<and> expiration \<le> mx)"


lemma enforce_permit2_Ok:
  assumes "length amount = 32"
  shows "enforce_permit2_allowance X po chain contract token spender amount expiration = Ok () \<longleftrightarrow>
    (\<exists>p c. po = Some p \<and> pl_permit2 p = Some c
       \<and> permit2_permits X c chain contract token spender (be_nat amount) expiration)"
proof -
  have amount: "try_res (map_err e (parse_u256_be_decimal mx)) (\<lambda>m. if str_less m amount then Err d else k) = Ok () \<longleftrightarrow>
      is_ok (parse_u256_be_decimal mx) \<and> be_nat amount \<le> dec_val (trim mx) \<and> k = Ok ()" for mx e d k
    using parse_u256_le [OF assms, of mx] by (cases "parse_u256_be_decimal mx") auto
  have main: "enforce_permit2_allowance X (Some p) chain contract token spender amount expiration = Ok () \<longleftrightarrow>
      permit2_permits X c chain contract token spender (be_nat amount) expiration" if "pl_permit2 p = Some c" for p c
    using that permit2_infinite_iff [OF assms]
    unfolding enforce_permit2_allowance_def permit2_permits_def
    by (cases "pp_chain_id c"; cases "pp_verifying_contract c"; cases "pp_max_amount c"; cases "pp_max_expiration c")
      (auto simp: try_res_Inr [where m = "permit2_allow_list _ _ _"] amount not_less split: sum.splits)
  show ?thesis
  proof (cases po)
    case None
    then show ?thesis by (simp add: enforce_permit2_allowance_def)
  next
    case (Some p)
    have "pl_permit2 p = None \<Longrightarrow> enforce_permit2_allowance X (Some p) chain contract token spender amount expiration \<noteq> Ok ()"
      by (simp add: enforce_permit2_allowance_def)
    then show ?thesis
      using main [of p] Some by (cases "pl_permit2 p") simp_all
  qed
qed


text \<open>
  C19: An x402 payment passes the spending gate exactly when the policy has an x402 clause
  that pins this chain and this token, sets a ceiling of which the amount, read as a
  256-bit number, is at most, and lists this recipient in an allow-list all of whose entries
  are well formed.  Nothing missing means unlimited.
\<close>

theorem x402_cap_exact:
  assumes "length val = 32"
  shows "enforce_x402_cap X po chain token to val = Ok () \<longleftrightarrow>
    (\<exists>p cap tok mx rs. po = Some p \<and> pl_x402 p = Some cap \<and> xp_chain_id cap = Some chain
       \<and> xp_token_address cap = Some tok \<and> parse_evm_address X tok = Ok token
       \<and> xp_max_value cap = Some mx \<and> is_ok (parse_u256_be_decimal mx) \<and> be_nat val \<le> dec_val (trim mx)
       \<and> xp_allowed_recipients cap = Some rs \<and> (\<forall>r \<in> set rs. is_ok (parse_evm_address X r))
       \<and> Ok to \<in> parse_evm_address X ` set rs)"
  unfolding enforce_x402_cap_Ok [OF assms] x402_permits_def by blast

definition sample_x402_policy :: policy where
  "sample_x402_policy = policy_default\<lparr>pl_x402 := Some \<lparr>xp_chain_id = Some 1,
     xp_token_address = Some (replicate 40 (CHR ''a'')), xp_max_value = Some ''1000'',
     xp_allowed_recipients = Some [replicate 40 (CHR ''b'')]\<rparr>\<rparr>"

definition amount_word :: "char \<Rightarrow> char \<Rightarrow> bytes" where
  "amount_word hi lo = replicate 30 (CHR 0x00) @ [hi, lo]"

lemma be_nat_amount_word: "be_nat (amount_word hi lo) = byte hi * 256 + byte lo"
proof -
  have "be_nat [hi, lo] = byte hi * 256 + byte lo"
    by (simp add: be_nat_def)
  then show ?thesis
    by (simp add: amount_word_def be_nat_append be_nat_replicate_00)
qed

theorem x402_cap_exact_witness:
  "enforce_x402_cap sample_ext (Some sample_x402_policy) 1 (replicate 20 (CHR ''a'')) (replicate 20 (CHR ''b''))
     (amount_word (CHR 0x03) (CHR 0xE8)) = Ok ()
   \<and> enforce_x402_cap sample_ext None 1 (replicate 20 (CHR ''a'')) (replicate 20 (CHR ''b''))
     (amount_word (CHR 0x00) (CHR 0x01)) \<noteq> Ok ()"
proof -
  have len: "length (amount_word hi lo) = 32" for hi lo
    by (simp add: amount_word_def)
  have parse: "parse_evm_address sample_ext (replicate 40 (CHR ''a'')) = Ok (replicate 20 (CHR ''a''))"
      "parse_evm_address sample_ext (replicate 40 (CHR ''b'')) = Ok (replicate 20 (CHR ''b''))"
      "is_ok (parse_u256_be_decimal ''1000'')"
    by code_simp+
  have "be_nat (amount_word (CHR 0x03) (CHR 0xE8)) \<le> dec_val (trim ''1000'')"
    by (simp add: be_nat_amount_word trim_graphic graphic_def dec_val_def digit_val_def)
  then show ?thesis
    using x402_cap_exact [OF len, of sample_ext "Some sample_x402_policy"] x402_cap_exact [OF len, of sample_ext None] parse
    by (simp add: sample_x402_policy_def)
qed

text \<open>
  C20: A Permit2 allowance passes exactly when the policy's clause pins the chain and the
  Permit2 contract, has a list of well-formed addresses that holds the token and one that holds the spender,
  sets a ceiling on the amount and on the expiration that the request respects, and the amount is not the infinite allowance
  \<open>2\<^sup>160 - 1\<close>, whatever the ceiling.
\<close>

theorem permit2_allowance_exact:
  assumes "length amount = 32"
  shows "enforce_permit2_allowance X po chain contract token spender amount expiration = Ok () \<longleftrightarrow>
    (\<exists>p c ct tokens spenders mx me. po = Some p \<and> pl_permit2 p = Some c \<and> be_nat amount \<noteq> 2 ^ 160 - 1
       \<and> pp_chain_id c = Some chain \<and> pp_verifying_contract c = Some ct \<and> parse_evm_address X ct = Ok contract
       \<and> pp_allowed_tokens c = Some tokens \<and> (\<forall>a \<in> set tokens. is_ok (parse_evm_address X a))
       \<and> (\<exists>a \<in> set tokens. parse_evm_address X a = Ok token)
       \<and> pp_allowed_spenders c = Some spenders \<and> (\<forall>a \<in> set spenders. is_ok (parse_evm_address X a))
       \<and> (\<exists>a \<in> set spenders. parse_evm_address X a = Ok spender)
       \<and> pp_max_amount c = Some mx \<and> is_ok (parse_u256_be_decimal mx) \<and> be_nat amount \<le> dec_val (trim mx)
       \<and> pp_max_expiration c = Some me \<and> expiration \<le> me)"
  unfolding enforce_permit2_Ok [OF assms] permit2_permits_def permit2_allow_list_Ok by blast

definition sample_permit2_policy :: policy where
  "sample_permit2_policy = policy_default\<lparr>pl_permit2 := Some \<lparr>pp_chain_id = Some 1,
     pp_verifying_contract = Some (replicate 40 (CHR ''c'')), pp_allowed_tokens = Some [replicate 40 (CHR ''a'')],
     pp_allowed_spenders = Some [replicate 40 (CHR ''b'')], pp_max_amount = Some ''1000'', pp_max_expiration = Some 9\<rparr>\<rparr>"

theorem permit2_allowance_exact_witness:
  "enforce_permit2_allowance sample_ext (Some sample_permit2_policy) 1 (replicate 20 (CHR ''c'')) (replicate 20 (CHR ''a''))
     (replicate 20 (CHR ''b'')) (amount_word (CHR 0x03) (CHR 0xE8)) 9 = Ok ()
   \<and> enforce_permit2_allowance sample_ext (Some sample_permit2_policy) 1 (replicate 20 (CHR ''c'')) (replicate 20 (CHR ''a''))
     (replicate 20 (CHR ''b'')) (amount_word (CHR 0x03) (CHR 0xE8)) 10 \<noteq> Ok ()
   \<and> enforce_permit2_allowance sample_ext (Some sample_permit2_policy) 1 (replicate 20 (CHR ''c'')) (replicate 20 (CHR ''a''))
     (replicate 20 (CHR ''d'')) (amount_word (CHR 0x03) (CHR 0xE8)) 9 \<noteq> Ok ()"
proof -
  have len: "length (amount_word (CHR 0x03) (CHR 0xE8)) = 32"
    by (simp add: amount_word_def)
  have parse: "parse_evm_address sample_ext (replicate 40 (CHR ''a'')) = Ok (replicate 20 (CHR ''a''))"
      "parse_evm_address sample_ext (replicate 40 (CHR ''b'')) = Ok (replicate 20 (CHR ''b''))"
      "parse_evm_address sample_ext (replicate 40 (CHR ''c'')) = Ok (replicate 20 (CHR ''c''))"
      "is_ok (parse_u256_be_decimal ''1000'')" "replicate 20 (CHR ''b'') \<noteq> replicate 20 (CHR ''d'')"
    by code_simp+
  have "be_nat (amount_word (CHR 0x03) (CHR 0xE8)) = 1000" "dec_val (trim ''1000'') = 1000"
    by (simp_all add: be_nat_amount_word trim_graphic graphic_def dec_val_def digit_val_def)
  then show ?thesis
    using permit2_allowance_exact [OF len, of sample_ext "Some sample_permit2_policy" 1 "replicate 20 (CHR ''c'')"
        "replicate 20 (CHR ''a'')"] parse
    by (simp add: sample_permit2_policy_def)
qed

end
