(* ===== verification/Asterdex_Caps.thy ===== *)
theory Asterdex_Caps
  imports Order_Caps Text_Search
begin

text \<open>
  The Asterdex body gates of \<^verbatim>\<open>enclave/src/handler.rs\<close>.  Asterdex signs a raw
  form-encoded body, so the enclave reads owner, nonce and order size out of the bytes it is
  about to sign: \<^verbatim>\<open>validate_asterdex_body\<close>, \<^verbatim>\<open>asterdex_first_param\<close>, \<^verbatim>\<open>asterdex_flag_present\<close>,
  \<^verbatim>\<open>check_asterdex_body_allow\<close> and \<^verbatim>\<open>enforce_asterdex_size_cap\<close>.

  Shown here: what the byte search extracts is what splitting the body reads.  The gates find a
  parameter by substring search; the lemmas relate the search to the list of values that
  the parameter has when the body is split at \<^verbatim>\<open>&\<close> and \<^verbatim>\<open>=\<close>, and so an accepted body has exactly one
  signer, the key's own address, exactly one nonce, and, under caps, at most one
  quantity, which is within the cap of the one symbol.  As in the code, nothing is percent-decoded.
\<close>

section \<open>The parameters of a body\<close>

text \<open>
  The values of the pieces \<^verbatim>\<open>name=value\<close> between the \<^verbatim>\<open>&\<close>s, byte for byte.  A piece without \<^verbatim>\<open>=\<close> has no value, and
  a percent-encoded name is another name.
\<close>

definition param_values :: "bytes \<Rightarrow> bytes \<Rightarrow> bytes list" where
  "param_values body key =
     List.map_filter (\<lambda>seg. case split_once CHR ''='' seg of Some (k, v) \<Rightarrow> if k = key then Some v else None | None \<Rightarrow> None)
       (split_on CHR ''&'' body)"

text \<open>
  A parameter found at a boundary, whose value runs to the next \<^verbatim>\<open>&\<close> and after which no second
  one starts, is the only parameter of its name.
\<close>

definition at_param_start :: "bytes \<Rightarrow> nat \<Rightarrow> bool" where
  "at_param_start body i \<longleftrightarrow> i = 0 \<or> body ! (i - 1) = CHR ''&''"

lemma param_values_Nil:
  assumes "str_find body (key @ ''='') = None"
  shows "param_values body key = []"
proof -
  have "k \<noteq> key" if "seg \<in> set (split_on CHR ''&'' body)" "split_once CHR ''='' seg = Some (k, v)" for seg k v
  proof
    assume "k = key"
    then have "seg = (key @ ''='') @ v"
      using split_once_SomeD [OF that(2)] by simp
    then show False
      using split_on_occurs [OF that(1)] assms unfolding str_find_None
      by (metis append.assoc append_Cons append_Nil)
  qed
  then show ?thesis
    by (auto simp: param_values_def List.map_filter_def filter_empty_conv split: option.splits if_splits)
qed

lemma param_values_pieces:
  assumes "CHR ''='' \<notin> set key"
  shows "filter (\<lambda>piece. starts_with piece (key @ ''='')) (split_on CHR ''&'' body) = map (\<lambda>v. key @ ''='' @ v) (param_values body key)"
proof -
  have piece: "seg = key @ ''='' @ v \<longleftrightarrow> split_once CHR ''='' seg = Some (key, v)" for seg v
    using assms by (simp add: split_once_Some)
  then have "starts_with seg (key @ ''='') \<longleftrightarrow> (\<exists>v. split_once CHR ''='' seg = Some (key, v))" for seg
    by (simp add: starts_with_iff)
  then have "filter (\<lambda>piece. starts_with piece (key @ ''='')) segs
      = map (\<lambda>v. key @ ''='' @ v) (List.map_filter (\<lambda>seg. case split_once CHR ''='' seg of
          Some (k, v) \<Rightarrow> if k = key then Some v else None | None \<Rightarrow> None) segs)" for segs
    using piece by (induction segs) (auto simp: List.map_filter_simps split: option.split)
  then show ?thesis
    by (simp add: param_values_def)
qed

lemma param_values_append:
  "param_values (a @ CHR ''&'' # b) key = param_values a key @ param_values b key"
  by (simp add: param_values_def split_on_append_sep List.map_filter_def)

lemma param_values_segment:
  assumes "CHR ''='' \<notin> set key" "CHR ''&'' \<notin> set key" "CHR ''&'' \<notin> set v"
  shows "param_values (key @ ''='' @ v) key = [v]"
proof -
  have "split_on CHR ''&'' (key @ CHR ''='' # v) = [key @ CHR ''='' # v]"
    using assms by (intro split_on_notin) simp
  then show ?thesis
    using assms by (simp add: param_values_def split_once_append List.map_filter_def)
qed

lemma param_values_rest:
  assumes "rest = [] \<or> (\<exists>r. rest = CHR ''&'' # r)" "str_find rest (CHR ''&'' # key @ ''='') = None"
  shows "param_values (a @ rest) key = param_values a key"
proof (cases rest)
  case (Cons c r)
  then have r: "rest = CHR ''&'' # r"
    using assms(1) by auto
  have "k \<noteq> key" if "seg \<in> set (split_on CHR ''&'' r)" "split_once CHR ''='' seg = Some (k, v)" for seg k v
  proof
    assume "k = key"
    then have "seg = (key @ ''='') @ v"
      using split_once_SomeD [OF that(2)] by simp
    then have "\<exists>a b. CHR ''&'' # r = a @ (CHR ''&'' # key @ ''='') @ b"
      using split_on_occurs [OF that(1)] by (metis append.assoc append_Cons append_Nil)
    then show False
      using assms(2) r unfolding str_find_None by blast
  qed
  then have "param_values r key = []"
    by (auto simp: param_values_def List.map_filter_def filter_empty_conv split: option.splits if_splits)
  then show ?thesis
    by (simp add: r param_values_append)
qed simp

lemma param_values_single:
  assumes "str_find body (key @ ''='') = Some i" "at_param_start body i"
    and "drop (i + length (key @ ''='')) body = v @ rest" "CHR ''&'' \<notin> set v"
    and "rest = [] \<or> (\<exists>r. rest = CHR ''&'' # r)" "str_find rest (CHR ''&'' # key @ ''='') = None"
    and "CHR ''='' \<notin> set key" "CHR ''&'' \<notin> set key"
  shows "param_values body key = [v]"
proof -
  have body: "body = take i body @ (key @ ''='') @ v @ rest" "i + length (key @ ''='') \<le> length body"
    using str_find_Some [OF assms(1)] assms(3) by metis+
  have here: "param_values ((key @ ''='' @ v) @ rest) key = [v]"
    unfolding param_values_rest [OF assms(5,6)] by (rule param_values_segment [OF assms(7,8,4)])
  show ?thesis
  proof (cases "i = 0")
    case True
    then show ?thesis
      using body here by simp
  next
    case False
    define pre where "pre = take (i - 1) body"
    have pre: "take i body = pre @ ''&''" "length pre = i - 1"
      using assms(2) False body(2) take_Suc_conv_app_nth [of "i - 1" body]
      by (simp_all add: at_param_start_def pre_def)
    have "str_find pre (key @ ''='') = None"
    proof (rule ccontr)
      assume "\<not> ?thesis"
      then obtain a b where ab: "pre = a @ (key @ ''='') @ b"
        unfolding str_find_None by blast
      have "body = a @ (key @ ''='') @ (b @ ''&'' @ (key @ ''='') @ v @ rest)"
        using body(1) pre(1) ab by simp
      then have "i \<le> length a"
        using str_find_first assms(1) by blast
      then show False
        using ab pre(2) False by simp
    qed
    then have "param_values pre key = []"
      by (rule param_values_Nil)
    moreover have "body = pre @ CHR ''&'' # (key @ ''='' @ v) @ rest"
      using body(1) pre(1) by simp
    ultimately show ?thesis
      using here by (simp add: param_values_append)
  qed
qed


section \<open>Owner and nonce binding\<close>

definition ASTERDEX_MAX_BODY_LEN :: nat where
  "ASTERDEX_MAX_BODY_LEN = 8 * 1024"

text \<open>The offset of the next \<^verbatim>\<open>&\<close> at or after a position, or the end of the body.\<close>

definition param_end :: "bytes \<Rightarrow> nat \<Rightarrow> nat" where
  "param_end body start = (case str_find (drop start body) ''&'' of None \<Rightarrow> length body | Some i \<Rightarrow> start + i)"

definition validate_signer :: "'x externals_scheme \<Rightarrow> bytes \<Rightarrow> bytes \<Rightarrow> (err_code, unit) result" where
  "validate_signer X body derived =
     (let expected_signer = ''signer=0x'' @ hex_encode X derived in
      case str_find body ''signer='' of
        None \<Rightarrow> Err BAD_REQUEST
      | Some first_signer_start \<Rightarrow>
          if \<not> at_param_start body first_signer_start then Err BAD_REQUEST
          else if \<not> starts_with (drop first_signer_start body) expected_signer then Err BAD_REQUEST
          else let signer_value_end = first_signer_start + length expected_signer in
            if signer_value_end \<noteq> length body \<and> body ! signer_value_end \<noteq> CHR ''&'' then Err BAD_REQUEST
            else if str_find (drop signer_value_end body) ''&signer='' \<noteq> None then Err BAD_REQUEST
            else Ok ())"

definition validate_nonce :: "bytes \<Rightarrow> (err_code, unit) result" where
  "validate_nonce body =
     (case str_find body ''nonce='' of
        None \<Rightarrow> Err BAD_REQUEST
      | Some first_nonce_start \<Rightarrow>
          if \<not> at_param_start body first_nonce_start then Err BAD_REQUEST
          else let nonce_value_start = first_nonce_start + length ''nonce='';
                   nonce_end = param_end body nonce_value_start;
                   nonce_value = take (nonce_end - nonce_value_start) (drop nonce_value_start body) in
            if length nonce_value < 13 then Err BAD_REQUEST
            else if \<not> list_all is_ascii_digit nonce_value then Err BAD_REQUEST
            else if str_find (drop nonce_end body) ''&nonce='' \<noteq> None then Err BAD_REQUEST
            else Ok ())"

definition validate_asterdex_body :: "'x externals_scheme \<Rightarrow> bytes \<Rightarrow> bytes \<Rightarrow> (err_code, unit) result" where
  "validate_asterdex_body X body derived =
     (if length body > ASTERDEX_MAX_BODY_LEN then Err BAD_REQUEST
      else try_res (validate_signer X body derived) (\<lambda>_. validate_nonce body))"


section \<open>Reading a parameter and a flag\<close>

definition asterdex_first_param :: "bytes \<Rightarrow> bytes \<Rightarrow> (unit, bytes option) result" where
  "asterdex_first_param body key =
     (case str_find body key of
        None \<Rightarrow> Ok None
      | Some start \<Rightarrow>
          if \<not> at_param_start body start then Err ()
          else let value_start = start + length key;
                   value_end = param_end body value_start in
            if str_find (drop value_end body) (CHR ''&'' # key) \<noteq> None then Err ()
            else Ok (Some (take (value_end - value_start) (drop value_start body))))"

text \<open>
  The loop of \<^verbatim>\<open>asterdex_flag_present\<close>.  Each turn moves past an occurrence of the non-empty name, so
  as many turns as the body has bytes, plus one, are enough.
\<close>

fun flag_loop :: "nat \<Rightarrow> bytes \<Rightarrow> bytes \<Rightarrow> nat \<Rightarrow> bool" where
  "flag_loop 0 body name from = False"
| "flag_loop (Suc n) body name from =
     (case str_find (drop from body) name of
        None \<Rightarrow> False
      | Some rel \<Rightarrow>
          let start = from + rel; fin = start + length name in
            if at_param_start body start \<and> (fin \<ge> length body \<or> body ! fin \<in> {CHR ''='', CHR ''&''}) then True
            else flag_loop n body name fin)"

definition asterdex_flag_present :: "bytes \<Rightarrow> bytes \<Rightarrow> bool" where
  "asterdex_flag_present body name = flag_loop (Suc (length body)) body name 0"


section \<open>The size cap\<close>

definition ASTERDEX_ALLOWED_PARAMS :: "bytes list" where
  "ASTERDEX_ALLOWED_PARAMS =
     [''signer'', ''nonce'', ''symbol'', ''side'', ''type'', ''quantity'', ''price'', ''timeInForce'', ''reduceOnly'',
      ''positionSide'', ''newClientOrderId'', ''stopPrice'', ''workingType'', ''priceProtect'', ''newOrderRespType'',
      ''activationPrice'', ''callbackRate'', ''orderId'', ''origClientOrderId'', ''startTime'', ''endTime'', ''limit'',
      ''fromId'', ''incomeType'', ''recvWindow'', ''timestamp'']"

fun check_segments :: "bytes list \<Rightarrow> (bytes, unit) result" where
  "check_segments [] = Ok ()"
| "check_segments (pair # pairs) =
     (if pair = [] then check_segments pairs
      else (case split_once CHR ''='' pair of
              None \<Rightarrow> Err ''asterdex_bare_flag_not_allowed''
            | Some (name, value) \<Rightarrow>
                if name \<notin> set ASTERDEX_ALLOWED_PARAMS then Err ''asterdex_param_not_allowed'' else check_segments pairs))"

definition check_asterdex_body_allow :: "bytes \<Rightarrow> (bytes, unit) result" where
  "check_asterdex_body_allow body = check_segments (split_on CHR ''&'' body)"

definition asterdex_floor_denies :: "bool \<Rightarrow> policy option \<Rightarrow> bool" where
  "asterdex_floor_denies require_policy po \<longleftrightarrow> require_policy \<and> Option.bind po pl_order_caps = None"

definition capped_body_byte :: "char \<Rightarrow> bool" where
  "capped_body_byte b \<longleftrightarrow> is_ascii_alphanumeric b \<or> b \<in> set ''&=._-:/''"

definition notional_capped :: "order_asset_cap list \<Rightarrow> bytes \<Rightarrow> bool" where
  "notional_capped caps symbol \<longleftrightarrow>
     (case find (\<lambda>c. oc_symbol c = symbol) caps of None \<Rightarrow> False | Some c \<Rightarrow> oc_max_notional c \<noteq> None)"

definition asterdex_price :: "order_asset_cap list \<Rightarrow> bytes \<Rightarrow> bytes \<Rightarrow> (sign_response, bytes option) result" where
  "asterdex_price caps body symbol =
     (if notional_capped caps symbol
      then (case asterdex_first_param body ''type='' of
              Err _ \<Rightarrow> Err (rsp_err BAD_REQUEST)
            | Ok t \<Rightarrow>
                if t = Some ''LIMIT''
                then map_err (\<lambda>_. rsp_err BAD_REQUEST) (asterdex_first_param body ''price='')
                else Err (rsp_err POLICY_DENIED))
      else Ok None)"

definition enforce_asterdex_size_cap :: "policy option \<Rightarrow> bytes \<Rightarrow> (sign_response, unit) result" where
  "enforce_asterdex_size_cap po body =
     (case Option.bind po pl_order_caps of
        None \<Rightarrow> Ok ()
      | Some caps \<Rightarrow>
          if \<not> list_all capped_body_byte body then Err (rsp_err BAD_REQUEST)
          else if asterdex_flag_present body ''closePosition'' then Err (rsp_err POLICY_DENIED)
          else if asterdex_flag_present body ''batchOrders'' then Err (rsp_err POLICY_DENIED)
          else if \<not> is_ok (check_asterdex_body_allow body) then Err (rsp_err BAD_REQUEST)
          else (case asterdex_first_param body ''quantity='' of
                  Err _ \<Rightarrow> Err (rsp_err BAD_REQUEST)
                | Ok None \<Rightarrow> Ok ()
                | Ok (Some qty) \<Rightarrow>
                    (case asterdex_first_param body ''symbol='' of
                       Err _ \<Rightarrow> Err (rsp_err BAD_REQUEST)
                     | Ok None \<Rightarrow> Err (rsp_err POLICY_DENIED)
                     | Ok (Some symbol) \<Rightarrow>
                         try_res (asterdex_price caps body symbol) (\<lambda>price.
                         enforce_order_cap po symbol (Some qty) price))))"


section \<open>The search reads what a parser reads\<close>

lemma str_find_sep:
  "take (case str_find t [c] of None \<Rightarrow> length t | Some i \<Rightarrow> i) t = takeWhile (\<lambda>x. x \<noteq> c) t
   \<and> drop (case str_find t [c] of None \<Rightarrow> length t | Some i \<Rightarrow> i) t = dropWhile (\<lambda>x. x \<noteq> c) t"
proof (induction t)
  case (Cons x t)
  then show ?case
    by (cases "str_find t [c]") auto
qed simp

lemma param_end_spec:
  assumes "s \<le> length body"
  shows "take (param_end body s - s) (drop s body) = takeWhile (\<lambda>x. x \<noteq> CHR ''&'') (drop s body)"
    and "drop (param_end body s) body = dropWhile (\<lambda>x. x \<noteq> CHR ''&'') (drop s body)"
proof -
  have e: "param_end body s = s + (case str_find (drop s body) ''&'' of None \<Rightarrow> length (drop s body) | Some i \<Rightarrow> i)"
    using assms by (simp add: param_end_def split: option.splits)
  show "take (param_end body s - s) (drop s body) = takeWhile (\<lambda>x. x \<noteq> CHR ''&'') (drop s body)"
    "drop (param_end body s) body = dropWhile (\<lambda>x. x \<noteq> CHR ''&'') (drop s body)"
    unfolding e using str_find_sep [of "drop s body" "CHR ''&''"] by (simp_all add: add.commute)
qed

lemma dropWhile_sep: "dropWhile (\<lambda>x. x \<noteq> c) t = [] \<or> (\<exists>r. dropWhile (\<lambda>x. x \<noteq> c) t = c # r)"
  by (induction t) auto

lemma found_param_values:
  assumes "str_find body (key @ ''='') = Some i" "at_param_start body i" "e = param_end body (i + length (key @ ''=''))"
    and "str_find (drop e body) (CHR ''&'' # key @ ''='') = None" "CHR ''='' \<notin> set key" "CHR ''&'' \<notin> set key"
  shows "param_values body key = [take (e - (i + length (key @ ''=''))) (drop (i + length (key @ ''='')) body)]"
proof -
  let ?s = "i + length (key @ ''='')"
  have s: "?s \<le> length body"
    using str_find_Some [OF assms(1)] by simp
  have "drop ?s body = takeWhile (\<lambda>x. x \<noteq> CHR ''&'') (drop ?s body) @ dropWhile (\<lambda>x. x \<noteq> CHR ''&'') (drop ?s body)"
    by (simp only: takeWhile_dropWhile_id)
  moreover have "CHR ''&'' \<notin> set (takeWhile (\<lambda>x. x \<noteq> CHR ''&'') (drop ?s body))"
    using set_takeWhileD by fastforce
  ultimately show ?thesis
    using assms(4) unfolding assms(3) param_end_spec [OF s]
    by (rule param_values_single [OF assms(1,2) _ _ dropWhile_sep _ assms(5,6)])
qed

lemma first_param_values:
  assumes "asterdex_first_param body (key @ ''='') = Ok r" "CHR ''='' \<notin> set key" "CHR ''&'' \<notin> set key"
  shows "param_values body key = (case r of None \<Rightarrow> [] | Some v \<Rightarrow> [v])"
proof (cases "str_find body (key @ ''='')")
  case None
  then have "r = None"
    using assms(1) by (simp add: asterdex_first_param_def)
  then show ?thesis
    using param_values_Nil [OF None] by simp
next
  case (Some i)
  let ?e = "param_end body (i + length (key @ ''=''))"
  have "at_param_start body i" "str_find (drop ?e body) (CHR ''&'' # key @ ''='') = None"
    "r = Some (take (?e - (i + length (key @ ''=''))) (drop (i + length (key @ ''='')) body))"
    using assms(1) Some by (simp_all add: asterdex_first_param_def Let_def split: if_splits)
  then show ?thesis
    using found_param_values [OF Some _ refl _ assms(2,3)] by simp
qed

lemma validate_nonce_values:
  assumes "validate_nonce body = Ok ()"
  shows "\<exists>n. param_values body ''nonce'' = [n] \<and> 13 \<le> length n \<and> list_all is_ascii_digit n"
proof -
  obtain i where i: "str_find body (''nonce'' @ ''='') = Some i"
    using assms by (auto simp: validate_nonce_def split: option.splits)
  let ?s = "i + length (''nonce'' @ ''='')"
  let ?n = "take (param_end body ?s - ?s) (drop ?s body)"
  have ok: "at_param_start body i" "13 \<le> length ?n" "list_all is_ascii_digit ?n"
    "str_find (drop (param_end body ?s) body) (CHR ''&'' # ''nonce'' @ ''='') = None"
    using assms i by (simp_all add: validate_nonce_def Let_def not_less split: if_splits)
  have "param_values body ''nonce'' = [?n]"
    using found_param_values [OF i ok(1) refl ok(4)] by simp
  then show ?thesis
    using ok by blast
qed

lemma validate_signer_values:
  assumes "validate_signer X body derived = Ok ()" "CHR ''&'' \<notin> set (hex_encode X derived)"
  shows "param_values body ''signer'' = [''0x'' @ hex_encode X derived]"
proof -
  obtain i where i: "str_find body (''signer'' @ ''='') = Some i"
    using assms by (auto simp: validate_signer_def Let_def split: option.splits)
  let ?v = "''0x'' @ hex_encode X derived"
  let ?e = "i + length (''signer='' @ ?v)"
  have ok: "at_param_start body i" "starts_with (drop i body) (''signer='' @ ?v)"
    "?e = length body \<or> body ! ?e = CHR ''&''" "str_find (drop ?e body) (CHR ''&'' # ''signer'' @ ''='') = None"
    using assms(1) i by (simp_all add: validate_signer_def Let_def split: if_splits)
  obtain rest where rest: "drop i body = ''signer='' @ ?v @ rest"
    using ok(2) by (auto simp: starts_with_iff)
  have d: "drop ?e body = rest"
  proof -
    have "drop ?e body = drop (length (''signer='' @ ?v)) (drop i body)"
      by (simp add: add.commute)
    then show ?thesis
      unfolding rest by simp
  qed
  have "rest = [] \<or> (\<exists>r. rest = CHR ''&'' # r)"
  proof (cases rest)
    case (Cons c r)
    then have "?e < length body"
      using d by (metis drop_all leI list.discI)
    moreover from this have "c = body ! ?e"
      using d Cons by (metis Cons_nth_drop_Suc list.inject)
    ultimately show ?thesis
      using ok(3) Cons by auto
  qed simp
  moreover have "drop (i + length (''signer'' @ ''='')) body = ?v @ rest"
  proof -
    have "drop (i + length (''signer'' @ ''='')) body = drop (length ''signer='') (drop i body)"
      by (simp add: add.commute)
    then show ?thesis
      unfolding rest by simp
  qed
  ultimately show ?thesis
    using assms(2) ok(4) d by (intro param_values_single [OF i ok(1)]) simp_all
qed

lemma check_segments_Ok:
  "check_segments ps = Ok () \<longleftrightarrow>
     (\<forall>seg \<in> set ps. seg \<noteq> [] \<longrightarrow> (\<exists>k v. split_once CHR ''='' seg = Some (k, v) \<and> k \<in> set ASTERDEX_ALLOWED_PARAMS))"
  by (induction ps) (auto split: option.splits)

lemma is_ok_unit: "is_ok r \<longleftrightarrow> r = Ok ()" for r :: "('e, unit) result"
  by (cases r) auto

lemma asterdex_price_values:
  assumes "asterdex_price caps body symbol = Ok price" "find (\<lambda>c. oc_symbol c = symbol) caps = Some entry"
    and "oc_max_notional entry \<noteq> None"
  shows "param_values body ''type'' = [''LIMIT''] \<and> param_values body ''price'' = (case price of None \<Rightarrow> [] | Some px \<Rightarrow> [px])"
proof -
  have "notional_capped caps symbol"
    using assms by (simp add: notional_capped_def)
  then have "asterdex_first_param body (''type'' @ ''='') = Ok (Some ''LIMIT'')"
      "asterdex_first_param body (''price'' @ ''='') = Ok price"
    using assms(1) by (simp_all add: asterdex_price_def result_simps split: sum.splits if_splits)
  then show ?thesis
    using first_param_values [of body "''type''"] first_param_values [of body "''price''"] by simp
qed

text \<open>What a form parser may find in a body that passed the caps.\<close>

definition capped_body_ok :: "order_asset_cap list \<Rightarrow> bytes \<Rightarrow> bool" where
  "capped_body_ok caps body \<longleftrightarrow>
     (\<forall>seg \<in> set (split_on CHR ''&'' body). seg \<noteq> [] \<longrightarrow>
        (\<exists>k v. split_once CHR ''='' seg = Some (k, v) \<and> k \<in> set ASTERDEX_ALLOWED_PARAMS))
     \<and> (param_values body ''quantity'' = []
        \<or> (\<exists>qty symbol entry.
             param_values body ''quantity'' = [qty] \<and> param_values body ''symbol'' = [symbol]
             \<and> find (\<lambda>c. oc_symbol c = symbol) caps = Some entry
             \<and> decimal_string qty \<and> dec_rat qty \<le> dec_rat (oc_max_qty entry)
             \<and> (case oc_max_notional entry of None \<Rightarrow> True
                | Some mx \<Rightarrow> \<exists>px. param_values body ''type'' = [''LIMIT''] \<and> param_values body ''price'' = [px]
                    \<and> decimal_string px \<and> dec_rat qty * dec_rat px \<le> dec_rat mx)))"

lemma sized_body:
  assumes "pl_order_caps p = Some caps" "asterdex_price caps body symbol = Ok price"
    and "enforce_order_cap (Some p) symbol (Some qty) price = Ok ()"
  shows "\<exists>entry. find (\<lambda>c. oc_symbol c = symbol) caps = Some entry
      \<and> decimal_string qty \<and> dec_rat qty \<le> dec_rat (oc_max_qty entry)
      \<and> (case oc_max_notional entry of None \<Rightarrow> True
         | Some mx \<Rightarrow> \<exists>px. param_values body ''type'' = [''LIMIT''] \<and> param_values body ''price'' = [px]
             \<and> decimal_string px \<and> dec_rat qty * dec_rat px \<le> dec_rat mx)"
proof -
  obtain entry where e: "find (\<lambda>c. oc_symbol c = symbol) caps = Some entry" "within_cap entry qty price"
    using assms(3) unfolding enforce_order_cap_Ok [OF assms(1)] by blast
  show ?thesis
  proof (cases "oc_max_notional entry")
    case None
    then show ?thesis
      using e by (auto simp: within_cap_def)
  next
    case (Some mx)
    then obtain px where "price = Some px" "decimal_string px" "dec_rat qty * dec_rat px \<le> dec_rat mx"
      using e(2) by (auto simp: within_cap_def)
    then show ?thesis
      using e asterdex_price_values [OF assms(2) e(1)] Some by (auto simp: within_cap_def)
  qed
qed

lemma asterdex_cap_sound:
  assumes "pl_order_caps p = Some caps" "enforce_asterdex_size_cap (Some p) body = Ok ()"
  shows "capped_body_ok caps body"
proof -
  have allow: "check_segments (split_on CHR ''&'' body) = Ok ()"
    using assms by (simp add: enforce_asterdex_size_cap_def check_asterdex_body_allow_def is_ok_unit split: if_splits)
  obtain q where q: "asterdex_first_param body (''quantity'' @ ''='') = Ok q"
    using assms by (simp add: enforce_asterdex_size_cap_def split: if_splits sum.splits)
  show ?thesis
  proof (cases q)
    case None
    then show ?thesis
      using allow first_param_values [OF q] unfolding capped_body_ok_def check_segments_Ok by simp
  next
    case (Some qty)
    obtain symbol price where s: "asterdex_first_param body (''symbol'' @ ''='') = Ok (Some symbol)"
      "asterdex_price caps body symbol = Ok price" "enforce_order_cap (Some p) symbol (Some qty) price = Ok ()"
      using assms q Some
      by (auto simp: enforce_asterdex_size_cap_def result_simps split: if_splits sum.splits option.splits)
    have "param_values body ''quantity'' = [qty]" "param_values body ''symbol'' = [symbol]"
      using first_param_values [OF q] first_param_values [OF s(1)] Some by simp_all
    then show ?thesis
      using allow sized_body [OF assms(1) s(2,3)] unfolding capped_body_ok_def check_segments_Ok by blast
  qed
qed

text \<open>The flag search is exact, and the turns given to its loop are enough.\<close>

definition flag_at :: "bytes \<Rightarrow> bytes \<Rightarrow> nat \<Rightarrow> bool" where
  "flag_at body name i \<longleftrightarrow> i \<le> length body \<and> starts_with (drop i body) name \<and> at_param_start body i
     \<and> (i + length name \<ge> length body \<or> body ! (i + length name) \<in> {CHR ''='', CHR ''&''})"

lemma flag_after_occurrence:
  assumes "starts_with (drop j body) name" "flag_at body name i" "j < i" "CHR ''&'' \<notin> set name"
  shows "j + length name \<le> i"
proof (rule ccontr)
  assume *: "\<not> ?thesis"
  obtain r where r: "drop j body = name @ r"
    using assms(1) by (auto simp: starts_with_iff)
  have k: "i - 1 - j < length name"
    using * assms(3) by simp
  have "name ! (i - 1 - j) = drop j body ! (i - 1 - j)"
    using k by (simp add: r nth_append)
  also have "\<dots> = body ! (i - 1)"
    using assms(2,3) by (simp add: flag_at_def)
  also have "\<dots> = CHR ''&''"
    using assms(2,3) by (simp add: flag_at_def at_param_start_def)
  finally show False
    using assms(4) nth_mem [OF k] by simp
qed

lemma occurrence_from:
  assumes "starts_with (drop i body) name" "from \<le> i" "i \<le> length body"
  obtains r where "drop from body = take (i - from) (drop from body) @ name @ r"
proof -
  obtain r where r: "drop i body = name @ r"
    using assms(1) by (auto simp: starts_with_iff)
  have "drop (i - from) (drop from body) = name @ r"
    using assms(2) r by simp
  then show thesis
    using that by (metis append_take_drop_id)
qed

lemma str_find_drop:
  assumes "str_find (drop from body) name = Some rel" "from \<le> length body"
  shows "starts_with (drop (from + rel) body) name" "from + rel + length name \<le> length body"
proof -
  have d: "drop from body = take rel (drop from body) @ name @ drop (rel + length name) (drop from body)"
    and l: "rel + length name \<le> length (drop from body)"
    using str_find_Some [OF assms(1)] by blast+
  have "drop rel (drop from body) = name @ drop (rel + length name) (drop from body)"
    using arg_cong [OF d, of "drop rel"] l by simp
  then show "starts_with (drop (from + rel) body) name"
    by (auto simp: starts_with_iff add.commute)
  show "from + rel + length name \<le> length body"
    using l assms(2) by simp
qed

lemma flag_loop_exact:
  assumes "CHR ''&'' \<notin> set name" "name \<noteq> []" "from \<le> length body" "length body - from < n"
  shows "flag_loop n body name from \<longleftrightarrow> (\<exists>i \<ge> from. flag_at body name i)"
  using assms(3,4)
proof (induction n arbitrary: "from")
  case (Suc n)
  show ?case
  proof (cases "str_find (drop from body) name")
    case None
    have "\<not> flag_at body name i" if "from \<le> i" for i
    proof
      assume "flag_at body name i"
      then have "starts_with (drop i body) name" "i \<le> length body"
        by (simp_all add: flag_at_def)
      from occurrence_from [OF this(1) that this(2)]
      obtain r where "drop from body = take (i - from) (drop from body) @ name @ r" .
      then show False
        using None unfolding str_find_None by blast
    qed
    then show ?thesis
      using None by simp
  next
    case (Some rel)
    let ?j = "from + rel" and ?e = "from + rel + length name"
    note occ = str_find_drop [OF Some Suc(2)]
    have low: "?j \<le> i" if "from \<le> i" "flag_at body name i" for i
    proof -
      have i: "starts_with (drop i body) name" "i \<le> length body"
        using that(2) by (simp_all add: flag_at_def)
      from occurrence_from [OF i(1) that(1) i(2)]
      obtain r where "drop from body = take (i - from) (drop from body) @ name @ r" .
      then have "rel \<le> length (take (i - from) (drop from body))"
        by (rule str_find_first [OF Some])
      then show ?thesis
        using that(1) i(2) by simp
    qed
    have unfold: "flag_loop (Suc n) body name from \<longleftrightarrow> flag_at body name ?j \<or> flag_loop n body name ?e"
      using Some occ by (simp add: Let_def flag_at_def) blast
    have "flag_loop n body name ?e \<longleftrightarrow> (\<exists>i \<ge> ?e. flag_at body name i)"
      using Suc(3) occ(2) assms(2) by (intro Suc(1)) (cases name; simp)+
    moreover have "?j = i \<or> ?e \<le> i" if "from \<le> i" "flag_at body name i" for i
      using low [OF that] flag_after_occurrence [OF occ(1) that(2) _ assms(1)] by force
    ultimately show ?thesis
      unfolding unfold by (metis le_add1 le_trans)
  qed
qed simp

lemma asterdex_flag_exact:
  assumes "CHR ''&'' \<notin> set name" "name \<noteq> []"
  shows "asterdex_flag_present body name \<longleftrightarrow> (\<exists>i. flag_at body name i)"
  unfolding asterdex_flag_present_def by (subst flag_loop_exact) (use assms in auto)


section \<open>Properties\<close>

text \<open>
  C37: Under order caps, what a form parser reads from an accepted Asterdex body is what the cap
  checked.  Every segment is \<open>name=value\<close> with an allowed name, so neither \<open>closePosition\<close>,
  \<open>batchOrders\<close> nor any unknown sizing parameter occurs; there is at most one \<open>quantity\<close>, and if
  there is one then also exactly one \<open>symbol\<close>, listed in the caps, the quantity is at most its \<open>max_qty\<close>,
  and under a \<open>max_notional\<close> the body has exactly one \<open>type\<close>, which is \<open>LIMIT\<close>, and exactly one
  price, with quantity times price at most the cap.
\<close>

theorem asterdex_capped_body:
  assumes "pl_order_caps p = Some caps" "enforce_asterdex_size_cap (Some p) body = Ok ()"
  shows "capped_body_ok caps body"
  using assms by (rule asterdex_cap_sound)

definition sample_body :: bytes where
  "sample_body = ''symbol=BTCUSDT&type=LIMIT&quantity=0.5&price=60000''"

theorem asterdex_capped_body_witness:
  "enforce_asterdex_size_cap (Some sample_capped) sample_body = Ok () \<and> capped_body_ok [sample_cap] sample_body
   \<and> param_values sample_body ''quantity'' = [''0.5'']"
proof -
  have caps: "pl_order_caps sample_capped = Some [sample_cap]"
    by (simp add: sample_capped_def)
  have bytes: "list_all capped_body_byte sample_body"
    by code_simp
  have flags: "\<not> asterdex_flag_present sample_body ''closePosition''" "\<not> asterdex_flag_present sample_body ''batchOrders''"
    by code_simp+
  have allow: "is_ok (check_asterdex_body_allow sample_body)"
    by code_simp
  have params: "asterdex_first_param sample_body ''quantity='' = Ok (Some ''0.5'')"
      "asterdex_first_param sample_body ''symbol='' = Ok (Some ''BTCUSDT'')"
      "asterdex_price [sample_cap] sample_body ''BTCUSDT'' = Ok (Some ''60000'')"
    by code_simp+
  have cap: "enforce_order_cap (Some sample_capped) ''BTCUSDT'' (Some ''0.5'') (Some ''60000'') = Ok ()"
    by code_simp
  have ok: "enforce_asterdex_size_cap (Some sample_capped) sample_body = Ok ()"
    by (simp add: enforce_asterdex_size_cap_def caps bytes flags allow params cap)
  moreover have "param_values sample_body ''quantity'' = [''0.5'']"
    by code_simp
  ultimately show ?thesis
    using asterdex_capped_body [OF caps ok] by blast
qed

text \<open>
  C38: Owner binding, over the raw bytes.  Cut a body that \<open>validate_asterdex_body\<close> accepts at its \<open>&\<close>s: exactly one of the
  pieces starts with \<open>signer=\<close>, and the rest of it is the address derived from the key that will sign, in full;
  exactly one starts with \<open>nonce=\<close>, and the rest of it is at least 13 decimal digits.  The gate decodes
  nothing: a piece that spells the name otherwise, percent-encoded or without \<open>=\<close>, is not a parameter to it.
  Assumed of the hex encoder: its output has no \<open>&\<close>.
\<close>

theorem asterdex_owner_bound:
  assumes "validate_asterdex_body X body derived = Ok ()" "CHR ''&'' \<notin> set (hex_encode X derived)"
  shows "length body \<le> ASTERDEX_MAX_BODY_LEN
    \<and> filter (\<lambda>piece. starts_with piece ''signer='') (split_on CHR ''&'' body) = [''signer=0x'' @ hex_encode X derived]
    \<and> (\<exists>n. filter (\<lambda>piece. starts_with piece ''nonce='') (split_on CHR ''&'' body) = [''nonce='' @ n]
         \<and> 13 \<le> length n \<and> list_all is_ascii_digit n)"
proof -
  have "validate_signer X body derived = Ok ()" "validate_nonce body = Ok ()" "length body \<le> ASTERDEX_MAX_BODY_LEN"
    using assms(1) by (simp_all add: validate_asterdex_body_def result_simps split: if_splits)
  then have "length body \<le> ASTERDEX_MAX_BODY_LEN" "param_values body ''signer'' = [''0x'' @ hex_encode X derived]"
    "\<exists>n. param_values body ''nonce'' = [n] \<and> 13 \<le> length n \<and> list_all is_ascii_digit n"
    using validate_signer_values [OF _ assms(2)] validate_nonce_values by simp_all
  then show ?thesis
    using param_values_pieces [of "''signer''" body] param_values_pieces [of "''nonce''" body] by auto
qed

definition sample_owner_body :: bytes where
  "sample_owner_body = ''signer=0x'' @ hex_encode sample_ext (replicate 20 CHR ''a'') @ ''&nonce=1700000000000&symbol=X''"

theorem asterdex_owner_bound_witness:
  "validate_asterdex_body sample_ext sample_owner_body (replicate 20 CHR ''a'') = Ok ()
   \<and> filter (\<lambda>piece. starts_with piece ''signer='') (split_on CHR ''&'' sample_owner_body) = [''signer=0x'' @ replicate 40 CHR ''a'']"
proof -
  have len: "length sample_owner_body \<le> ASTERDEX_MAX_BODY_LEN"
  proof -
    have "length sample_owner_body \<le> 100"
      by code_simp
    then show ?thesis
      by (simp add: ASTERDEX_MAX_BODY_LEN_def)
  qed
  have "validate_signer sample_ext sample_owner_body (replicate 20 CHR ''a'') = Ok ()"
      "validate_nonce sample_owner_body = Ok ()"
    by code_simp+
  then have ok: "validate_asterdex_body sample_ext sample_owner_body (replicate 20 CHR ''a'') = Ok ()"
    using len by (simp add: validate_asterdex_body_def)
  have hex: "hex_encode sample_ext (replicate 20 CHR ''a'') = replicate 40 CHR ''a''"
    by code_simp
  show ?thesis
    using ok asterdex_owner_bound [OF ok] by (simp add: hex)
qed

end
