(* ===== verification/Evm_Handlers.thy ===== *)
theory Evm_Handlers
  imports Handler_Base Hl_Caps Evm_Caps Asterdex_Caps
begin

text \<open>
  The handlers whose secret is an Ethereum key, \<^verbatim>\<open>enclave/src/handler.rs\<close>: Hyperliquid orders and
  cancels on both networks, Asterdex, EIP-3009 payments and Permit2 allowances.  All of them
  recompute the address of the key and compare it with the address sealed beside it.
\<close>

section \<open>The key and its address\<close>

definition owned_key :: "'x externals_scheme \<Rightarrow> bytes option \<Rightarrow> bytes \<Rightarrow> bytes \<Rightarrow> (sign_response, bytes \<times> bytes) result" where
  "owned_key X policy_hash private_key address =
     try_res (deny_if_err policy_hash BAD_REQUEST (parse_evm_private_key X private_key)) (\<lambda>pk.
     try_res (deny_if_err policy_hash INTERNAL_ERROR (derive_address_from_private_key X pk)) (\<lambda>derived.
     try_res (deny_if_err policy_hash BAD_REQUEST (parse_evm_address X address)) (\<lambda>claimed.
     try_res (deny_if policy_hash BAD_REQUEST (derived \<noteq> claimed)) (\<lambda>_.
     Ok (pk, derived)))))"

lemma owned_key_Ok [result_simps]:
  "owned_key X h private_key address = Ok (pk, a) \<longleftrightarrow>
     parse_evm_private_key X private_key = Ok pk \<and> derive_address_from_private_key X pk = Ok a
     \<and> parse_evm_address X address = Ok a"
  by (auto simp: owned_key_def result_simps)

lemma owned_key_refusal [refusals]: "owned_key X h private_key address = Err r \<Longrightarrow> refusal r"
  by (auto simp: owned_key_def result_simps dest: refusals)


section \<open>Hyperliquid\<close>

record hl_call =
  hq_secret :: hyperliquid_secret
  hq_action :: json
  hq_nonce :: "64 word"
  hq_vault :: "bytes option"
  hq_policy_hash :: "bytes option"

definition request_vault :: "'x externals_scheme \<Rightarrow> sign_request \<Rightarrow> (sign_response, bytes option) result" where
  "request_vault X req =
     (case rq_vault_address req of
        None \<Rightarrow> Ok None
      | Some v \<Rightarrow>
          if v = [] then Ok None
          else (case parse_evm_address X v of Ok addr \<Rightarrow> Ok (Some addr) | Err _ \<Rightarrow> Err (rsp_err BAD_REQUEST)))"

definition load_hyperliquid_request ::
  "'x enclave_sys_scheme \<Rightarrow> enclave_config \<Rightarrow> draws \<Rightarrow> sign_request \<Rightarrow> resolved_identity \<Rightarrow> enclave_state
     \<Rightarrow> (sign_response, hl_call) result \<times> enclave_state" where
  "load_hyperliquid_request X cfg inp req identity st =
     (case (rq_hl_action req, rq_nonce req) of
        (Some action, Some nonce) \<Rightarrow>
          (case request_vault X req of
             Err resp \<Rightarrow> (Err resp, st)
           | Ok vault \<Rightarrow>
               (case load_and_parse_blob X cfg inp req identity st of
                  (Err e, st') \<Rightarrow> (Err (rsp_err (load_error_code e)), st')
                | (Ok (policy, secret_json), st') \<Rightarrow>
                    (try_res (enforce_policy X policy req) (\<lambda>policy_hash.
                     try_res (map_err (with_policy_hash policy_hash) (enforce_hl_caps X policy action vault)) (\<lambda>_.
                     try_res (complete_secret policy_hash (de_hyperliquid X) hyperliquid_is_complete secret_json) (\<lambda>secret.
                     try_res (owned_key X policy_hash (hl_private_key secret) (hl_wallet_address secret)) (\<lambda>_.
                     Ok \<lparr>hq_secret = secret, hq_action = action, hq_nonce = nonce, hq_vault = vault,
                         hq_policy_hash = policy_hash\<rparr>)))), st')))
      | _ \<Rightarrow> (Err (rsp_err BAD_REQUEST), st))"

text \<open>Mainnet and testnet differ in the source letter of the signed struct.\<close>

definition sign_hyperliquid_source ::
  "bytes \<Rightarrow> 'x enclave_sys_scheme \<Rightarrow> enclave_config \<Rightarrow> draws \<Rightarrow> sign_request \<Rightarrow> resolved_identity \<Rightarrow> enclave_state \<Rightarrow> reply" where
  "sign_hyperliquid_source source X cfg inp req identity st =
     (case load_hyperliquid_request X cfg inp req identity st of
        (Err resp, st') \<Rightarrow> (resp, st')
      | (Ok q, st') \<Rightarrow>
          (respond
             (try_res (deny_if_err (hq_policy_hash q) BAD_REQUEST (parse_evm_private_key X (hl_private_key (hq_secret q)))) (\<lambda>pk.
              try_res (deny_if_err (hq_policy_hash q) INTERNAL_ERROR
                (sign_hyperliquid X pk (hq_action q) (hq_nonce q) (hq_vault q) source)) (\<lambda>sig.
              Ok (with_policy_hash (hq_policy_hash q) (rsp_ok_hl_signature sig))))), st'))"

definition sign_hyperliquid_mainnet ::
  "'x enclave_sys_scheme \<Rightarrow> enclave_config \<Rightarrow> draws \<Rightarrow> sign_request \<Rightarrow> resolved_identity \<Rightarrow> enclave_state \<Rightarrow> reply" where
  "sign_hyperliquid_mainnet = sign_hyperliquid_source ''a''"

definition sign_hyperliquid_testnet ::
  "'x enclave_sys_scheme \<Rightarrow> enclave_config \<Rightarrow> draws \<Rightarrow> sign_request \<Rightarrow> resolved_identity \<Rightarrow> enclave_state \<Rightarrow> reply" where
  "sign_hyperliquid_testnet = sign_hyperliquid_source ''b''"

definition HL_MAX_ENTRIES_PER_ACTION :: nat where
  "HL_MAX_ENTRIES_PER_ACTION = 64"

definition entries_of :: "bytes \<Rightarrow> json \<Rightarrow> json list option" where
  "entries_of field action = Option.bind (json_get field action) as_array"

definition hl_entry_arrays_within_ceiling :: "json \<Rightarrow> bool" where
  "hl_entry_arrays_within_ceiling obj \<longleftrightarrow>
     list_all (\<lambda>field. case entries_of field obj of
         None \<Rightarrow> True | Some entries \<Rightarrow> length entries \<le> HL_MAX_ENTRIES_PER_ACTION) [''orders'', ''cancels'']"

definition validate_order_action :: "json \<Rightarrow> bool" where
  "validate_order_action action \<longleftrightarrow>
     Option.bind (json_get ''type'' action) as_str = Some ''order''
     \<and> (case entries_of ''orders'' action of
          None \<Rightarrow> False | Some orders \<Rightarrow> hl_entry_arrays_within_ceiling action \<and> orders \<noteq> [])"

definition validate_cancel_action :: "json \<Rightarrow> bool" where
  "validate_cancel_action action \<longleftrightarrow>
     Option.bind (json_get ''type'' action) as_str = Some ''cancel''
     \<and> (case entries_of ''cancels'' action of
          None \<Rightarrow> False | Some entries \<Rightarrow> hl_entry_arrays_within_ceiling action \<and> entries \<noteq> [])"

definition validated ::
  "(json \<Rightarrow> bool) \<Rightarrow> (sign_request \<Rightarrow> resolved_identity \<Rightarrow> enclave_state \<Rightarrow> reply)
     \<Rightarrow> sign_request \<Rightarrow> resolved_identity \<Rightarrow> enclave_state \<Rightarrow> reply" where
  "validated valid sign req identity st =
     (case rq_hl_action req of
        None \<Rightarrow> (rsp_err BAD_REQUEST, st)
      | Some hl_action \<Rightarrow> if valid hl_action then sign req identity st else (rsp_err BAD_REQUEST, st))"

definition handle_sign_hyperliquid_main_order ::
  "'x enclave_sys_scheme \<Rightarrow> enclave_config \<Rightarrow> draws \<Rightarrow> sign_request \<Rightarrow> resolved_identity \<Rightarrow> enclave_state \<Rightarrow> reply" where
  "handle_sign_hyperliquid_main_order X cfg inp = validated validate_order_action (sign_hyperliquid_mainnet X cfg inp)"

definition handle_sign_hyperliquid_main_cancel ::
  "'x enclave_sys_scheme \<Rightarrow> enclave_config \<Rightarrow> draws \<Rightarrow> sign_request \<Rightarrow> resolved_identity \<Rightarrow> enclave_state \<Rightarrow> reply" where
  "handle_sign_hyperliquid_main_cancel X cfg inp = validated validate_cancel_action (sign_hyperliquid_mainnet X cfg inp)"

definition handle_sign_hyperliquid_testnet_order ::
  "'x enclave_sys_scheme \<Rightarrow> enclave_config \<Rightarrow> draws \<Rightarrow> sign_request \<Rightarrow> resolved_identity \<Rightarrow> enclave_state \<Rightarrow> reply" where
  "handle_sign_hyperliquid_testnet_order X cfg inp = validated validate_order_action (sign_hyperliquid_testnet X cfg inp)"

definition handle_sign_hyperliquid_testnet_cancel ::
  "'x enclave_sys_scheme \<Rightarrow> enclave_config \<Rightarrow> draws \<Rightarrow> sign_request \<Rightarrow> resolved_identity \<Rightarrow> enclave_state \<Rightarrow> reply" where
  "handle_sign_hyperliquid_testnet_cancel X cfg inp = validated validate_cancel_action (sign_hyperliquid_testnet X cfg inp)"


section \<open>Asterdex\<close>

text \<open>An entry that carries a query never matches; the request path is compared without its query.\<close>

definition asterdex_endpoint_allowed :: "policy option \<Rightarrow> sign_request \<Rightarrow> bool" where
  "asterdex_endpoint_allowed policy req =
     (case policy of
        None \<Rightarrow> True
      | Some p \<Rightarrow>
          (case pl_allowed_asterdex_endpoints p of
             None \<Rightarrow> True
           | Some allowed \<Rightarrow>
               (let path = (case rq_path req of None \<Rightarrow> [] | Some path \<Rightarrow> path);
                    path_only = hd (split_on (CHR ''?'') path) in
                list_ex (\<lambda>ep. split_once (CHR ''?'') ep = None \<and> ep = path_only) allowed)))"

definition handle_sign_asterdex ::
  "'x enclave_sys_scheme \<Rightarrow> enclave_config \<Rightarrow> draws \<Rightarrow> sign_request \<Rightarrow> resolved_identity \<Rightarrow> enclave_state \<Rightarrow> reply" where
  "handle_sign_asterdex X cfg inp req identity st =
     (case (rq_method req, rq_body req) of
        (Some method, Some body) \<Rightarrow>
          if method \<notin> set ALLOWED_METHODS then (rsp_err BAD_REQUEST, st)
          else if body = [] then (rsp_err BAD_REQUEST, st)
          else if length body > ASTERDEX_MAX_BODY_LEN then (rsp_err BAD_REQUEST, st)
          else with_blob X cfg inp req identity st (\<lambda>policy secret_json policy_hash st1.
            (respond
               (try_res (deny_if policy_hash POLICY_REQUIRED (asterdex_floor_denies (policy_required cfg) policy)) (\<lambda>_.
                try_res (deny_if policy_hash POLICY_DENIED (\<not> asterdex_endpoint_allowed policy req)) (\<lambda>_.
                try_res (map_err (with_policy_hash policy_hash) (enforce_asterdex_size_cap policy body)) (\<lambda>_.
                try_res (complete_secret policy_hash (de_asterdex X) asterdex_is_complete secret_json) (\<lambda>secret.
                try_res (owned_key X policy_hash (as_private_key secret) (as_signer_address secret)) (\<lambda>(pk, derived).
                try_res (deny_if policy_hash BAD_REQUEST (\<not> is_ok (validate_asterdex_body X body derived))) (\<lambda>_.
                try_res (deny_if_err policy_hash INTERNAL_ERROR (sign_asterdex X pk body)) (\<lambda>signature.
                Ok (ok_headers_under policy_hash
                      (headers_of [(''signature'', signature), (''signer'', ''0x'' @ hex_encode X derived)])))))))))), st1))
      | _ \<Rightarrow> (rsp_err BAD_REQUEST, st))"


section \<open>EIP-3009 payments\<close>

definition x402_parse ::
  "'x externals_scheme \<Rightarrow> bytes option \<Rightarrow> x402_request \<Rightarrow> (sign_response, x402_fields) result" where
  "x402_parse X policy_hash x402 =
     try_res (deny_if_err policy_hash BAD_REQUEST (parse_evm_address X (xr_token_address x402))) (\<lambda>token_address.
     try_res (deny_if_err policy_hash BAD_REQUEST (parse_evm_address X (xr_from x402))) (\<lambda>from.
     try_res (deny_if_err policy_hash BAD_REQUEST (parse_evm_address X (xr_to x402))) (\<lambda>to.
     try_res (deny_if_err policy_hash BAD_REQUEST (parse_u256_be_decimal (xr_value x402))) (\<lambda>val.
     try_res (deny_if_err policy_hash BAD_REQUEST (parse_bytes32_hex X (xr_nonce x402))) (\<lambda>nonce.
     Ok \<lparr>xf_token_name = xr_token_name x402, xf_token_version = xr_token_version x402, xf_chain_id = xr_chain_id x402,
         xf_token_address = token_address, xf_from = from, xf_to = to, xf_value = val,
         xf_valid_after = xr_valid_after x402, xf_valid_before = xr_valid_before x402, xf_nonce = nonce\<rparr>)))))"

definition handle_sign_x402_eip3009 ::
  "'x enclave_sys_scheme \<Rightarrow> enclave_config \<Rightarrow> draws \<Rightarrow> sign_request \<Rightarrow> resolved_identity \<Rightarrow> enclave_state \<Rightarrow> reply" where
  "handle_sign_x402_eip3009 X cfg inp req identity st =
     (case rq_x402 req of
        None \<Rightarrow> (rsp_err BAD_REQUEST, st)
      | Some x402 \<Rightarrow>
          if xr_valid_after x402 \<ge> xr_valid_before x402 then (rsp_err BAD_REQUEST, st)
          else with_blob X cfg inp req identity st (\<lambda>policy secret_json policy_hash st1.
            (respond
               (try_res (x402_parse X policy_hash x402) (\<lambda>f.
                try_res (map_err (with_policy_hash policy_hash)
                  (enforce_x402_cap X policy (xf_chain_id f) (xf_token_address f) (xf_to f) (xf_value f))) (\<lambda>_.
                try_res (complete_secret policy_hash (de_asterdex X) asterdex_is_complete secret_json) (\<lambda>secret.
                try_res (owned_key X policy_hash (as_private_key secret) (as_signer_address secret)) (\<lambda>(pk, derived).
                try_res (deny_if policy_hash BAD_REQUEST (derived \<noteq> xf_from f)) (\<lambda>_.
                try_res (deny_if_err policy_hash INTERNAL_ERROR (sign_x402_eip3009 X pk f)) (\<lambda>signature.
                Ok (ok_headers_under policy_hash
                      (headers_of [(''signature'', signature), (''from'', ''0x'' @ hex_encode X derived)]))))))))), st1)))"


section \<open>Permit2 allowances\<close>

definition permit2_parse ::
  "'x externals_scheme \<Rightarrow> bytes option \<Rightarrow> permit2_request \<Rightarrow> bytes \<Rightarrow> (sign_response, permit2_fields) result" where
  "permit2_parse X policy_hash p2 amount =
     try_res (deny_if_err policy_hash BAD_REQUEST (parse_evm_address X (pr_verifying_contract p2))) (\<lambda>verifying_contract.
     try_res (deny_if_err policy_hash BAD_REQUEST (parse_evm_address X (pr_token p2))) (\<lambda>token.
     try_res (deny_if_err policy_hash BAD_REQUEST (parse_evm_address X (pr_spender p2))) (\<lambda>spender.
     try_res (deny_if_err policy_hash BAD_REQUEST (parse_u256_be_decimal (pr_sig_deadline p2))) (\<lambda>sig_deadline.
     Ok \<lparr>pf_chain_id = pr_chain_id p2, pf_verifying_contract = verifying_contract, pf_token = token, pf_amount = amount,
         pf_expiration = pr_expiration p2, pf_nonce = pr_nonce p2, pf_spender = spender, pf_sig_deadline = sig_deadline\<rparr>))))"

definition handle_sign_permit2_permit_single ::
  "'x enclave_sys_scheme \<Rightarrow> enclave_config \<Rightarrow> draws \<Rightarrow> sign_request \<Rightarrow> resolved_identity \<Rightarrow> enclave_state \<Rightarrow> reply" where
  "handle_sign_permit2_permit_single X cfg inp req identity st =
     (case rq_permit2 req of
        None \<Rightarrow> (rsp_err BAD_REQUEST, st)
      | Some p2 \<Rightarrow>
          (case permit2_request_shape p2 of
             Err _ \<Rightarrow> (rsp_err BAD_REQUEST, st)
           | Ok amount \<Rightarrow>
               with_blob X cfg inp req identity st (\<lambda>policy secret_json policy_hash st1.
                 (respond
                    (try_res (permit2_parse X policy_hash p2 amount) (\<lambda>f.
                     try_res (map_err (with_policy_hash policy_hash)
                       (enforce_permit2_allowance X policy (pf_chain_id f) (pf_verifying_contract f) (pf_token f)
                          (pf_spender f) (pf_amount f) (pf_expiration f))) (\<lambda>_.
                     try_res (complete_secret policy_hash (de_asterdex X) asterdex_is_complete secret_json) (\<lambda>secret.
                     try_res (owned_key X policy_hash (as_private_key secret) (as_signer_address secret)) (\<lambda>(pk, derived).
                     try_res (deny_if_err policy_hash INTERNAL_ERROR (sign_permit2_permit_single X pk f)) (\<lambda>signature.
                     Ok (ok_headers_under policy_hash
                           (headers_of [(''signature'', signature), (''owner'', ''0x'' @ hex_encode X derived)])))))))), st1))))"


section \<open>Refusals of the checks\<close>

lemma hl_order_check_refusal [refusals]: "hl_order_check caps order = Err r \<Longrightarrow> refusal r"
  by (auto simp: hl_order_check_def hl_notional_check_def result_simps split: option.splits if_splits dest: refusals)

lemma hl_orders_pass_refusal [refusals]: "hl_orders_pass caps orders totals = Err r \<Longrightarrow> refusal r"
  by (induction orders arbitrary: totals) (auto simp: result_simps dest: refusals)

lemma totals_check_refusal [refusals]: "totals_check ts = Err r \<Longrightarrow> refusal r"
  by (induction ts)
    (auto simp: size_total_check_def notional_total_check_def result_simps split: option.splits sum.splits if_splits)

lemma enforce_hl_caps_refusal [refusals]: "enforce_hl_caps X policy action vault = Err r \<Longrightarrow> refusal r"
proof (erule refusesD)
  have "refuses (hl_orders_pass caps orders ts)" "refuses (totals_check ts)" for caps orders ts
    using hl_orders_pass_refusal totals_check_refusal by (auto simp: refuses_def)
  then show "refuses (enforce_hl_caps X policy action vault)"
    by (simp add: enforce_hl_caps_def hl_vault_check_def hl_size_caps_check_def refuses_simps split: option.split prod.split)
qed

lemma enforce_x402_cap_refusal [refusals]: "enforce_x402_cap X policy c t to v = Err r \<Longrightarrow> refusal r"
  by (erule refusesD) (simp add: enforce_x402_cap_def refuses_simps split: prod.split)

lemma permit2_list_scan_refusal [refusals]: "permit2_list_scan X items needle found = Err r \<Longrightarrow> refusal r"
  by (induction items arbitrary: found) (auto split: sum.splits)

lemma permit2_allow_list_refusal [refusals]: "permit2_allow_list X items needle = Err r \<Longrightarrow> refusal r"
  by (auto simp: permit2_allow_list_def result_simps split: option.splits if_splits dest: refusals)

lemma enforce_permit2_refusal [refusals]: "enforce_permit2_allowance X policy c v t s a e = Err r \<Longrightarrow> refusal r"
proof (erule refusesD)
  have "refuses (permit2_allow_list X items needle)" for items needle
    using permit2_allow_list_refusal by (auto simp: refuses_def)
  then show "refuses (enforce_permit2_allowance X policy c v t s a e)"
    unfolding enforce_permit2_allowance_def by (simp add: refuses_simps split: sum.split)
qed

lemma enforce_asterdex_refusal [refusals]: "enforce_asterdex_size_cap policy body = Err r \<Longrightarrow> refusal r"
  by (auto simp: enforce_asterdex_size_cap_def asterdex_price_def result_simps
      split: option.splits sum.splits if_splits dest: refusals)

lemma evm_parse_refusal [refusals]:
  "x402_parse X h x = Err r \<Longrightarrow> refusal r" "permit2_parse X h p a = Err r \<Longrightarrow> refusal r"
  by (auto simp: x402_parse_def permit2_parse_def result_simps dest: refusals)

lemma load_hyperliquid_refusal [refusals]:
  assumes "load_hyperliquid_request X cfg inp req identity st = (Err r, st')"
  shows "refusal r"
proof -
  have "refuses (map_err (with_policy_hash h) (enforce_hl_caps X p a v))" "refuses (owned_key X h k b)" for p h a v k b
    using enforce_hl_caps_refusal owned_key_refusal by (auto simp: refuses_def result_simps intro!: refusal_with_hash)
  then have "refuses (fst (load_hyperliquid_request X cfg inp req identity st))"
    by (simp add: load_hyperliquid_request_def request_vault_def refuses_gates refuses_simps split: option.split sum.split prod.split)
  then show ?thesis
    using assms by (simp add: refuses_def)
qed

lemma sign_hyperliquid_refusal:
  assumes "load_hyperliquid_request X cfg inp req identity st = (Err r, st')"
  shows "\<not> carries_signature (fst (sign_hyperliquid_source src X cfg inp req identity st))"
  using refusal_no_signature [OF load_hyperliquid_refusal [OF assms]] assms by (simp add: sign_hyperliquid_source_def)


section \<open>What a signed Hyperliquid action has passed\<close>

lemma load_hyperliquid_Ok:
  assumes "load_hyperliquid_request X cfg inp req identity st = (Ok q, st')"
  obtains policy secret_json where "rq_hl_action req = Some (hq_action q)" "rq_nonce req = Some (hq_nonce q)"
    "request_vault X req = Ok (hq_vault q)" "de_hyperliquid X secret_json = Some (hq_secret q)"
    "load_and_parse_blob X cfg inp req identity st = (Ok (policy, secret_json), st')"
    "enforce_policy X policy req = Ok (hq_policy_hash q)" "enforce_hl_caps X policy (hq_action q) (hq_vault q) = Ok ()"
  using assms
  by (auto simp: load_hyperliquid_request_def result_simps split: option.splits sum.splits prod.splits)

lemma hyperliquid_signed:
  assumes "carries_signature (fst (validated valid (sign_hyperliquid_source src X cfg inp) req identity st))"
  obtains action nonce vault policy secret_json st' h secret pk sig where
    "rq_hl_action req = Some action" "valid action" "rq_nonce req = Some nonce" "request_vault X req = Ok vault"
    "load_and_parse_blob X cfg inp req identity st = (Ok (policy, secret_json), st')" "enforce_policy X policy req = Ok h"
    "enforce_hl_caps X policy action vault = Ok ()" "de_hyperliquid X secret_json = Some secret"
    "parse_evm_private_key X (hl_private_key secret) = Ok pk" "sign_hyperliquid X pk action nonce vault src = Ok sig"
    "fst (validated valid (sign_hyperliquid_source src X cfg inp) req identity st)
       = with_policy_hash h (rsp_ok_hl_signature sig)"
proof -
  obtain action where action: "rq_hl_action req = Some action" "valid action"
    "validated valid (sign_hyperliquid_source src X cfg inp) req identity st = sign_hyperliquid_source src X cfg inp req identity st"
    using assms by (auto simp: validated_def split: option.splits if_splits)
  obtain q st' where q: "load_hyperliquid_request X cfg inp req identity st = (Ok q, st')"
    using assms sign_hyperliquid_refusal unfolding action(3) by (metis obj_sumE surj_pair)
  define r where "r = try_res (deny_if_err (hq_policy_hash q) BAD_REQUEST
      (parse_evm_private_key X (hl_private_key (hq_secret q)))) (\<lambda>pk.
      try_res (deny_if_err (hq_policy_hash q) INTERNAL_ERROR
        (sign_hyperliquid X pk (hq_action q) (hq_nonce q) (hq_vault q) src)) (\<lambda>sig.
      Ok (with_policy_hash (hq_policy_hash q) (rsp_ok_hl_signature sig))))"
  have eq: "fst (sign_hyperliquid_source src X cfg inp req identity st) = respond r"
    unfolding sign_hyperliquid_source_def q r_def by simp
  have "refuses r"
    by (simp add: r_def refuses_simps refuses_gates)
  then obtain x where x: "r = Ok x" "respond r = x"
    using assms refusesD unfolding action(3) eq by (metis respond_signed)
  then obtain pk sig where pk: "parse_evm_private_key X (hl_private_key (hq_secret q)) = Ok pk"
    and sig: "sign_hyperliquid X pk (hq_action q) (hq_nonce q) (hq_vault q) src = Ok sig"
    "x = with_policy_hash (hq_policy_hash q) (rsp_ok_hl_signature sig)"
    by (auto simp: r_def result_simps)
  from load_hyperliquid_Ok [OF q] obtain policy secret_json where
    load: "rq_hl_action req = Some (hq_action q)" "rq_nonce req = Some (hq_nonce q)" "request_vault X req = Ok (hq_vault q)"
      "de_hyperliquid X secret_json = Some (hq_secret q)" "load_and_parse_blob X cfg inp req identity st = (Ok (policy, secret_json), st')"
      "enforce_policy X policy req = Ok (hq_policy_hash q)" "enforce_hl_caps X policy (hq_action q) (hq_vault q) = Ok ()" .
  then have "valid (hq_action q)"
    using action by simp
  moreover have "fst (validated valid (sign_hyperliquid_source src X cfg inp) req identity st)
       = with_policy_hash (hq_policy_hash q) (rsp_ok_hl_signature sig)"
    using action(3) eq x(2) sig(2) by simp
  ultimately show thesis
    using that load pk sig(1) by blast
qed

end
