(* ===== verification/Service_Handlers.thy ===== *)
theory Service_Handlers
  imports Handler_Base
begin

text \<open>
  The handlers that sign no venue request, \<^verbatim>\<open>enclave/src/handler.rs\<close>: the registry challenge and
  refresh, the attestation document, key provisioning, attested data, the receipt heartbeat and
  the blob pre-flight.

  The loop of \<^verbatim>\<open>generate_secp256k1_private_key\<close> draws until a draw is a valid scalar; on the finite
  list of draws it is given here, a provisioning handler is \<^const>\<open>None\<close> when none of them is.
\<close>

section \<open>Registry and attestation\<close>

definition registry_blob_context :: "(bytes \<times> bytes) list" where
  "registry_blob_context = [(''customer_id'', ''registry-system''), (''venue_id'', ''registry'')]"

definition handle_registry_challenge :: "'x enclave_sys_scheme \<Rightarrow> draws \<Rightarrow> enclave_state \<Rightarrow> reply" where
  "handle_registry_challenge X inp st =
     (case challenge X (in_registry_nonce inp) (es_registry st) of
        (nonce_hex, reg) \<Rightarrow> (rsp_ok nonce_hex, st\<lparr>es_registry := reg\<rparr>))"

definition refresh_ciphertext :: "'x externals_scheme \<Rightarrow> sign_request \<Rightarrow> bytes option" where
  "refresh_ciphertext X req =
     (case Option.bind (rq_ciphertext_blob_base64 req) (b64_decode X) of
        None \<Rightarrow> None
      | Some c \<Rightarrow> if c \<noteq> [] \<and> length c \<le> MAX_CIPHERTEXT_BYTES then Some c else None)"

definition handle_registry_refresh ::
  "'x enclave_sys_scheme \<Rightarrow> enclave_config \<Rightarrow> sign_request \<Rightarrow> enclave_state \<Rightarrow> reply" where
  "handle_registry_refresh X cfg req st =
     (case (rq_registry_refresh req, rq_aws_credentials req, refresh_ciphertext X req) of
        (Some params, Some creds, Some ciphertext) \<Rightarrow>
          (case kms_client_decrypt X creds ciphertext (Some registry_blob_context) of
             Err _ \<Rightarrow> (rsp_err KMS_DECRYPT_DENIED, st)
           | Ok entries_json \<Rightarrow>
               (case refresh X (de_refresh_entries X) (cf_registry_pubkey cfg) (es_registry_key st) entries_json
                       (rr_nonce_hex params) (rr_version params) (rr_signature_hex params) (es_registry st) of
                  (Ok version, reg) \<Rightarrow> (rsp_ok (show_nat (unat version)), st\<lparr>es_registry := reg\<rparr>)
                | (Err e, reg) \<Rightarrow> (rsp_err (wire_code e), st\<lparr>es_registry := reg\<rparr>)))
      | _ \<Rightarrow> (rsp_err BAD_REQUEST, st))"

definition MAX_ATTEST_FIELD :: nat where
  "MAX_ATTEST_FIELD = 1024"

definition decode_bounded :: "'x externals_scheme \<Rightarrow> bytes option \<Rightarrow> (unit, bytes option) result" where
  "decode_bounded X field =
     (case field of
        None \<Rightarrow> Ok None
      | Some h \<Rightarrow>
          if h = [] \<or> length h > MAX_ATTEST_FIELD * 2 \<or> odd (length h) \<or> \<not> list_all is_ascii_hexdigit h then Err ()
          else try_res (ok_or () (hex_decode X h)) (\<lambda>bs. Ok (Some bs)))"

definition handle_attestation :: "'x enclave_sys_scheme \<Rightarrow> sign_request \<Rightarrow> enclave_state \<Rightarrow> sign_response" where
  "handle_attestation X req st =
     (case decode_bounded X (rq_attestation_nonce req) of
        Err _ \<Rightarrow> rsp_err BAD_REQUEST
      | Ok nonce \<Rightarrow>
          (case decode_bounded X (rq_attestation_user_data req) of
             Err _ \<Rightarrow> rsp_err BAD_REQUEST
           | Ok user_data \<Rightarrow>
               (case nsm_document X nonce user_data (public_key_compressed X (es_receipts st)) of
                  Some doc \<Rightarrow> rsp_ok_attestation (b64_encode X doc)
                | None \<Rightarrow> rsp_err INTERNAL_ERROR)))"


section \<open>Provisioning\<close>

definition DATA_KEY_POLICY_PREFIX :: bytes where
  "DATA_KEY_POLICY_PREFIX =
     ''{\"policy\":{\"allowed_actions\":[\"sign_data\"],\"label\":\"attested-data service key (enclave-provisioned)\"},\"secret\":{\"exchange\":\"attested-data\",\"private_key\":\"0x''"

definition DATA_KEY_SECRET_MID :: bytes where
  "DATA_KEY_SECRET_MID = ''\",\"wallet_address\":\"''"

definition DATA_KEY_SECRET_SUFFIX :: bytes where
  "DATA_KEY_SECRET_SUFFIX = ''\"}}''"

definition build_data_key_plaintext :: "bytes \<Rightarrow> bytes \<Rightarrow> bytes" where
  "build_data_key_plaintext priv_hex pubkey_address =
     concat [DATA_KEY_POLICY_PREFIX, priv_hex, DATA_KEY_SECRET_MID, pubkey_address, DATA_KEY_SECRET_SUFFIX]"

definition is_agent_key_venue :: "bytes \<Rightarrow> bool" where
  "is_agent_key_venue venue \<longleftrightarrow> venue = ''hyperliquid_main'' \<or> venue = ''hyperliquid_testnet''"

definition build_agent_key_plaintext :: "bytes \<Rightarrow> bytes \<Rightarrow> bytes \<Rightarrow> bytes \<Rightarrow> bytes" where
  "build_agent_key_plaintext policy_raw venue priv_hex pubkey_address =
     concat [''{\"policy\":'', policy_raw, '',\"secret\":{\"exchange\":\"'', venue, ''\",\"private_key\":\"0x'', priv_hex,
             ''\",\"wallet_address\":\"'', pubkey_address, ''\"}}'']"

text \<open>
  The second half of both provisioning handlers, from the generated key on.  Serialising an
  envelope of strings does not fail, so the source's last error branch has no counterpart.
\<close>

definition seal_new_key ::
  "'x enclave_sys_scheme \<Rightarrow> draws \<Rightarrow> aws_credentials \<Rightarrow> bytes \<Rightarrow> resolved_identity \<Rightarrow> bytes
     \<Rightarrow> (bytes \<Rightarrow> bytes \<Rightarrow> bytes) \<Rightarrow> bytes \<Rightarrow> sign_response" where
  "seal_new_key X inp creds key_id identity venue plaintext_of pk =
     (case attested_data_pubkey X pk of
        Err _ \<Rightarrow> rsp_err INTERNAL_ERROR
      | Ok (pubkey_compressed, pubkey_address) \<Rightarrow>
          if length pk * 2 \<noteq> 64 then rsp_err PROVISION_KEY_DERIVATION_FAILED
          else
            (let plaintext = plaintext_of (hex_encode X pk) pubkey_address;
                 dek = in_dek inp in
             case wrap_dek_with_context X creds key_id dek (Some (encryption_context identity venue)) of
               Err GenKeyAccessDenied \<Rightarrow> rsp_err KMS_DECRYPT_DENIED
             | Err GenKeyInternal \<Rightarrow> rsp_err PROVISION_WRAP_FAILED
             | Ok wrapped \<Rightarrow>
                 (case seal_with_dek X (in_gcm_nonce inp) dek wrapped plaintext (sealed_aad identity venue KEY_VERSION) of
                    Err _ \<Rightarrow> rsp_err PROVISION_SEAL_FAILED
                  | Ok env \<Rightarrow>
                      rsp_ok_provision
                        \<lparr>pv_envelope_b64 = b64_encode X (envelope_text X env), pv_pubkey_compressed = pubkey_compressed,
                         pv_pubkey_address = pubkey_address\<rparr>)))"

definition nonempty :: "bytes option \<Rightarrow> bytes option" where
  "nonempty field = (case field of None \<Rightarrow> None | Some s \<Rightarrow> if s = [] then None else Some s)"

definition handle_provision_data_key ::
  "'x enclave_sys_scheme \<Rightarrow> draws \<Rightarrow> sign_request \<Rightarrow> sign_response option" where
  "handle_provision_data_key X inp req =
     (case (rq_aws_credentials req, nonempty (rq_key_id req)) of
        (Some creds, Some key_id) \<Rightarrow>
          map_option (seal_new_key X inp creds key_id for_data_signing ''data-signing'' build_data_key_plaintext)
            (generate_secp256k1_private_key X (in_key_draws inp))
      | _ \<Rightarrow> Some (rsp_err BAD_REQUEST))"

text \<open>The checks on the policy of a new agent key: the same floor as at load.\<close>

definition agent_policy_check ::
  "'x enclave_ext_scheme \<Rightarrow> enclave_config \<Rightarrow> bytes \<Rightarrow> bytes \<Rightarrow> policy \<Rightarrow> (err_code, unit) result" where
  "agent_policy_check X cfg customer_id venue p =
     (if pl_intent_pubkey p \<noteq> None \<and> is_hl_venue venue then Err POLICY_REQUIRED
      else if blob_floor_strict (policy_required cfg) venue \<and> is_money_venue venue
      then (case verify_policy_authority X cfg p customer_id venue of
              Err LoadPolicyRequired \<Rightarrow> Err POLICY_REQUIRED
            | Err _ \<Rightarrow> Err BAD_REQUEST
            | Ok _ \<Rightarrow> if rot3_uncapped_money_key_rejected True venue p then Err POLICY_REQUIRED else Ok ())
      else Ok ())"

definition handle_provision_agent_key ::
  "'x enclave_sys_scheme \<Rightarrow> enclave_config \<Rightarrow> draws \<Rightarrow> sign_request \<Rightarrow> sign_response option" where
  "handle_provision_agent_key X cfg inp req =
     (case (rq_aws_credentials req, nonempty (rq_key_id req), nonempty (rq_provision_venue req),
            nonempty (rq_provision_customer_id req), nonempty (rq_provision_policy req)) of
        (Some creds, Some key_id, Some venue, Some customer_id, Some policy_raw) \<Rightarrow>
          if \<not> is_agent_key_venue venue then Some (rsp_err POLICY_DENIED)
          else if \<not> is_safe_id customer_id then Some (rsp_err BAD_REQUEST)
          else (case de_policy X policy_raw of
            None \<Rightarrow> Some (rsp_err BAD_REQUEST)
          | Some p \<Rightarrow>
              (case agent_policy_check X cfg customer_id venue p of
                 Err code \<Rightarrow> Some (rsp_err code)
               | Ok _ \<Rightarrow>
                   map_option
                     (seal_new_key X inp creds key_id (for_provisioned_agent customer_id venue) venue
                        (build_agent_key_plaintext policy_raw venue))
                     (generate_secp256k1_private_key X (in_key_draws inp))))
      | _ \<Rightarrow> Some (rsp_err BAD_REQUEST))"


section \<open>Attested data, heartbeat, pre-flight\<close>

definition MAX_ATTESTED_DATA_BYTES :: nat where
  "MAX_ATTESTED_DATA_BYTES = 32 * 1024"

text \<open>The attested-data key is installed as the receipt key before anything is signed with it.\<close>

definition handle_sign_data ::
  "'x enclave_sys_scheme \<Rightarrow> enclave_config \<Rightarrow> draws \<Rightarrow> sign_request \<Rightarrow> resolved_identity \<Rightarrow> enclave_state \<Rightarrow> reply" where
  "handle_sign_data X cfg inp req identity st =
     (case rq_data req of
        None \<Rightarrow> (rsp_err BAD_REQUEST, st)
      | Some data_raw \<Rightarrow>
          if length data_raw > MAX_ATTESTED_DATA_BYTES then (rsp_err BAD_REQUEST, st)
          else (case parse_json_no_dup_keys (json_document X) data_raw of
            None \<Rightarrow> (rsp_err BAD_REQUEST, st)
          | Some data \<Rightarrow>
              with_blob X cfg inp req identity st (\<lambda>policy secret_json policy_hash st1.
                (case complete_secret None (de_hyperliquid X) hyperliquid_is_complete secret_json of
                   Err resp \<Rightarrow> (resp, st1)
                 | Ok secret \<Rightarrow>
                     (case parse_evm_private_key X (hl_private_key secret) of
                        Err _ \<Rightarrow> (rsp_err BAD_REQUEST, st1)
                      | Ok pk \<Rightarrow>
                          (respond
                             (try_res (deny_if_err None BAD_REQUEST (sign_attested_data X pk data)) (\<lambda>signature.
                              try_res (deny_if_err None PROVISION_KEY_DERIVATION_FAILED (attested_data_pubkey X pk))
                                (\<lambda>(pubkey_compressed, pubkey_address).
                              Ok (rsp_ok_attested_data
                                    \<lparr>ad_signature = signature, ad_pubkey_compressed = pubkey_compressed,
                                     ad_pubkey_address = pubkey_address\<rparr>)))),
                           st1\<lparr>es_receipts := install_key pk (es_receipts st1)\<rparr>))))))"

definition client_nonce_ok :: "bytes \<Rightarrow> bool" where
  "client_nonce_ok nonce \<longleftrightarrow>
     nonce \<noteq> [] \<and> length nonce \<le> MAX_CLIENT_NONCE_LEN
     \<and> list_all (\<lambda>b. is_ascii_alphanumeric b \<or> b = CHR ''-'' \<or> b = CHR ''_'') nonce"

definition handle_receipt_heartbeat ::
  "'x enclave_sys_scheme \<Rightarrow> sign_request \<Rightarrow> resolved_identity \<Rightarrow> enclave_state \<Rightarrow> sign_response" where
  "handle_receipt_heartbeat X req identity st =
     (case rq_client_nonce req of
        None \<Rightarrow> rsp_err BAD_REQUEST
      | Some nonce \<Rightarrow>
          if \<not> client_nonce_ok nonce then rsp_err BAD_REQUEST
          else (case issue_heartbeat X (es_registry st) (es_receipts st) identity nonce of
            Ok hb \<Rightarrow> (rsp_ok [])\<lparr>rs_heartbeat := Some hb\<rparr>
          | Err NoKey \<Rightarrow> rsp_err RECEIPTS_UNAVAILABLE
          | Err (HeartbeatInternal why) \<Rightarrow> rsp_err INTERNAL_ERROR))"

definition verify_error_code :: "load_secret_error \<Rightarrow> err_code" where
  "verify_error_code e =
     (case e of
        LoadBadRequest \<Rightarrow> BAD_REQUEST
      | LoadKmsDenied \<Rightarrow> VERIFY_FAILED
      | LoadInternal \<Rightarrow> VERIFY_FAILED
      | LoadPolicyRequired \<Rightarrow> POLICY_REQUIRED)"

definition handle_verify_blob ::
  "'x enclave_sys_scheme \<Rightarrow> enclave_config \<Rightarrow> draws \<Rightarrow> sign_request \<Rightarrow> resolved_identity \<Rightarrow> enclave_state \<Rightarrow> reply" where
  "handle_verify_blob X cfg inp req identity st =
     (let venue = (case rq_path req of None \<Rightarrow> [] | Some p \<Rightarrow> p) in
      if \<not> is_ok (authorize_venue identity venue) then (rsp_err BAD_REQUEST, st)
      else (case load_secret_for X inp req identity venue (es_dek st) of
        (Err e, cache) \<Rightarrow> (rsp_err (verify_error_code e), st\<lparr>es_dek := cache\<rparr>)
      | (Ok plaintext, cache) \<Rightarrow>
          ((case from_plaintext X plaintext of
              None \<Rightarrow> rsp_err VERIFY_FAILED
            | Some parsed \<Rightarrow>
                if blob_floor_strict (policy_required cfg) venue \<and> blob_policy parsed = None then rsp_err POLICY_REQUIRED
                else rsp_ok_verify_blob (hex_encode X (sha256 X plaintext)) (word_of_nat (length plaintext))),
           st\<lparr>es_dek := cache\<rparr>)))"

end
