(* ===== verification/Dispatch.thy ===== *)
theory Dispatch
  imports Cex_Handlers Evm_Handlers Service_Handlers
begin

text \<open>
  \<^verbatim>\<open>handle\<close> of \<^verbatim>\<open>enclave/src/handler.rs\<close>, the entry point of every request: the actions without a
  tenant first, then the protocol version, the identity behind the token, the rate limit, the
  tenant mode, the handler of the action and the decision receipt.  \<^verbatim>\<open>tenant_mode_gate\<close> is the
  kill switch in front of the handlers.

  \<open>handle\<close> is \<^const>\<open>None\<close> only when a provisioning request finds no valid scalar among the draws it
  is given.
\<close>

section \<open>The tenant mode\<close>

definition OBSERVING_ACTIONS :: "bytes list" where
  "OBSERVING_ACTIONS = [''verify_blob'', ''receipt_heartbeat'']"

definition GENERIC_ACTIONS :: "bytes list" where
  "GENERIC_ACTIONS = [''sign_kucoin'', ''sign_binance'', ''sign_bybit'', ''sign_okx'', ''sign_asterdex'']"

definition gate_method :: "sign_request \<Rightarrow> bytes" where
  "gate_method req = (case rq_method req of None \<Rightarrow> [] | Some m \<Rightarrow> to_ascii_uppercase (trim m))"

definition cancel_only_allows :: "sign_request \<Rightarrow> bool" where
  "cancel_only_allows req \<longleftrightarrow>
     rq_action req = ''verify_blob''
     \<or> rq_action req = ''receipt_heartbeat''
     \<or> ends_with (rq_action req) ''_cancel''
     \<or> (rq_action req = ''sign_binance_request'' \<and> map_option trim (rq_op req) \<noteq> Some ''order'')
     \<or> (rq_action req \<in> set GENERIC_ACTIONS \<and> gate_method req \<in> set [''GET'', ''DELETE''])"

definition tenant_mode_gate :: "resolved_identity \<Rightarrow> sign_request \<Rightarrow> (sign_response, unit) result" where
  "tenant_mode_gate identity req =
     (case ri_mode identity of
        Active \<Rightarrow> Ok ()
      | Halted \<Rightarrow> if rq_action req \<in> set OBSERVING_ACTIONS then Ok () else Err (rsp_err MODE_HALTED)
      | CancelOnly \<Rightarrow> if cancel_only_allows req then Ok () else Err (rsp_err MODE_CANCEL_ONLY))"


section \<open>The dispatch\<close>

definition sign_handlers ::
  "'x enclave_sys_scheme \<Rightarrow> enclave_config \<Rightarrow> draws
     \<Rightarrow> (bytes \<times> (sign_request \<Rightarrow> resolved_identity \<Rightarrow> enclave_state \<Rightarrow> reply)) list" where
  "sign_handlers X cfg inp =
     [(''sign'', \<lambda>req identity st. (rsp_err BAD_REQUEST, st)),
      (''sign_kucoin'', handle_sign_kucoin X cfg inp),
      (''sign_binance'', handle_sign_binance X cfg inp),
      (''sign_binance_request'', handle_sign_binance_request X cfg inp),
      (''sign_bybit'', handle_sign_bybit X cfg inp),
      (''sign_okx'', handle_sign_okx X cfg inp),
      (''sign_hyperliquid_main_order'', handle_sign_hyperliquid_main_order X cfg inp),
      (''sign_hyperliquid_main_cancel'', handle_sign_hyperliquid_main_cancel X cfg inp),
      (''sign_hyperliquid_testnet_order'', handle_sign_hyperliquid_testnet_order X cfg inp),
      (''sign_hyperliquid_testnet_cancel'', handle_sign_hyperliquid_testnet_cancel X cfg inp),
      (''sign_asterdex'', handle_sign_asterdex X cfg inp),
      (''sign_data'', handle_sign_data X cfg inp),
      (''sign_x402_eip3009'', handle_sign_x402_eip3009 X cfg inp),
      (''sign_permit2_permit_single'', handle_sign_permit2_permit_single X cfg inp),
      (''sign_binance_order'', handle_sign_binance_order X cfg inp),
      (''sign_binance_cancel'', handle_sign_binance_cancel X cfg inp),
      (''sign_okx_order'', handle_sign_okx_order X cfg inp),
      (''sign_okx_cancel'', handle_sign_okx_cancel X cfg inp),
      (''receipt_heartbeat'', \<lambda>req identity st. (handle_receipt_heartbeat X req identity st, st)),
      (''verify_blob'', handle_verify_blob X cfg inp)]"

definition dispatch ::
  "'x enclave_sys_scheme \<Rightarrow> enclave_config \<Rightarrow> draws \<Rightarrow> sign_request \<Rightarrow> resolved_identity \<Rightarrow> enclave_state \<Rightarrow> reply" where
  "dispatch X cfg inp req identity st =
     (case map_of (sign_handlers X cfg inp) (rq_action req) of
        Some h \<Rightarrow> h req identity st
      | None \<Rightarrow> (rsp_err BAD_REQUEST, st))"

text \<open>From the resolved identity on: capture, gate, handler, receipt.\<close>

definition gated_dispatch ::
  "'x enclave_sys_scheme \<Rightarrow> enclave_config \<Rightarrow> draws \<Rightarrow> sign_request \<Rightarrow> resolved_identity \<Rightarrow> enclave_state \<Rightarrow> reply" where
  "gated_dispatch X cfg inp req identity st =
     (case tenant_mode_gate identity req of
        Err resp \<Rightarrow> (resp, st)
      | Ok _ \<Rightarrow> dispatch X cfg inp req identity st)"

definition decide ::
  "'x enclave_sys_scheme \<Rightarrow> enclave_config \<Rightarrow> draws \<Rightarrow> sign_request \<Rightarrow> resolved_identity \<Rightarrow> enclave_state \<Rightarrow> reply" where
  "decide X cfg inp req identity st =
     (let receipt_pre = capture X identity req;
          (resp, st1) = gated_dispatch X cfg inp req identity st;
          (resp', receipts) = attach X receipt_pre resp (es_receipts st1) in
      (resp', st1\<lparr>es_receipts := receipts\<rparr>))"

lemma decide_eq:
  "fst (decide X cfg inp req identity st) =
     fst (attach X (capture X identity req) (fst (gated_dispatch X cfg inp req identity st))
       (es_receipts (snd (gated_dispatch X cfg inp req identity st))))"
  "snd (decide X cfg inp req identity st) =
     (snd (gated_dispatch X cfg inp req identity st))\<lparr>es_receipts :=
       snd (attach X (capture X identity req) (fst (gated_dispatch X cfg inp req identity st))
         (es_receipts (snd (gated_dispatch X cfg inp req identity st))))\<rparr>"
  by (simp_all add: decide_def Let_def split: prod.split)

definition resolve_identity :: "'x enclave_sys_scheme \<Rightarrow> enclave_state \<Rightarrow> sign_request \<Rightarrow> resolved_identity option" where
  "resolve_identity X st req =
     Option.bind (rq_opaque_token req) (\<lambda>token. resolve X (es_registry_key st) token (es_registry st))"

definition rate_key :: "resolved_identity option \<Rightarrow> bytes" where
  "rate_key identity = (case identity of None \<Rightarrow> ''unauthenticated'' | Some i \<Rightarrow> ri_customer_id i)"

text \<open>The state a granted request runs in: the limiter has charged its customer.\<close>

definition rate_charged :: "resolved_identity \<Rightarrow> draws \<Rightarrow> enclave_state \<Rightarrow> enclave_state" where
  "rate_charged identity inp st =
     st\<lparr>es_limiter := snd (rl_check (ri_customer_id identity) (in_now inp) (es_limiter st))\<rparr>"

definition handle_tenant ::
  "'x enclave_sys_scheme \<Rightarrow> enclave_config \<Rightarrow> draws \<Rightarrow> sign_request \<Rightarrow> enclave_state \<Rightarrow> reply" where
  "handle_tenant X cfg inp req st =
     (if rq_proto_version req < REQUIRED_PROTO_VERSION then (rsp_err BAD_REQUEST, st)
      else
        (let identity = resolve_identity X st req;
             (allowed, limiter) = rl_check (rate_key identity) (in_now inp) (es_limiter st);
             st1 = st\<lparr>es_limiter := limiter\<rparr> in
         if \<not> allowed then (rsp_err RATE_LIMITED, st1)
         else case identity of
           None \<Rightarrow> (rsp_err BAD_REQUEST, st1)
         | Some i \<Rightarrow> decide X cfg inp req i st1))"

definition handle ::
  "'x enclave_sys_scheme \<Rightarrow> enclave_config \<Rightarrow> draws \<Rightarrow> sign_request \<Rightarrow> enclave_state \<Rightarrow> reply option" where
  "handle X cfg inp req st =
     (if rq_action req = ''ping'' then Some (rsp_ok ''pong'', st)
      else if rq_action req = ''registry_challenge'' then Some (handle_registry_challenge X inp st)
      else if rq_action req = ''registry_refresh'' then Some (handle_registry_refresh X cfg req st)
      else if rq_action req = ''provision_data_key''
      then map_option (\<lambda>resp. (resp, st)) (handle_provision_data_key X inp req)
      else if rq_action req = ''provision_agent_key''
      then map_option (\<lambda>resp. (resp, st)) (handle_provision_agent_key X cfg inp req)
      else if rq_action req = ''attestation'' then Some (handle_attestation X req st, st)
      else Some (handle_tenant X cfg inp req st))"


section \<open>A signature needs a loaded blob\<close>

text \<open>
  The request as the policy sees it: the Binance route by operation name puts in the method and path of the operation, every
  other action is judged as it came.
\<close>

definition policy_view :: "sign_request \<Rightarrow> sign_request" where
  "policy_view req =
     (if rq_action req = ''sign_binance_request''
      then (case Option.bind (rq_op req) binance_request_method_path of
              None \<Rightarrow> req
            | Some (method, path) \<Rightarrow> routed_request req method path)
      else req)"

text \<open>
  The blob of this request, opened for this identity in this state, holds this policy and this secret, and the policy permits
  the request.  Opening is a function of the request and the state, so there is one such policy and secret at most.
\<close>

definition loads_as ::
  "sign_request \<Rightarrow> 'x enclave_sys_scheme \<Rightarrow> enclave_config \<Rightarrow> draws \<Rightarrow> sign_request \<Rightarrow> resolved_identity \<Rightarrow> enclave_state
     \<Rightarrow> policy option \<Rightarrow> json \<Rightarrow> bool" where
  "loads_as view X cfg inp req identity st policy secret_json \<longleftrightarrow>
     fst (load_and_parse_blob X cfg inp req identity st) = Ok (policy, secret_json) \<and> is_ok (enforce_policy X policy view)"

definition loads ::
  "'x enclave_sys_scheme \<Rightarrow> enclave_config \<Rightarrow> draws \<Rightarrow> sign_request \<Rightarrow> resolved_identity \<Rightarrow> enclave_state
     \<Rightarrow> policy option \<Rightarrow> json \<Rightarrow> bool" where
  "loads X cfg inp req = loads_as (policy_view req) X cfg inp req"

lemma loads_unique:
  assumes "loads X cfg inp req identity st policy sj" "loads X cfg inp req identity st policy' sj'"
  shows "policy' = policy \<and> sj' = sj"
  using assms by (simp add: loads_def loads_as_def)

lemma routed_fields:
  "rq_action (routed_request req method path) = rq_action req"
  "rq_aws_credentials (routed_request req method path) = rq_aws_credentials req"
  "rq_ciphertext_blob_base64 (routed_request req method path) = rq_ciphertext_blob_base64 req"
  by (simp_all add: routed_request_def)

lemma loads_permits:
  assumes "loads X cfg inp req identity st policy sj"
  shows "fst (load_and_parse_blob X cfg inp req identity st) = Ok (policy, sj)" "policy = Some p \<Longrightarrow> policy_permits p (policy_view req)"
proof -
  show "fst (load_and_parse_blob X cfg inp req identity st) = Ok (policy, sj)"
    using assms by (simp add: loads_def loads_as_def)
  have "is_ok (enforce_policy_inner X policy (policy_view req))"
    using assms by (cases "enforce_policy_inner X policy (policy_view req)") (simp_all add: loads_def loads_as_def enforce_policy_def)
  then show "policy = Some p \<Longrightarrow> policy_permits p (policy_view req)"
    by (auto simp: is_ok_iff enforce_policy_inner_Ok)
qed

lemma load_routed [simp]:
  "load_and_parse_blob X cfg inp (routed_request req method path) identity st = load_and_parse_blob X cfg inp req identity st"
  unfolding load_and_parse_blob_def load_secret_for_def request_blob_def routed_fields by (rule refl)

lemma with_blob_loads:
  assumes "carries_signature (fst (with_blob X cfg inp req identity st k))"
  shows "\<exists>policy sj. loads_as req X cfg inp req identity st policy sj"
  using assms by (rule with_blob_signed) (auto simp: loads_as_def)

lemma with_routed_blob_loads:
  assumes "carries_signature (fst (with_blob X cfg inp (routed_request req method path) identity st k))"
  shows "\<exists>policy sj. loads_as (routed_request req method path) X cfg inp req identity st policy sj"
  using assms by (rule with_blob_signed) (auto simp: loads_as_def)

lemma hyperliquid_loads:
  assumes "load_hyperliquid_request X cfg inp req identity st = (Ok q, st')"
  shows "\<exists>policy sj. loads_as req X cfg inp req identity st policy sj"
  using assms
  by (auto simp: load_hyperliquid_request_def loads_as_def result_simps split: option.splits sum.splits prod.splits)

lemma sign_hyperliquid_loads:
  assumes "carries_signature (fst (validated valid (sign_hyperliquid_source src X cfg inp) req identity st))"
  shows "\<exists>policy sj. loads_as req X cfg inp req identity st policy sj"
proof -
  have signed: "carries_signature (fst (sign_hyperliquid_source src X cfg inp req identity st))"
    using assms by (auto simp: validated_def split: option.splits if_splits)
  obtain r st' where load: "load_hyperliquid_request X cfg inp req identity st = (r, st')"
    by (cases "load_hyperliquid_request X cfg inp req identity st")
  show ?thesis
  proof (cases r)
    case (Inl resp)
    then show ?thesis
      using signed load sign_hyperliquid_refusal by blast
  next
    case (Inr q)
    then show ?thesis
      using hyperliquid_loads load by blast
  qed
qed

lemmas cex_handler_defs = handle_sign_kucoin_def handle_sign_binance_def handle_sign_bybit_def handle_sign_okx_def
  handle_sign_binance_request_def handle_sign_binance_order_def handle_sign_binance_cancel_def
  handle_sign_okx_order_def handle_sign_okx_cancel_def

lemmas hl_handler_defs = handle_sign_hyperliquid_main_order_def handle_sign_hyperliquid_main_cancel_def
  handle_sign_hyperliquid_testnet_order_def handle_sign_hyperliquid_testnet_cancel_def
  sign_hyperliquid_mainnet_def sign_hyperliquid_testnet_def

lemmas evm_handler_defs = handle_sign_asterdex_def handle_sign_x402_eip3009_def handle_sign_permit2_permit_single_def

lemma cex_handlers_load:
  "carries_signature (fst (handle_sign_kucoin X cfg inp req identity st)) \<Longrightarrow> \<exists>policy sj. loads_as req X cfg inp req identity st policy sj"
  "carries_signature (fst (handle_sign_binance X cfg inp req identity st)) \<Longrightarrow> \<exists>policy sj. loads_as req X cfg inp req identity st policy sj"
  "carries_signature (fst (handle_sign_bybit X cfg inp req identity st)) \<Longrightarrow> \<exists>policy sj. loads_as req X cfg inp req identity st policy sj"
  "carries_signature (fst (handle_sign_okx X cfg inp req identity st)) \<Longrightarrow> \<exists>policy sj. loads_as req X cfg inp req identity st policy sj"
  "carries_signature (fst (handle_sign_binance_order X cfg inp req identity st)) \<Longrightarrow> \<exists>policy sj. loads_as req X cfg inp req identity st policy sj"
  "carries_signature (fst (handle_sign_binance_cancel X cfg inp req identity st)) \<Longrightarrow> \<exists>policy sj. loads_as req X cfg inp req identity st policy sj"
  "carries_signature (fst (handle_sign_okx_order X cfg inp req identity st)) \<Longrightarrow> \<exists>policy sj. loads_as req X cfg inp req identity st policy sj"
  "carries_signature (fst (handle_sign_okx_cancel X cfg inp req identity st)) \<Longrightarrow> \<exists>policy sj. loads_as req X cfg inp req identity st policy sj"
  by (auto simp: cex_handler_defs split: option.splits if_splits dest: with_blob_loads)

lemma binance_request_loads:
  assumes "carries_signature (fst (handle_sign_binance_request X cfg inp req identity st))" "rq_action req = ''sign_binance_request''"
  shows "\<exists>policy sj. loads X cfg inp req identity st policy sj"
  using assms
  by (auto simp: handle_sign_binance_request_def loads_def policy_view_def split: option.splits if_splits dest: with_routed_blob_loads)

lemma evm_handlers_load:
  "carries_signature (fst (handle_sign_hyperliquid_main_order X cfg inp req identity st)) \<Longrightarrow> \<exists>policy sj. loads_as req X cfg inp req identity st policy sj"
  "carries_signature (fst (handle_sign_hyperliquid_main_cancel X cfg inp req identity st)) \<Longrightarrow> \<exists>policy sj. loads_as req X cfg inp req identity st policy sj"
  "carries_signature (fst (handle_sign_hyperliquid_testnet_order X cfg inp req identity st)) \<Longrightarrow> \<exists>policy sj. loads_as req X cfg inp req identity st policy sj"
  "carries_signature (fst (handle_sign_hyperliquid_testnet_cancel X cfg inp req identity st)) \<Longrightarrow> \<exists>policy sj. loads_as req X cfg inp req identity st policy sj"
  "carries_signature (fst (handle_sign_asterdex X cfg inp req identity st)) \<Longrightarrow> \<exists>policy sj. loads_as req X cfg inp req identity st policy sj"
  "carries_signature (fst (handle_sign_x402_eip3009 X cfg inp req identity st)) \<Longrightarrow> \<exists>policy sj. loads_as req X cfg inp req identity st policy sj"
  "carries_signature (fst (handle_sign_permit2_permit_single X cfg inp req identity st)) \<Longrightarrow> \<exists>policy sj. loads_as req X cfg inp req identity st policy sj"
  by (auto simp: hl_handler_defs evm_handler_defs split: option.splits if_splits sum.splits
      dest: with_blob_loads sign_hyperliquid_loads)

lemma service_handlers_load:
  shows "carries_signature (fst (handle_sign_data X cfg inp req identity st)) \<Longrightarrow> \<exists>policy sj. loads_as req X cfg inp req identity st policy sj"
    and "\<not> carries_signature (handle_receipt_heartbeat X req identity st)"
    and "\<not> carries_signature (fst (handle_verify_blob X cfg inp req identity st))"
proof -
  show "carries_signature (fst (handle_sign_data X cfg inp req identity st)) \<Longrightarrow> \<exists>policy sj. loads_as req X cfg inp req identity st policy sj"
    by (auto simp: handle_sign_data_def split: option.splits if_splits dest: with_blob_loads)
  have "\<not> carries_signature (rsp_ok_verify_blob d n)" "\<not> carries_signature ((rsp_ok [])\<lparr>rs_heartbeat := x\<rparr>)" for d n x
    by (simp_all add: carries_signature_def rsp_defs)
  then show "\<not> carries_signature (handle_receipt_heartbeat X req identity st)"
    "\<not> carries_signature (fst (handle_verify_blob X cfg inp req identity st))"
    by (simp_all add: handle_receipt_heartbeat_def handle_verify_blob_def Let_def
        split: option.split sum.split prod.split heartbeat_unavailable.split)
qed

lemma dispatch_loads:
  assumes "carries_signature (fst (dispatch X cfg inp req identity st))"
  shows "\<exists>policy sj. loads X cfg inp req identity st policy sj"
proof (cases "rq_action req = ''sign_binance_request''")
  case True
  then show ?thesis
    using assms by (intro binance_request_loads) (simp_all add: dispatch_def sign_handlers_def)
next
  case False
  obtain h where h: "(rq_action req, h) \<in> set (sign_handlers X cfg inp)" "carries_signature (fst (h req identity st))"
    using assms by (auto simp: dispatch_def split: option.splits dest: map_of_SomeD)
  then have "\<exists>policy sj. loads_as req X cfg inp req identity st policy sj"
    using False unfolding sign_handlers_def
    by (auto simp only: list.set insert_iff empty_iff prod.inject fst_conv carries_signature_err
          service_handlers_load(2,3)
        dest: cex_handlers_load evm_handlers_load service_handlers_load(1))
  then show ?thesis
    using False by (simp add: loads_def policy_view_def)
qed

lemma loads_floor:
  assumes "loads X cfg inp req identity st policy sj"
  obtains venue where "venue_for_action (rq_action req) = Some venue" "venue_allowed identity venue"
    "blob_floor_strict (policy_required cfg) venue \<Longrightarrow> policy \<noteq> None"
    "blob_floor_strict (policy_required cfg) venue \<Longrightarrow> is_money_venue venue \<Longrightarrow>
      \<exists>p. policy = Some p \<and> verify_policy_authority X cfg p (ri_customer_id identity) venue = Ok ()
        \<and> rot3_binding_cap_present venue p"
proof -
  obtain st' where load: "load_and_parse_blob X cfg inp req identity st = (Ok (policy, sj), st')"
    using assms unfolding loads_def loads_as_def by (metis prod.collapse)
  from load_Ok [OF load] obtain venue pt cache parsed where v: "venue_for_action (rq_action req) = Some venue"
    "venue_allowed identity venue" "fst (check_floor X cfg identity venue parsed (es_pins st)) = Ok (policy, sj)"
    by metis
  show thesis
    using that [OF v(1,2)] check_floor_Ok(3,4) [OF v(3)] by blast
qed

lemma attach_signature [simp]: "carries_signature (fst (attach X p resp st)) = carries_signature resp"
  by (simp add: attach_def split: prod.split option.split)

lemma decide_signed:
  assumes "carries_signature (fst (decide X cfg inp req identity st))"
  shows "tenant_mode_gate identity req = Ok ()" "carries_signature (fst (dispatch X cfg inp req identity st))"
proof -
  have gate: "carries_signature (fst (gated_dispatch X cfg inp req identity st))"
    using assms by (simp add: decide_eq)
  have "\<not> carries_signature e" if "tenant_mode_gate identity req = Err e" for e
    using that by (auto simp: tenant_mode_gate_def split: tenant_mode.splits if_splits)
  then show "tenant_mode_gate identity req = Ok ()" "carries_signature (fst (dispatch X cfg inp req identity st))"
    using gate by (auto simp: gated_dispatch_def split: sum.splits)
qed

definition TENANTLESS_ACTIONS :: "bytes list" where
  "TENANTLESS_ACTIONS = [''ping'', ''registry_challenge'', ''registry_refresh'', ''provision_data_key'',
     ''provision_agent_key'', ''attestation'']"

lemma handle_tenant_signed:
  assumes "carries_signature (fst (handle_tenant X cfg inp req st))"
  obtains identity where "resolve_identity X st req = Some identity" "rq_proto_version req \<ge> REQUIRED_PROTO_VERSION"
    "fst (rl_check (ri_customer_id identity) (in_now inp) (es_limiter st))"
    "handle_tenant X cfg inp req st = decide X cfg inp req identity
       (st\<lparr>es_limiter := snd (rl_check (ri_customer_id identity) (in_now inp) (es_limiter st))\<rparr>)"
proof -
  obtain ok lim where rl: "rl_check (rate_key (resolve_identity X st req)) (in_now inp) (es_limiter st) = (ok, lim)"
    by (cases "rl_check (rate_key (resolve_identity X st req)) (in_now inp) (es_limiter st)")
  show thesis
    using assms rl that
    by (auto simp: handle_tenant_def Let_def rate_key_def not_less split: if_splits option.splits)
qed

lemma attach_fields [simp]:
  "rs_error (fst (attach X p resp st)) = rs_error resp" "rs_headers (fst (attach X p resp st)) = rs_headers resp"
  "rs_canonical_body (fst (attach X p resp st)) = rs_canonical_body resp"
  "rs_hl_signature (fst (attach X p resp st)) = rs_hl_signature resp"
  "rs_policy_hash (fst (attach X p resp st)) = rs_policy_hash resp"
  by (simp_all add: attach_def split: prod.split option.split)

lemma handle_tenant_denied:
  assumes "resolve_identity X st req = Some identity" "tenant_mode_gate identity req \<noteq> Ok ()"
  shows "rs_error (fst (handle_tenant X cfg inp req st)) \<noteq> None"
proof -
  obtain e where e: "tenant_mode_gate identity req = Err e" "rs_error e \<noteq> None"
    using assms(2) by (auto simp: tenant_mode_gate_def split: tenant_mode.splits if_splits)
  have "rs_error (fst (decide X cfg inp req identity st1)) = rs_error e" for st1
    by (simp add: decide_eq gated_dispatch_def e(1))
  then show ?thesis
    using assms(1) e(2) by (simp add: handle_tenant_def Let_def split: prod.split)
qed

lemma handle_tenant_granted:
  assumes "resolve_identity X st req = Some identity" "rq_proto_version req \<ge> REQUIRED_PROTO_VERSION"
    and "fst (rl_check (ri_customer_id identity) (in_now inp) (es_limiter st))"
  shows "handle_tenant X cfg inp req st = decide X cfg inp req identity
    (st\<lparr>es_limiter := snd (rl_check (ri_customer_id identity) (in_now inp) (es_limiter st))\<rparr>)"
  using assms leD [OF assms(2)]
  by (cases "rl_check (ri_customer_id identity) (in_now inp) (es_limiter st)") (simp add: handle_tenant_def Let_def rate_key_def)

lemma handle_tenantful:
  assumes "rq_action req \<notin> set TENANTLESS_ACTIONS"
  shows "handle X cfg inp req st = Some (handle_tenant X cfg inp req st)"
  using assms by (simp add: handle_def TENANTLESS_ACTIONS_def)

text \<open>A signed answer of \<open>handle\<close> is the handler's answer, up to the receipt.\<close>

lemma handle_signed:
  assumes "handle X cfg inp req st = Some (resp, st')" "carries_signature resp" "rq_action req \<notin> set TENANTLESS_ACTIONS"
  obtains identity p r where "resolve_identity X st req = Some identity"
    "fst (rl_check (ri_customer_id identity) (in_now inp) (es_limiter st))" "tenant_mode_gate identity req = Ok ()"
    "carries_signature (fst (dispatch X cfg inp req identity (rate_charged identity inp st)))"
    "resp = fst (attach X p (fst (dispatch X cfg inp req identity (rate_charged identity inp st))) r)"
proof -
  have eq: "handle_tenant X cfg inp req st = (resp, st')"
    using assms(1) by (simp add: handle_tenantful [OF assms(3)])
  then have signed: "carries_signature (fst (handle_tenant X cfg inp req st))"
    using assms(2) by simp
  from handle_tenant_signed [OF signed] obtain identity where id: "resolve_identity X st req = Some identity"
    "fst (rl_check (ri_customer_id identity) (in_now inp) (es_limiter st))"
    "handle_tenant X cfg inp req st = decide X cfg inp req identity (rate_charged identity inp st)"
    unfolding rate_charged_def by metis
  note decided = decide_signed [OF signed [unfolded id(3)]]
  have "resp = fst (decide X cfg inp req identity (rate_charged identity inp st))"
    using eq id(3) by simp
  then show thesis
    using that [OF id(1,2) decided(1) decided(2)] by (simp add: decide_eq gated_dispatch_def decided(1))
qed

text \<open>The actions without a tenant do not look at the token, and carry no venue or data signature.\<close>

lemma token_irrelevant:
  "rq_action (req\<lparr>rq_opaque_token := t\<rparr>) = rq_action req" "rq_aws_credentials (req\<lparr>rq_opaque_token := t\<rparr>) = rq_aws_credentials req"
  "rq_ciphertext_blob_base64 (req\<lparr>rq_opaque_token := t\<rparr>) = rq_ciphertext_blob_base64 req"
  "rq_registry_refresh (req\<lparr>rq_opaque_token := t\<rparr>) = rq_registry_refresh req" "rq_key_id (req\<lparr>rq_opaque_token := t\<rparr>) = rq_key_id req"
  "rq_provision_venue (req\<lparr>rq_opaque_token := t\<rparr>) = rq_provision_venue req"
  "rq_provision_customer_id (req\<lparr>rq_opaque_token := t\<rparr>) = rq_provision_customer_id req"
  "rq_provision_policy (req\<lparr>rq_opaque_token := t\<rparr>) = rq_provision_policy req"
  "rq_attestation_nonce (req\<lparr>rq_opaque_token := t\<rparr>) = rq_attestation_nonce req"
  "rq_attestation_user_data (req\<lparr>rq_opaque_token := t\<rparr>) = rq_attestation_user_data req"
  by simp_all

lemma tenantless_ignores_token:
  assumes "rq_action req \<in> set TENANTLESS_ACTIONS"
  shows "handle X cfg inp (req\<lparr>rq_opaque_token := t\<rparr>) st = handle X cfg inp req st"
proof -
  have "handle_registry_refresh X cfg (req\<lparr>rq_opaque_token := t\<rparr>) st = handle_registry_refresh X cfg req st"
    "handle_provision_data_key X inp (req\<lparr>rq_opaque_token := t\<rparr>) = handle_provision_data_key X inp req"
    "handle_provision_agent_key X cfg inp (req\<lparr>rq_opaque_token := t\<rparr>) = handle_provision_agent_key X cfg inp req"
    "handle_attestation X (req\<lparr>rq_opaque_token := t\<rparr>) st = handle_attestation X req st"
    unfolding handle_registry_refresh_def refresh_ciphertext_def handle_provision_data_key_def handle_provision_agent_key_def
      handle_attestation_def token_irrelevant by (rule refl)+
  then show ?thesis
    using assms by (auto simp: handle_def TENANTLESS_ACTIONS_def)
qed

definition venue_signature :: "sign_response \<Rightarrow> bool" where
  "venue_signature r \<longleftrightarrow> rs_headers r \<noteq> None \<or> rs_hl_signature r \<noteq> None \<or> rs_attested r \<noteq> None"

lemma venue_signature_carries: "venue_signature r \<Longrightarrow> carries_signature r"
  by (auto simp: venue_signature_def carries_signature_def)

lemma tenantless_no_venue_signature:
  assumes "handle X cfg inp req st = Some (resp, st')" "rq_action req \<in> set TENANTLESS_ACTIONS"
  shows "\<not> venue_signature resp"
proof -
  have "\<not> venue_signature (rsp_ok c)" "\<not> venue_signature (rsp_err e)" for c e
    by (simp_all add: venue_signature_def rsp_defs)
  moreover have "\<not> venue_signature (fst (handle_registry_refresh X cfg req st))" "\<not> venue_signature (fst (handle_registry_challenge X inp st))"
    by (auto simp: handle_registry_refresh_def handle_registry_challenge_def venue_signature_def rsp_defs
        split: option.split sum.split prod.split)
  moreover have "\<not> venue_signature (handle_attestation X req st)"
    by (auto simp: handle_attestation_def venue_signature_def rsp_defs split: option.split sum.split)
  moreover have "\<not> venue_signature (seal_new_key X inp creds key_id k v b s)" for creds key_id k v b s
    by (auto simp: seal_new_key_def venue_signature_def rsp_defs Let_def split: option.split sum.split gen_key_error.split)
  ultimately show ?thesis
    using assms
    by (auto simp: handle_def TENANTLESS_ACTIONS_def handle_provision_data_key_def handle_provision_agent_key_def
        split: option.splits if_splits sum.splits)
qed

end
