(* ===== verification/Answers.thy ===== *)
theory Answers
  imports Dispatch
begin

text \<open>
  The shape of the enclave's answers.  Each handler of \<^verbatim>\<open>enclave/src/handler.rs\<close> either
  succeeds, with no error code, or refuses, with an error code and none of the fields that carry a
  signature; the receipt attached afterwards reports which of the two it was.
\<close>

section \<open>Every answer is a success or a refusal\<close>

definition well_shaped :: "sign_response \<Rightarrow> bool" where
  "well_shaped r \<longleftrightarrow> rs_receipt r = None \<and> (rs_error r = None \<or> refusal r)"

definition answers :: "(sign_response, sign_response) result \<Rightarrow> bool" where
  "answers r \<longleftrightarrow> refuses r \<and> (\<forall>x. r = Ok x \<longrightarrow> rs_error x = None \<and> rs_receipt x = None)"

lemma answers_simps:
  "answers (Ok x) \<longleftrightarrow> rs_error x = None \<and> rs_receipt x = None"
  "answers (try_res m f) \<longleftrightarrow> refuses m \<and> (\<forall>y. m = Ok y \<longrightarrow> answers (f y))"
  by (simp add: answers_def refuses_def) (cases m; simp add: answers_def refuses_def)

lemma refusal_receipt [simp]: "refusal r \<Longrightarrow> rs_receipt r = None"
  by (auto simp: refusal_def rsp_defs)

lemma well_shaped_simps:
  "well_shaped (rsp_err c)" "refusal r \<Longrightarrow> well_shaped (with_policy_hash h r)" "answers a \<Longrightarrow> well_shaped (respond a)"
  by (auto simp: well_shaped_def respond_def answers_def refuses_def split: sum.split)

lemma ok_no_error [simp]:
  "rs_error (ok_headers_under h hs) = None" "rs_error (with_canonical_body c r) = rs_error r"
  "rs_error (with_policy_hash h r) = rs_error r" "rs_error (rsp_ok_hl_signature s) = None"
  "rs_error (rsp_ok_attested_data d) = None" "rs_error (rsp_ok_verify_blob c n) = None" "rs_error (rsp_ok c) = None"
  "rs_receipt (ok_headers_under h hs) = None" "rs_receipt (with_canonical_body c r) = rs_receipt r"
  "rs_receipt (with_policy_hash h r) = rs_receipt r" "rs_receipt (rsp_ok_hl_signature s) = None"
  "rs_receipt (rsp_ok_attested_data d) = None" "rs_receipt (rsp_ok_verify_blob c n) = None" "rs_receipt (rsp_ok c) = None"
  "rs_receipt (rsp_err e) = None"
  by (simp_all add: ok_headers_under_def rsp_defs)

lemma with_blob_shaped:
  assumes "\<And>policy sj h st'. well_shaped (fst (k policy sj h st'))"
  shows "well_shaped (fst (with_blob X cfg inp req identity st k))"
  using assms refuses_gates(1) [of X _ req]
  by (auto simp: with_blob_def well_shaped_def refuses_def split: prod.split sum.split)

lemma intent_gated_shaped:
  assumes "\<And>st'. well_shaped (fst (k st'))" "\<And>r led led'. gate led = (Err r, led') \<Longrightarrow> refusal r"
  shows "well_shaped (fst (intent_gated h gate st k))"
  using assms by (auto simp: intent_gated_def well_shaped_def split: prod.split sum.split)

lemma refuses_caps:
  "refuses (map_err (with_policy_hash h) (enforce_hl_caps X p a v))" "refuses (owned_key X h k b)"
  "refuses (map_err (with_policy_hash h) (enforce_asterdex_size_cap p body))"
  "refuses (map_err (with_policy_hash h) (enforce_x402_cap X p c t r w))"
  "refuses (map_err (with_policy_hash h) (enforce_permit2_allowance X p c u t s am e))"
  "refuses (x402_parse X h x)" "refuses (permit2_parse X h p2 am)"
  by (auto simp: refuses_def result_simps intro!: refusal_with_hash dest: refusals)

lemma cex_shaped:
  "well_shaped (fst (handle_sign_kucoin X cfg inp req identity st))"
  "well_shaped (fst (handle_sign_binance X cfg inp req identity st))"
  "well_shaped (fst (handle_sign_bybit X cfg inp req identity st))"
  "well_shaped (fst (handle_sign_okx X cfg inp req identity st))"
  "well_shaped (fst (handle_sign_binance_request X cfg inp req identity st))"
  by (auto simp: cex_handler_defs well_shaped_simps answers_simps refuses_gates Let_def
      intro!: with_blob_shaped split: option.split)

lemma order_shape_shaped:
  assumes "\<And>p r. cap p = Err r \<Longrightarrow> refusal r" "\<And>p r led led'. gate p led = (Err r, led') \<Longrightarrow> refusal r"
    and "\<And>h sj. answers (sign h sj)"
  shows "well_shaped (fst (order_shape X cfg inp req identity st cap gate sign))"
  unfolding order_shape_def using assms
  by (auto intro!: with_blob_shaped intent_gated_shaped simp: well_shaped_simps split: sum.split)

lemma order_sign_answers: "answers (order_sign build de ok headers_for code h sj)"
  by (simp add: order_sign_def answers_simps refuses_gates)

lemma structured_shaped:
  "well_shaped (fst (handle_sign_binance_order X cfg inp req identity st))"
  "well_shaped (fst (handle_sign_okx_order X cfg inp req identity st))"
  "well_shaped (fst (handle_sign_binance_cancel X cfg inp req identity st))"
  "well_shaped (fst (handle_sign_okx_cancel X cfg inp req identity st))"
proof -
  note shape = structured_handlers_shape [where X=X and cfg=cfg and inp=inp and identity=identity and st=st and req=req]
  note shaped = order_shape_shaped [OF _ _ order_sign_answers]
  have none: "rq_timestamp_ms req = None \<Longrightarrow> well_shaped (fst (handle_sign_binance_order X cfg inp req identity st))"
    "rq_timestamp_ms req = None \<Longrightarrow> well_shaped (fst (handle_sign_okx_order X cfg inp req identity st))"
    "rq_timestamp_ms req = None \<Longrightarrow> well_shaped (fst (handle_sign_binance_cancel X cfg inp req identity st))"
    "rq_timestamp_ms req = None \<Longrightarrow> well_shaped (fst (handle_sign_okx_cancel X cfg inp req identity st))"
    "rq_order req = None \<Longrightarrow> well_shaped (fst (handle_sign_binance_order X cfg inp req identity st))"
    "rq_order req = None \<Longrightarrow> well_shaped (fst (handle_sign_okx_order X cfg inp req identity st))"
    "rq_cancel req = None \<Longrightarrow> well_shaped (fst (handle_sign_binance_cancel X cfg inp req identity st))"
    "rq_cancel req = None \<Longrightarrow> well_shaped (fst (handle_sign_okx_cancel X cfg inp req identity st))"
    by (auto simp: cex_handler_defs well_shaped_simps split: option.split)
  show "well_shaped (fst (handle_sign_binance_order X cfg inp req identity st))"
    by (cases "rq_timestamp_ms req"; cases "rq_order req") (auto simp: none shape(1) intro!: shaped dest: refusals)
  show "well_shaped (fst (handle_sign_okx_order X cfg inp req identity st))"
    by (cases "rq_timestamp_ms req"; cases "rq_order req") (auto simp: none shape(2) intro!: shaped dest: refusals)
  show "well_shaped (fst (handle_sign_binance_cancel X cfg inp req identity st))"
    by (cases "rq_timestamp_ms req"; cases "rq_cancel req") (auto simp: none shape(3) intro!: shaped dest: refusals)
  show "well_shaped (fst (handle_sign_okx_cancel X cfg inp req identity st))"
    by (cases "rq_timestamp_ms req"; cases "rq_cancel req") (auto simp: none shape(4) intro!: shaped dest: refusals)
qed

lemma evm_shaped:
  "well_shaped (fst (handle_sign_asterdex X cfg inp req identity st))"
  "well_shaped (fst (handle_sign_x402_eip3009 X cfg inp req identity st))"
  "well_shaped (fst (handle_sign_permit2_permit_single X cfg inp req identity st))"
  by (auto simp: evm_handler_defs well_shaped_simps answers_simps refuses_gates refuses_caps
      intro!: with_blob_shaped split: option.split sum.split)

lemma hl_shaped: "well_shaped (fst (validated valid (sign_hyperliquid_source src X cfg inp) req identity st))"
proof (cases "load_hyperliquid_request X cfg inp req identity st")
  case (Pair r st')
  moreover have "well_shaped e" if "r = Err e" for e
    using load_hyperliquid_refusal [of X cfg inp req identity st e st'] Pair that by (simp add: well_shaped_def)
  ultimately show ?thesis
    by (cases r) (auto simp: validated_def sign_hyperliquid_source_def well_shaped_simps answers_simps refuses_gates
        split: option.split)
qed

lemma service_shaped:
  "well_shaped (fst (handle_sign_data X cfg inp req identity st))"
  "well_shaped (handle_receipt_heartbeat X req identity st)"
  "well_shaped (fst (handle_verify_blob X cfg inp req identity st))"
proof -
  have "well_shaped r" if "complete_secret h de ok sj = Err r" for h sj r and de :: "json \<Rightarrow> hyperliquid_secret option" and ok
    using complete_secret_refusal [OF that] by (simp add: well_shaped_def)
  then show "well_shaped (fst (handle_sign_data X cfg inp req identity st))"
    by (auto simp: handle_sign_data_def well_shaped_simps answers_simps refuses_gates
        intro!: with_blob_shaped split: option.split sum.split)
  show "well_shaped (handle_receipt_heartbeat X req identity st)"
    by (auto simp: handle_receipt_heartbeat_def well_shaped_simps split: option.split sum.split heartbeat_unavailable.split)
      (simp add: well_shaped_def)
  show "well_shaped (fst (handle_verify_blob X cfg inp req identity st))"
    by (auto simp: handle_verify_blob_def Let_def well_shaped_simps split: option.split sum.split prod.split)
      (simp_all add: well_shaped_def)
qed

lemma dispatch_shaped: "well_shaped (fst (dispatch X cfg inp req identity st))"
proof (cases "map_of (sign_handlers X cfg inp) (rq_action req)")
  case (Some h)
  then have "(rq_action req, h) \<in> set (sign_handlers X cfg inp)"
    by (rule map_of_SomeD)
  then have "well_shaped (fst (h req identity st))"
    unfolding sign_handlers_def hl_handler_defs
    by (auto simp only: list.set insert_iff empty_iff prod.inject fst_conv well_shaped_simps(1) cex_shaped structured_shaped
        evm_shaped hl_shaped service_shaped)
  then show ?thesis
    using Some by (simp add: dispatch_def)
qed (simp add: dispatch_def well_shaped_simps)

end
