(* ===== verification/Sample.thy ===== *)
theory Sample
  imports Dispatch
begin

text \<open>
  A small enclave to evaluate \<open>handle\<close> on: one registered tenant, a strict configuration, and the
  sample system of theory \<^verbatim>\<open>Load\<close>, whose blobs carry a capped and signed policy.  The facts are
  stated for any request of that tenant, so that each example has only its own action to evaluate.
\<close>

definition sample_config :: enclave_config where
  "sample_config = \<lparr>cf_require_policy = Some ''1'', cf_policy_pubkey = Some (replicate 64 (CHR ''0'')), cf_registry_pubkey = None\<rparr>"

definition sample_tenant :: "tenant_mode \<Rightarrow> resolved_identity" where
  "sample_tenant md = \<lparr>ri_customer_id = ''c'', ri_allowed_venues = [''binance'', ''hyperliquid_main'', ''asterdex''], ri_mode = md\<rparr>"

definition sample_state :: "tenant_mode \<Rightarrow> enclave_state" where
  "sample_state md = \<lparr>es_registry_key = ''key'',
     es_registry = \<lparr>rg_entries = [\<lparr>te_token_hmac = fixed_len 32 ''t'', te_customer_id = ''c'',
         te_allowed_venues = [''binance'', ''hyperliquid_main'', ''asterdex''], te_mode = md\<rparr>], rg_version = 1, rg_pending_nonce = None\<rparr>,
     es_limiter = limiter_new 2 1, es_ledger = ledger_new, es_pins = Map.empty, es_dek = dek_new 60 8,
     es_receipts = receipt_state_init ''boot''\<rparr>"

definition sample_request :: "bytes \<Rightarrow> sign_request" where
  "sample_request action = (le_req sample_load)\<lparr>rq_action := action, rq_opaque_token := Some ''t''\<rparr>"

definition sample_order_request :: sign_request where
  "sample_order_request = (sample_request ''sign_binance_order'')\<lparr>rq_order := Some sample_order\<rparr>"

definition sample_hl_request :: sign_request where
  "sample_hl_request = (sample_request ''sign_hyperliquid_main_order'')\<lparr>rq_hl_action := Some sample_hl_action, rq_nonce := Some 5\<rparr>"

text \<open>A request of the tenant: its token, the protocol version, the credentials and the blob.\<close>

definition tenant_request :: "sign_request \<Rightarrow> bool" where
  "tenant_request req \<longleftrightarrow> rq_opaque_token req = Some ''t'' \<and> rq_proto_version req = 1
     \<and> rq_aws_credentials req = Some sample_creds \<and> rq_ciphertext_blob_base64 req = Some ''blob''"

lemma tenant_requests [simp]:
  "tenant_request (sample_request a)" "tenant_request sample_order_request" "tenant_request sample_hl_request"
  by (simp_all add: tenant_request_def sample_request_def sample_order_request_def sample_hl_request_def sample_load_def
      sample_sign_request_def)

lemma sample_actions [simp]:
  "rq_action (sample_request a) = a" "rq_action sample_order_request = ''sign_binance_order''"
  "rq_action sample_hl_request = ''sign_hyperliquid_main_order''"
  by (simp_all add: sample_request_def sample_order_request_def sample_hl_request_def)

lemma sample_resolves:
  assumes "tenant_request req"
  shows "resolve_identity sample_sys (sample_state md) req = Some (sample_tenant md)"
proof -
  have "token_hmac sample_sys ''key'' ''t'' = fixed_len 32 ''t''"
    by (simp add: token_hmac_def sample_sys_def sample_enclave_def sample_ext_def enclave_ext.defs externals.defs kms_ext.defs
        enclave_sys.defs)
  then show ?thesis
    using assms
    by (simp add: tenant_request_def resolve_identity_def sample_state_def resolve_last_entry last_entry_def sample_tenant_def)
qed

lemma sample_rate: "fst (rl_check ''c'' 0 (es_limiter (sample_state md)))"
proof -
  have "f64 2 = 2"
    using f64_exact [of 2] by simp
  then show ?thesis
    by (simp add: sample_state_def rl_check_def rl_spend_def rl_track_def rl_evict_def rl_insert_def limiter_new_def refill_def
        as_secs_f64_def MAX_TRACKED_KEYS_def)
qed

lemma sample_secret:
  assumes "tenant_request req" "venue \<in> {''binance'', ''hyperliquid_main'', ''asterdex''}"
  shows "\<exists>cache. load_secret_for sample_sys sample_draws req (sample_tenant md) venue (dek_new 60 8) = (Ok ''secret'', cache)"
proof -
  have "request_blob sample_sys req = Ok (sample_creds, ''blob'')"
    using assms(1) by (simp add: request_blob_def tenant_request_def MAX_CIPHERTEXT_BYTES_def)
  moreover have "dek_get k n (dek_new 60 8) = (Ok None, dek_new 60 8)" for k n
    by (simp add: dek_get_def dek_new_def dek_enabled_def)
  moreover have "kms_client_decrypt sample_sys sample_creds w (Some (encryption_context (sample_tenant md) venue))
      = Ok (replicate 32 (CHR ''k''))" for w
    using assms(2) by (intro sample_kms_releases) (simp_all add: sample_tenant_def)
  ultimately show ?thesis
    by (simp add: load_secret_for_def sample_load_facts load_envelope_def obtain_dek_def dek_cache_miss_decrypt_def kms_decrypt_def)
qed

lemma sample_plaintext: "from_plaintext sample_sys pt = Some (WithPolicy sample_policy Null)"
  by (simp add: from_plaintext_def sample_sys_def sample_enclave_def sample_ext_def enclave_ext.defs externals.defs kms_ext.defs
      enclave_sys.defs)

lemma sample_floor:
  assumes "venue \<in> {''binance'', ''hyperliquid_main'', ''asterdex''}"
  shows "check_floor sample_sys sample_config (sample_tenant md) venue (WithPolicy sample_policy Null) pins
    = (Ok (Some sample_policy, Null), pins)"
proof -
  have "is_ok (verify_policy_authority sample_sys sample_config sample_policy (ri_customer_id (sample_tenant md)) ''binance'')"
    "is_ok (verify_policy_authority sample_sys sample_config sample_policy (ri_customer_id (sample_tenant md)) ''hyperliquid_main'')"
    "is_ok (verify_policy_authority sample_sys sample_config sample_policy (ri_customer_id (sample_tenant md)) ''asterdex'')"
    by code_simp+
  moreover have "policy_required sample_config" "is_money_venue venue" "\<not> rot3_uncapped_money_key_rejected True venue sample_policy"
    using assms by (auto simp: is_money_venue_def rot3_uncapped_money_key_rejected_def rot3_binding_cap_present_def is_hl_venue_def
        non_empty_def sample_policy_def sample_config_def policy_required_def parse_require_policy_env_def eq_ignore_ascii_case_def)
  ultimately show ?thesis
    using assms by (auto simp: check_floor_def blob_floor_strict_def result_simps)
qed

lemma sample_loads:
  assumes "tenant_request req" "venue_for_action (rq_action req) = Some venue"
    and "venue \<in> {''binance'', ''hyperliquid_main'', ''asterdex''}" "es_dek st = dek_new 60 8"
  shows "\<exists>st'. load_and_parse_blob sample_sys sample_config sample_draws req (sample_tenant md) st
    = (Ok (Some sample_policy, Null), st')"
proof -
  obtain cache where secret: "load_secret_for sample_sys sample_draws req (sample_tenant md) venue (es_dek st) = (Ok ''secret'', cache)"
    using sample_secret [OF assms(1,3)] assms(4) by auto
  have "authorize_venue (sample_tenant md) venue = Ok ()"
    using assms(3) by (auto simp: authorize_venue_def venue_allowed_def sample_tenant_def)
  then show ?thesis
    using secret assms(2) sample_floor [OF assms(3)] by (simp add: load_and_parse_blob_def sample_plaintext)
qed

definition sample_granted :: "tenant_mode \<Rightarrow> enclave_state" where
  "sample_granted md = rate_charged (sample_tenant md) sample_draws (sample_state md)"

lemma sample_granted_dek [simp]: "es_dek (sample_granted md) = dek_new 60 8"
  by (simp add: sample_granted_def rate_charged_def sample_state_def)

lemma sample_opens:
  assumes "tenant_request req" "venue_for_action (rq_action req) = Some venue" "venue \<in> {''binance'', ''hyperliquid_main'', ''asterdex''}"
  shows "fst (load_and_parse_blob sample_sys sample_config sample_draws req (sample_tenant md)
    (rate_charged (sample_tenant md) sample_draws (sample_state md))) = Ok (Some sample_policy, Null)"
  using sample_loads [OF assms sample_granted_dek, of md md] unfolding sample_granted_def by auto

lemma sample_handle:
  assumes "tenant_request req" "rq_action req \<notin> set TENANTLESS_ACTIONS"
  shows "handle sample_sys sample_config sample_draws req (sample_state md)
    = Some (decide sample_sys sample_config sample_draws req (sample_tenant md) (sample_granted md))"
  using assms sample_rate [of md] handle_tenant_granted [OF sample_resolves [OF assms(1), of md]]
  by (simp add: handle_tenantful tenant_request_def REQUIRED_PROTO_VERSION_def sample_tenant_def sample_draws_def sample_granted_def rate_charged_def)

lemma sample_signed:
  assumes "tenant_request req" "rq_action req \<notin> set TENANTLESS_ACTIONS"
    and "carries_signature (fst (dispatch sample_sys sample_config sample_draws req (sample_tenant Active) (sample_granted Active)))"
  obtains resp st' where "handle sample_sys sample_config sample_draws req (sample_state Active) = Some (resp, st')"
    "carries_signature resp"
proof -
  let ?r = "decide sample_sys sample_config sample_draws req (sample_tenant Active) (sample_granted Active)"
  have "carries_signature (fst ?r)"
    using assms(3) by (simp add: decide_eq gated_dispatch_def tenant_mode_gate_def sample_tenant_def)
  then show thesis
    using that sample_handle [OF assms(1,2)] by (metis prod.collapse)
qed

lemma sample_order_signed:
  obtains resp st' where "handle sample_sys sample_config sample_draws sample_order_request (sample_state Active) = Some (resp, st')"
    "carries_signature resp"
proof (rule sample_signed)
  obtain st' where load: "load_and_parse_blob sample_sys sample_config sample_draws sample_order_request (sample_tenant Active)
      (sample_granted Active) = (Ok (Some sample_policy, Null), st')"
    using sample_loads [of sample_order_request "''binance''" "sample_granted Active"] by (auto simp: venue_for_action_def)
  have req: "rq_order sample_order_request = Some sample_order" "rq_timestamp_ms sample_order_request = Some 7"
    by (simp_all add: sample_order_request_def sample_request_def sample_load_def sample_sign_request_def)
  have "is_ok (enforce_policy sample_sys (Some sample_policy) sample_order_request)"
    "is_ok (enforce_order_cap (Some sample_policy) (or_symbol sample_order) (Some (or_qty sample_order)) (or_price sample_order))"
    "is_ok (build_binance_order_query sample_order)" "policy_intent_pubkey (Some sample_policy) = None"
    "is_ok (complete_secret h (de_key_secret sample_sys) key_secret_is_complete Null)" for h
    by code_simp+
  then obtain h u q s where oks: "enforce_policy sample_sys (Some sample_policy) sample_order_request = Ok h"
    "enforce_order_cap (Some sample_policy) (or_symbol sample_order) (Some (or_qty sample_order)) (or_price sample_order) = Ok u"
    "build_binance_order_query sample_order = Ok q" "policy_intent_pubkey (Some sample_policy) = None"
    "complete_secret h (de_key_secret sample_sys) key_secret_is_complete Null = Ok s"
    by (metis is_ok_iff)
  have "rs_headers (fst (handle_sign_binance_order sample_sys sample_config sample_draws sample_order_request
      (sample_tenant Active) (sample_granted Active))) \<noteq> None"
    by (simp add: handle_sign_binance_order_def req with_blob_def load oks intent_gated_def enforce_agent_intent_order_def
        respond_def compute_binance_headers_def sign_binance_def deny_if_err_def ok_headers_under_def rsp_defs)
  then show "carries_signature (fst (dispatch sample_sys sample_config sample_draws sample_order_request (sample_tenant Active)
      (sample_granted Active)))"
    by (simp add: dispatch_def sign_handlers_def carries_signature_def)
qed (simp_all add: TENANTLESS_ACTIONS_def)

lemma sample_hl_signed:
  obtains resp st' where "handle sample_sys sample_config sample_draws sample_hl_request (sample_state Active) = Some (resp, st')"
    "carries_signature resp"
proof (rule sample_signed)
  obtain st' where load: "load_and_parse_blob sample_sys sample_config sample_draws sample_hl_request (sample_tenant Active)
      (sample_granted Active) = (Ok (Some sample_policy, Null), st')"
    using sample_loads [of sample_hl_request "''hyperliquid_main''" "sample_granted Active"] by (auto simp: venue_for_action_def)
  have req: "rq_hl_action sample_hl_request = Some sample_hl_action" "rq_nonce sample_hl_request = Some 5"
    "rq_vault_address sample_hl_request = None"
    by (simp_all add: sample_hl_request_def sample_request_def sample_load_def sample_sign_request_def)
  have "is_ok (enforce_policy sample_sys (Some sample_policy) sample_hl_request)"
    "is_ok (enforce_hl_caps sample_sys (Some sample_policy) sample_hl_action None)" "validate_order_action sample_hl_action"
    by code_simp+
  then obtain h where oks: "enforce_policy sample_sys (Some sample_policy) sample_hl_request = Ok h"
    "enforce_hl_caps sample_sys (Some sample_policy) sample_hl_action None = Ok ()" "validate_order_action sample_hl_action"
    by (auto simp: is_ok_iff)
  obtain s where s: "de_hyperliquid sample_sys Null = Some s"
    by (simp add: sample_sys_def sample_enclave_def sample_ext_def enclave_ext.defs externals.defs kms_ext.defs enclave_sys.defs)
  have "is_ok (complete_secret h (de_hyperliquid sample_sys) hyperliquid_is_complete Null)"
    "is_ok (case de_hyperliquid sample_sys Null of Some s \<Rightarrow> owned_key sample_sys h (hl_private_key s) (hl_wallet_address s))"
    "is_ok (case de_hyperliquid sample_sys Null of Some s \<Rightarrow> try_res (parse_evm_private_key sample_sys (hl_private_key s)) (\<lambda>pk.
       sign_hyperliquid sample_sys pk sample_hl_action 5 None ''a''))"
    by code_simp+
  then obtain ko pk sig where "complete_secret h (de_hyperliquid sample_sys) hyperliquid_is_complete Null = Ok s"
    "owned_key sample_sys h (hl_private_key s) (hl_wallet_address s) = Ok ko"
    "parse_evm_private_key sample_sys (hl_private_key s) = Ok pk"
    "sign_hyperliquid sample_sys pk sample_hl_action 5 None ''a'' = Ok sig"
    unfolding s option.case is_ok_iff complete_secret_Ok try_res_Inr by auto
  then show "carries_signature (fst (dispatch sample_sys sample_config sample_draws sample_hl_request (sample_tenant Active)
      (sample_granted Active)))"
    by (simp add: dispatch_def sign_handlers_def handle_sign_hyperliquid_main_order_def sign_hyperliquid_mainnet_def validated_def
        sign_hyperliquid_source_def load_hyperliquid_request_def req request_vault_def load oks respond_def
        deny_if_err_def carries_signature_def rsp_defs)
qed (simp_all add: TENANTLESS_ACTIONS_def)

end
