(* ===== verification/Enclave_Steps.thy ===== *)
theory Enclave_Steps
  imports Answers Sample
begin

text \<open>
  The state of the enclave process as a transition system.  A step is one critical section of one store, so that steps of
  requests served concurrently may interleave freely; the
  dispatch of \<^verbatim>\<open>enclave/src/handler.rs\<close> only takes the steps \<open>store_step\<close>, and answering a request takes
  the steps \<open>enclave_step\<close>.  What holds of each step holds of every reachable state, by rule
  induction: the stores keep their invariants and their capacity bounds, the registry
  version never decreases, pins are permanent, and the receipt counters of a boot move only by issuing receipts.
\<close>

section \<open>Steps\<close>

inductive store_step :: "'x enclave_sys_scheme \<Rightarrow> enclave_state \<Rightarrow> enclave_state \<Rightarrow> bool" for X where
  get_dek: "store_step X st (st\<lparr>es_dek := snd (dek_get key now (es_dek st))\<rparr>)"
| put_dek: "store_step X st (st\<lparr>es_dek := snd (dek_put key dek now (es_dek st))\<rparr>)"
| pin_key: "store_step X st (st\<lparr>es_pins := snd (verify_and_pin X key pol pk_hex sig_hex (es_pins st))\<rparr>)"
| record_intent: "store_step X st (st\<lparr>es_ledger := snd (record_if_new msg (es_ledger st))\<rparr>)"
| keep_key: "store_step X st (st\<lparr>es_receipts := install_key pk (es_receipts st)\<rparr>)"

text \<open>
  A receipt is numbered under the counter lock with the key read before, and a refresh commits entries that passed the
  check against the nonce it peeked at before: both may be stale when the step is taken.
\<close>

inductive enclave_step :: "'x enclave_sys_scheme \<Rightarrow> enclave_config \<Rightarrow> enclave_state \<Rightarrow> enclave_state \<Rightarrow> bool" for X cfg where
  touch_store: "store_step X st st' \<Longrightarrow> enclave_step X cfg st st'"
| spend_token: "enclave_step X cfg st (st\<lparr>es_limiter := snd (rl_check key now (es_limiter st))\<rparr>)"
| issue_receipt: "enclave_step X cfg st (st\<lparr>es_receipts :=
    (snd (issue_pre X p resp ((es_receipts st)\<lparr>rc_key := read_key\<rparr>)))\<lparr>rc_key := rc_key (es_receipts st)\<rparr>\<rparr>)"
| issue_nonce: "enclave_step X cfg st (st\<lparr>es_registry := snd (challenge X nonce (es_registry st))\<rparr>)"
| commit_registry:
    "refresh_check X (de_refresh_entries X) (cf_registry_pubkey cfg) entries_json nonce_hex version sig_hex peeked = Ok (nonce, entries)
     \<Longrightarrow> enclave_step X cfg st (st\<lparr>es_registry :=
           snd (refresh_commit X (es_registry_key st) nonce entries version (es_registry st))\<rparr>)"

abbreviation store_steps :: "'x enclave_sys_scheme \<Rightarrow> enclave_state \<Rightarrow> enclave_state \<Rightarrow> bool" where
  "store_steps X \<equiv> (store_step X)\<^sup>*\<^sup>*"

abbreviation enclave_steps :: "'x enclave_sys_scheme \<Rightarrow> enclave_config \<Rightarrow> enclave_state \<Rightarrow> enclave_state \<Rightarrow> bool" where
  "enclave_steps X cfg \<equiv> (enclave_step X cfg)\<^sup>*\<^sup>*"


section \<open>Every handler is a sequence of steps\<close>

lemma issue_now: "enclave_step X cfg st (st\<lparr>es_receipts := snd (issue_pre X p resp (es_receipts st))\<rparr>)"
proof -
  have "(snd (issue_pre X p resp r))\<lparr>rc_key := rc_key r\<rparr> = snd (issue_pre X p resp r)" for r
    by (simp add: issue_pre_def Let_def split: option.split)
  then show ?thesis
    using issue_receipt [of X cfg st p resp "rc_key (es_receipts st)"] by simp
qed

lemma refresh_now:
  "enclave_steps X cfg st (st\<lparr>es_registry := snd (refresh X (de_refresh_entries X) (cf_registry_pubkey cfg)
    (es_registry_key st) entries_json nonce_hex version sig_hex (es_registry st))\<rparr>)"
  using r_into_rtranclp [of "enclave_step X cfg", OF commit_registry]
  by (auto simp: refresh_def split: sum.split)

lemma load_secret_steps:
  "store_steps X st (st\<lparr>es_dek := snd (load_secret_for X inp req identity venue (es_dek st))\<rparr>)"
proof (cases "request_blob X req")
  case (Inr cr)
  obtain creds raw where cr: "cr = (creds, raw)"
    by (cases cr)
  have env: "store_steps X st (st\<lparr>es_dek := snd (load_envelope X inp creds raw ctx aad (es_dek st))\<rparr>)" for ctx aad
  proof (cases "\<exists>env w. parse_envelope (de_envelope X) raw = Ok env \<and> b64_decode X (ev_wrapped_dek env) = Some w")
    case True
    then obtain env w where blob: "parse_envelope (de_envelope X) raw = Ok env" "b64_decode X (ev_wrapped_dek env) = Some w"
      by blast
    let ?k = "derive_key (sha256 X) w (Some ctx)"
    let ?st1 = "st\<lparr>es_dek := snd (dek_get ?k (in_now_get inp) (es_dek st))\<rparr>"
    have get: "store_steps X st ?st1"
      by (rule r_into_rtranclp, rule get_dek)
    have put: "store_steps X st (st\<lparr>es_dek := snd (dek_put ?k d (in_now_put inp) (es_dek ?st1))\<rparr>)" for d
      using rtranclp.rtrancl_into_rtrancl [OF get put_dek [of X ?st1 ?k d "in_now_put inp"]] by simp
    show ?thesis
      using blob get put by (simp add: load_envelope_def Let_def split: prod.split sum.split) auto
  next
    case False
    then show ?thesis
      by (cases "parse_envelope (de_envelope X) raw") (auto simp: load_envelope_def split: option.split)
  qed
  show ?thesis
    using env Inr by (simp add: load_secret_for_def cr Let_def)
qed (simp add: load_secret_for_def)

lemma check_floor_steps:
  "store_steps X st (st\<lparr>es_pins := snd (check_floor X cfg identity venue parsed (es_pins st))\<rparr>)"
proof -
  have pin: "store_steps X st (st\<lparr>es_pins := snd (verify_and_pin X key pol pk_hex sig_hex (es_pins st))\<rparr>)" for key pol pk_hex sig_hex
    by (rule r_into_rtranclp, rule pin_key)
  have "store_steps X st (st\<lparr>es_pins := snd (check_tofu X key p (es_pins st))\<rparr>)" for key p
    using pin [of key "canonical_policy_signable X p"]
    by (auto simp: check_tofu_def split: option.split prod.splits sum.split) (metis snd_conv)+
  then show ?thesis
    by (cases parsed) (auto simp: check_floor_def Let_def split: prod.splits sum.splits, (metis snd_conv)+)
qed

lemma load_steps: "store_steps X st (snd (load_and_parse_blob X cfg inp req identity st))"
proof (cases "venue_for_action (rq_action req)")
  case (Some venue)
  obtain r cache where secret: "load_secret_for X inp req identity venue (es_dek st) = (r, cache)"
    by fastforce
  have cache: "store_steps X st (st\<lparr>es_dek := cache\<rparr>)"
    using load_secret_steps [of X st inp req identity venue] secret by simp
  have "store_steps X st (st\<lparr>es_dek := cache, es_pins := snd (check_floor X cfg identity venue parsed (es_pins st))\<rparr>)" for parsed
    using rtranclp_trans [OF cache check_floor_steps [of X "st\<lparr>es_dek := cache\<rparr>" cfg identity venue parsed]] by simp
  then show ?thesis
    using cache by (simp add: load_and_parse_blob_def Some secret split: sum.split option.split prod.split)
      (auto, metis snd_conv)
qed (simp add: load_and_parse_blob_def)

lemma with_blob_steps:
  assumes "\<And>policy sj h st1. store_steps X st1 (snd (k policy sj h st1))"
  shows "store_steps X st (snd (with_blob X cfg inp req identity st k))"
  using load_steps [of X st cfg inp req identity] assms rtranclp_trans
  by (fastforce simp: with_blob_def split: prod.split sum.split)

lemma intent_gated_steps:
  assumes "\<And>st1. store_steps X st1 (snd (k st1))" "\<And>led. snd (gate led) = led \<or> (\<exists>msg. snd (gate led) = snd (record_if_new msg led))"
  shows "store_steps X st (snd (intent_gated h gate st k))"
proof -
  have "store_steps X st (st\<lparr>es_ledger := snd (gate (es_ledger st))\<rparr>)"
    using assms(2) [of "es_ledger st"] record_intent [of X st] by (elim disjE exE) auto
  then show ?thesis
    using assms(1) rtranclp_trans by (fastforce simp: intent_gated_def split: prod.split sum.split)
qed

lemma intent_ledger_steps:
  "snd (enforce_agent_intent_order X policy identity v a ts ord req led) = led
    \<or> (\<exists>msg. snd (enforce_agent_intent_order X policy identity v a ts ord req led) = snd (record_if_new msg led))"
  "snd (enforce_agent_intent_cancel X policy identity v a ts cn req led) = led
    \<or> (\<exists>msg. snd (enforce_agent_intent_cancel X policy identity v a ts cn req led) = snd (record_if_new msg led))"
proof -
  have "snd (verify_agent_intent X pk sig m led) = led
    \<or> (\<exists>msg. snd (verify_agent_intent X pk sig m led) = snd (record_if_new msg led))" for pk sig m
    by (cases "record_if_new (ledger_key X m) led") (auto simp: verify_agent_intent_def split: option.split bool.split, (metis snd_conv)+)
  then show "snd (enforce_agent_intent_order X policy identity v a ts ord req led) = led
    \<or> (\<exists>msg. snd (enforce_agent_intent_order X policy identity v a ts ord req led) = snd (record_if_new msg led))"
    "snd (enforce_agent_intent_cancel X policy identity v a ts cn req led) = led
    \<or> (\<exists>msg. snd (enforce_agent_intent_cancel X policy identity v a ts cn req led) = snd (record_if_new msg led))"
    by (auto simp: enforce_agent_intent_order_def enforce_agent_intent_cancel_def split: option.split)
qed

lemma cex_steps:
  "store_steps X st (snd (handle_sign_kucoin X cfg inp req identity st))"
  "store_steps X st (snd (handle_sign_binance X cfg inp req identity st))"
  "store_steps X st (snd (handle_sign_bybit X cfg inp req identity st))"
  "store_steps X st (snd (handle_sign_okx X cfg inp req identity st))"
  "store_steps X st (snd (handle_sign_binance_request X cfg inp req identity st))"
  "store_steps X st (snd (handle_sign_binance_order X cfg inp req identity st))"
  "store_steps X st (snd (handle_sign_okx_order X cfg inp req identity st))"
  "store_steps X st (snd (handle_sign_binance_cancel X cfg inp req identity st))"
  "store_steps X st (snd (handle_sign_okx_cancel X cfg inp req identity st))"
  by (auto simp: cex_handler_defs Let_def intro!: with_blob_steps intent_gated_steps intent_ledger_steps
      split: option.split sum.split)

lemma evm_steps:
  "store_steps X st (snd (handle_sign_asterdex X cfg inp req identity st))"
  "store_steps X st (snd (handle_sign_x402_eip3009 X cfg inp req identity st))"
  "store_steps X st (snd (handle_sign_permit2_permit_single X cfg inp req identity st))"
  "store_steps X st (snd (validated valid (sign_hyperliquid_source src X cfg inp) req identity st))"
proof -
  show "store_steps X st (snd (handle_sign_asterdex X cfg inp req identity st))"
    "store_steps X st (snd (handle_sign_x402_eip3009 X cfg inp req identity st))"
    "store_steps X st (snd (handle_sign_permit2_permit_single X cfg inp req identity st))"
    by (auto simp: evm_handler_defs intro!: with_blob_steps split: option.split sum.split)
  have "store_steps X st (snd (load_hyperliquid_request X cfg inp req identity st))"
    using load_steps [of X st cfg inp req identity]
    by (auto simp: load_hyperliquid_request_def split: option.split sum.split prod.split)
  then show "store_steps X st (snd (validated valid (sign_hyperliquid_source src X cfg inp) req identity st))"
    by (auto simp: validated_def sign_hyperliquid_source_def split: option.split sum.split prod.split)
qed

lemma service_steps:
  "store_steps X st (snd (handle_sign_data X cfg inp req identity st))"
  "store_steps X st (snd (handle_verify_blob X cfg inp req identity st))"
proof -
  have "store_steps X s (s\<lparr>es_receipts := install_key pk (es_receipts s)\<rparr>)" for s pk
    by (rule r_into_rtranclp, rule keep_key)
  then show "store_steps X st (snd (handle_sign_data X cfg inp req identity st))"
    by (auto simp: handle_sign_data_def intro!: with_blob_steps split: option.split sum.split)
  have "store_steps X st (st\<lparr>es_dek := cache\<rparr>)" if "load_secret_for X inp req identity venue (es_dek st) = (r, cache)" for venue r cache
    using load_secret_steps [of X st inp req identity venue] that by simp
  then show "store_steps X st (snd (handle_verify_blob X cfg inp req identity st))"
    by (auto simp: handle_verify_blob_def Let_def split: option.split sum.split prod.split)
qed

lemma dispatch_steps: "store_steps X st (snd (dispatch X cfg inp req identity st))"
proof (cases "map_of (sign_handlers X cfg inp) (rq_action req)")
  case (Some h)
  then have "(rq_action req, h) \<in> set (sign_handlers X cfg inp)"
    by (rule map_of_SomeD)
  then have "store_steps X st (snd (h req identity st))"
    unfolding sign_handlers_def hl_handler_defs
    by (auto simp only: list.set insert_iff empty_iff prod.inject snd_conv cex_steps evm_steps service_steps rtranclp.rtrancl_refl)
  then show ?thesis
    using Some by (simp add: dispatch_def)
qed (simp add: dispatch_def)

lemma gated_steps: "store_steps X st (snd (gated_dispatch X cfg inp req identity st))"
  by (simp add: gated_dispatch_def dispatch_steps split: sum.split)

lemma handle_tenant_steps: "enclave_steps X cfg st (snd (handle_tenant X cfg inp req st))"
proof -
  have stores: "enclave_steps X cfg s s'" if "store_steps X s s'" for s s'
    using mono_rtranclp [of "store_step X" "enclave_step X cfg"] touch_store that by blast
  have "enclave_steps X cfg s (snd (decide X cfg inp req identity s))" for s identity
  proof -
    let ?g = "gated_dispatch X cfg inp req identity s"
    have "snd (attach X p resp r) = snd (issue_pre X p resp r)" for p resp r
      by (simp add: attach_def split: prod.split option.split)
    then show ?thesis
      unfolding decide_eq(2)
      using rtranclp.rtrancl_into_rtrancl [OF stores [OF gated_steps] issue_now] by simp
  qed
  then have "enclave_steps X cfg st (snd (decide X cfg inp req identity (st\<lparr>es_limiter := snd (rl_check key now (es_limiter st))\<rparr>)))"
    for identity key now
    by (rule converse_rtranclp_into_rtranclp [of "enclave_step X cfg", OF spend_token])
  then show ?thesis
    using spend_token [of X cfg st]
    by (auto simp: handle_tenant_def Let_def split: prod.split option.split) (metis r_into_rtranclp snd_conv)+
qed

lemma handle_steps:
  assumes "handle X cfg inp req st = Some (resp, st')"
  shows "enclave_steps X cfg st st'"
proof -
  have "enclave_steps X cfg st (snd (handle_registry_challenge X inp st))"
    using r_into_rtranclp [of "enclave_step X cfg", OF issue_nonce [of X cfg st "in_registry_nonce inp"]]
    by (auto simp: handle_registry_challenge_def split: prod.splits)
  moreover have "enclave_steps X cfg st (snd (handle_registry_refresh X cfg req st))"
    using refresh_now [of X cfg st]
    by (auto simp: handle_registry_refresh_def split: option.split sum.split prod.splits) (metis snd_conv)+
  ultimately show ?thesis
    using assms handle_tenant_steps [of X cfg st inp req]
    by (auto simp: handle_def split: if_splits)
qed


section \<open>Invariants\<close>

definition enclave_inv :: "enclave_state \<Rightarrow> bool" where
  "enclave_inv st \<longleftrightarrow> ledger_inv (es_ledger st) \<and> dek_inv (es_dek st) \<and> rl_inv (es_limiter st)
     \<and> finite (dom (es_pins st)) \<and> card (dom (es_pins st)) \<le> MAX_PINS \<and> list_all resident_ok (rg_entries (es_registry st))"

definition boot_state :: "bytes \<Rightarrow> bytes \<Rightarrow> nat \<Rightarrow> nat \<Rightarrow> nat \<Rightarrow> nat \<Rightarrow> enclave_state" where
  "boot_state key boot_id capacity rate ttl mx =
     \<lparr>es_registry_key = key, es_registry = registry_empty, es_limiter = limiter_new capacity rate, es_ledger = ledger_new,
      es_pins = Map.empty, es_dek = dek_new ttl mx, es_receipts = receipt_state_init boot_id\<rparr>"

lemma commit_cases:
  assumes "refresh_check X parse pubkey ej nonce_hex v sig_hex pending = Ok (nonce, entries)"
  shows "snd (refresh_commit X key nonce entries v reg) = reg \<or>
   (rg_version reg < v \<and> rg_version (snd (refresh_commit X key nonce entries v reg)) = v
     \<and> list_all resident_ok (rg_entries (snd (refresh_commit X key nonce entries v reg))))"
proof -
  have "list_all entry_ok entries"
    using assms unfolding refresh_check_Ok by blast
  then have "list_all resident_ok (map (install_entry X key) entries)"
    by (simp add: list_all_iff install_entry_ok)
  then show ?thesis
    by (simp add: refresh_commit_def not_le)
qed

lemma store_step_inv: "store_step X st st' \<Longrightarrow> enclave_inv st \<Longrightarrow> enclave_inv st'"
proof (induction rule: store_step.induct)
  case (record_intent st msg)
  then show ?case
    using record_if_new_window(2) [of "es_ledger st" msg, OF _ prod.collapse [symmetric]] by (simp add: enclave_inv_def)
next
  case (pin_key st key pol pk_hex sig_hex)
  then show ?case
    using verify_and_pin_bounded [of "es_pins st"] by (simp add: enclave_inv_def)
qed (simp_all add: enclave_inv_def dek_inv_get dek_inv_put)

lemma enclave_step_inv: "enclave_step X cfg st st' \<Longrightarrow> enclave_inv st \<Longrightarrow> enclave_inv st'"
proof (induction rule: enclave_step.induct)
  case (commit_registry entries_json nonce_hex version sig_hex peeked nonce entries st)
  then show ?case
    using commit_cases [OF commit_registry(1), of "es_registry_key st" "es_registry st"] by (auto simp: enclave_inv_def)
qed (simp_all add: store_step_inv, simp_all add: enclave_inv_def rl_inv_check challenge_def)

lemma handle_inv: "enclave_inv st \<Longrightarrow> handle X cfg inp req st = Some (resp, st') \<Longrightarrow> enclave_inv st'"
  using handle_steps rtranclp_induct [where P = enclave_inv] enclave_step_inv by metis

lemma store_step_receipts:
  assumes "store_steps X st st'"
  shows "seq_next_for (es_receipts st') c = seq_next_for (es_receipts st) c \<and> rc_boot_id (es_receipts st') = rc_boot_id (es_receipts st)"
  using assms by (induction rule: rtranclp_induct) (auto elim!: store_step.cases)

text \<open>What only ever grows: the registry version, which every change of the entries raises, and the pins.\<close>

definition evolves :: "enclave_state \<Rightarrow> enclave_state \<Rightarrow> bool" where
  "evolves st st' \<longleftrightarrow> es_registry_key st' = es_registry_key st \<and> rc_boot_id (es_receipts st') = rc_boot_id (es_receipts st)
     \<and> es_pins st \<subseteq>\<^sub>m es_pins st'
     \<and> (rg_entries (es_registry st') = rg_entries (es_registry st) \<and> rg_version (es_registry st') = rg_version (es_registry st)
        \<or> rg_version (es_registry st) < rg_version (es_registry st'))"

lemma evolves_trans: "evolves a b \<Longrightarrow> evolves b c \<Longrightarrow> evolves a c"
  by (auto simp: evolves_def intro: map_le_trans)

lemma store_step_evolves: "store_step X st st' \<Longrightarrow> evolves st st'"
  by (induction rule: store_step.induct) (auto simp: evolves_def map_le_def verify_and_pin_keeps)

lemma enclave_step_evolves: "enclave_step X cfg st st' \<Longrightarrow> evolves st st'"
proof (induction rule: enclave_step.induct)
  case (issue_receipt st p resp read_key)
  have "rc_boot_id (snd (issue_pre X p resp r)) = rc_boot_id r" for r
    by (simp add: issue_pre_def Let_def split: option.split)
  then show ?case
    by (simp add: evolves_def)
next
  case (commit_registry entries_json nonce_hex version sig_hex peeked nonce entries st)
  then show ?case
    using commit_cases [OF commit_registry(1), of "es_registry_key st" "es_registry st"] by (auto simp: evolves_def)
qed (simp_all add: store_step_evolves, simp_all add: evolves_def challenge_def)

lemma handle_evolves:
  assumes "handle X cfg inp req st = Some (resp, st')"
  shows "evolves st st'"
  using handle_steps [OF assms]
proof (induction rule: rtranclp_induct)
  case (step y z)
  then show ?case
    using evolves_trans enclave_step_evolves by blast
qed (simp add: evolves_def)


section \<open>Properties\<close>

text \<open>
  The states a process can be in: booted, then whole requests answered, with any answers of the KMS tool, or single
  critical sections of requests that are served at the same time.
\<close>

inductive reachable :: "'x enclave_sys_scheme \<Rightarrow> enclave_config \<Rightarrow> enclave_state \<Rightarrow> bool" for X cfg where
  booted: "reachable X cfg (boot_state key boot_id capacity rate ttl mx)"
| served: "reachable X cfg st \<Longrightarrow> handle (X\<lparr>kmstool := kms\<rparr>) cfg inp req st = Some (resp, st') \<Longrightarrow> reachable X cfg st'"
| interleaved: "reachable X cfg st \<Longrightarrow> enclave_step (X\<lparr>kmstool := kms\<rparr>) cfg st st' \<Longrightarrow> reachable X cfg st'"

text \<open>
  C6: In every state that requests can reach, whether answered one after the other or with their critical sections
  interleaved, each store is consistent and within its
  capacity: the replay ledger, the data-key cache, the rate limiter with its recently evicted
  keys, the pins; and every resident tenant entry has safe ids and grants no reserved venue
  to another tenant.  Answering one more request, and each critical section of a request, keeps these bounds, keeps the boot
  secret and the boot id, keeps every pin, and never lowers the registry version, which rises whenever the entries change.
\<close>

theorem reachable_states:
  assumes "reachable X cfg st"
  shows "enclave_inv st
    \<and> (\<forall>kms inp req resp st'. handle (X\<lparr>kmstool := kms\<rparr>) cfg inp req st = Some (resp, st') \<longrightarrow> enclave_inv st' \<and> evolves st st')
    \<and> (\<forall>kms st'. enclave_step (X\<lparr>kmstool := kms\<rparr>) cfg st st' \<longrightarrow> enclave_inv st' \<and> evolves st st')"
proof -
  have inv: "enclave_inv st"
    using assms
  proof (induction rule: reachable.induct)
    case (booted key boot_id capacity rate ttl mx)
    then show ?case
      by (simp add: enclave_inv_def boot_state_def registry_empty_def)
  qed (erule (1) handle_inv, erule (1) enclave_step_inv [rotated])
  show ?thesis
    using inv handle_inv [OF inv] handle_evolves enclave_step_inv [OF _ inv] enclave_step_evolves by blast
qed

theorem reachable_states_witness:
  "\<exists>st. handle sample_sys sample_config (sample_draws\<lparr>in_registry_nonce := ''n''\<rparr>) (sample_request ''registry_challenge'')
       (boot_state ''key'' ''boot'' 2 1 60 8) = Some (rsp_ok (hex_encode sample_sys ''n''), st)
     \<and> enclave_inv st \<and> evolves (boot_state ''key'' ''boot'' 2 1 60 8) st"
proof -
  have kms: "sample_sys\<lparr>kmstool := sample_kmstool\<rparr> = sample_sys"
    by (simp add: sample_sys_def kms_ext.defs enclave_ext.defs)
  have "handle sample_sys sample_config (sample_draws\<lparr>in_registry_nonce := ''n''\<rparr>) (sample_request ''registry_challenge'') st
      = Some (rsp_ok (hex_encode sample_sys ''n''), st\<lparr>es_registry := (es_registry st)\<lparr>rg_pending_nonce := Some ''n''\<rparr>\<rparr>)" for st
    by (simp add: handle_def handle_registry_challenge_def challenge_def)
  then show ?thesis
    using reachable_states [where X = sample_sys and cfg = sample_config, OF booted] kms by metis
qed

end
