(* ===== verification/Answer_Truth.thy ===== *)
theory Answer_Truth
  imports Enclave_Steps
begin

text \<open>
  What the answers of \<open>handle\<close> tell: every answer is a success or an error with one of the fixed
  codes, a request is always answered, and a decision receipt says what was decided, for
  whom, about which request, under the next number of that customer.
\<close>

section \<open>The answers of the whole entry point\<close>

lemma tenantless_shaped:
  "well_shaped (fst (handle_registry_challenge X inp st))" "well_shaped (fst (handle_registry_refresh X cfg req st))"
  "well_shaped (handle_attestation X req st)"
  "handle_provision_data_key X inp req = Some resp \<Longrightarrow> well_shaped resp"
  "handle_provision_agent_key X cfg inp req = Some resp \<Longrightarrow> well_shaped resp"
proof -
  have ok: "well_shaped (rsp_ok c)" "well_shaped (rsp_ok_attestation d)" "well_shaped (rsp_ok_provision pv)" for c d pv
    by (simp_all add: well_shaped_def rsp_defs)
  note shaped = ok well_shaped_simps(1)
  show "well_shaped (fst (handle_registry_challenge X inp st))" "well_shaped (fst (handle_registry_refresh X cfg req st))"
    "well_shaped (handle_attestation X req st)"
    by (auto simp: handle_registry_challenge_def handle_registry_refresh_def handle_attestation_def shaped
        split: option.split prod.split sum.split)
  have seal: "well_shaped (seal_new_key X inp creds key_id identity venue plaintext_of pk)" for creds key_id identity venue plaintext_of pk
    by (auto simp: seal_new_key_def Let_def shaped split: option.split prod.split sum.split gen_key_error.split)
  show "handle_provision_data_key X inp req = Some resp \<Longrightarrow> well_shaped resp"
    "handle_provision_agent_key X cfg inp req = Some resp \<Longrightarrow> well_shaped resp"
    by (auto simp: handle_provision_data_key_def handle_provision_agent_key_def seal shaped
        split: option.splits if_splits sum.splits)
qed

lemma gated_shaped: "well_shaped (fst (gated_dispatch X cfg inp req identity st))"
  by (auto simp: gated_dispatch_def tenant_mode_gate_def dispatch_shaped well_shaped_simps
      split: sum.split tenant_mode.split if_splits)

lemma attach_shape:
  "rs_receipt resp = None \<Longrightarrow> fst (attach X p resp st) = resp\<lparr>rs_receipt := fst (issue_pre X p resp st)\<rparr>"
  by (auto simp: attach_def split: prod.split option.split)

lemma decide_answer:
  "fst (decide X cfg inp req identity st) = (fst (gated_dispatch X cfg inp req identity st))\<lparr>rs_receipt :=
     fst (issue_pre X (capture X identity req) (fst (gated_dispatch X cfg inp req identity st))
       (es_receipts (snd (gated_dispatch X cfg inp req identity st))))\<rparr>"
  using gated_shaped [of X cfg inp req identity st] by (simp add: decide_eq attach_shape well_shaped_def)

lemma handle_answer:
  assumes "handle X cfg inp req st = Some (resp, st')"
  obtains x r where "well_shaped x" "resp = x\<lparr>rs_receipt := r\<rparr>"
proof -
  have self: "x = x\<lparr>rs_receipt := None\<rparr>" if "well_shaped x" for x
    using that by (simp add: well_shaped_def)
  have ping: "well_shaped (rsp_ok c)" for c
    by (simp add: well_shaped_def)
  show thesis
  proof (cases "rq_action req \<in> set TENANTLESS_ACTIONS")
    case True
    then have "well_shaped resp"
      using assms tenantless_shaped(1) [of X inp st] tenantless_shaped(2) [of X cfg req st] 
      by (auto simp: TENANTLESS_ACTIONS_def handle_def ping intro: tenantless_shaped)
    then show thesis
      using that self by blast
  next
    case False
    then have resp: "resp = fst (handle_tenant X cfg inp req st)"
      using assms by (simp add: handle_tenantful)
    have "well_shaped resp \<or> (\<exists>identity st1. resp = fst (decide X cfg inp req identity st1))"
      unfolding resp by (auto simp: handle_tenant_def Let_def well_shaped_simps split: prod.split option.split)
    then show thesis
      using that self gated_shaped decide_answer by metis
  qed
qed


lemma issue_pre_draft:
  assumes "issue_pre X p resp st = (Some r, st')"
  shows "dr_decision r = (case rs_error resp of None \<Rightarrow> ''allow'' | Some _ \<Rightarrow> ''deny'')"
    "dr_reason_code r = (case rs_error resp of None \<Rightarrow> ''ok'' | Some code \<Rightarrow> code)"
    "dr_policy_hash r = (case rs_policy_hash resp of None \<Rightarrow> [] | Some h \<Rightarrow> h)"
    "dr_action r = pre_action p" "dr_request_hash r = pre_request_hash p" "is_receipted_action (pre_action p)"
  using assms by (auto simp: issue_pre_def draft_receipt_def Let_def split: if_splits option.splits)

lemma handle_receipted:
  assumes "handle X cfg inp req st = Some (resp, st')" "rs_receipt resp = Some r"
  obtains identity lim where "resolve_identity X st req = Some identity"
    "decide X cfg inp req identity (st\<lparr>es_limiter := lim\<rparr>) = (resp, st')"
proof (cases "rq_action req \<in> set TENANTLESS_ACTIONS")
  case True
  then have "well_shaped resp"
    using assms(1) tenantless_shaped(1) [of X inp st] tenantless_shaped(2) [of X cfg req st]
    by (auto simp: TENANTLESS_ACTIONS_def handle_def well_shaped_def [of "rsp_ok c" for c] intro: tenantless_shaped)
  then show thesis
    using assms(2) by (simp add: well_shaped_def)
next
  case False
  then show thesis
    using assms that
    by (auto simp: handle_tenantful handle_tenant_def Let_def split: if_splits prod.splits option.splits)
qed


section \<open>Properties\<close>

text \<open>
  C7: An error answer is nothing but the error.  Whatever the request and the state, an answer
  with an error consists of one of the fixed error codes, the policy hash and the receipt: every field
  that could carry a signature, a sealed key, a digest of a plaintext, an attestation document
  or a heartbeat is empty.
\<close>

theorem answer_shape:
  assumes "handle X cfg inp req st = Some (resp, st')" "rs_error resp \<noteq> None"
  shows "\<exists>code h r. resp = (rsp_err code)\<lparr>rs_policy_hash := h, rs_receipt := r\<rparr>"
  using assms(1)
proof (rule handle_answer)
  fix x r
  assume "well_shaped x" "resp = x\<lparr>rs_receipt := r\<rparr>"
  then show ?thesis
    using assms(2) by (auto simp: well_shaped_def refusal_def with_policy_hash_def)
qed

theorem answer_shape_witness:
  "\<exists>resp st' code h r. handle sample_sys sample_config sample_draws sample_order_request (sample_state Halted) = Some (resp, st')
     \<and> resp = (rsp_err code)\<lparr>rs_policy_hash := h, rs_receipt := r\<rparr>"
proof -
  let ?r = "decide sample_sys sample_config sample_draws sample_order_request (sample_tenant Halted) (sample_granted Halted)"
  have h: "handle sample_sys sample_config sample_draws sample_order_request (sample_state Halted) = Some (fst ?r, snd ?r)"
    using sample_handle [of sample_order_request Halted] by (simp add: TENANTLESS_ACTIONS_def)
  have "rs_error (fst ?r) \<noteq> None"
    by (simp add: decide_eq gated_dispatch_def tenant_mode_gate_def sample_tenant_def OBSERVING_ACTIONS_def rsp_defs)
  from answer_shape [OF h this] h show ?thesis
    by metis
qed

text \<open>Only key generation may draw again: \<open>handle\<close> is defined as soon as one of the random draws is a valid key.\<close>

lemma handle_returns:
  assumes "list_ex (secp_key_ok X) (in_key_draws inp)"
  shows "\<exists>resp st'. handle X cfg inp req st = Some (resp, st')"
proof -
  obtain pk where pk: "generate_secp256k1_private_key X (in_key_draws inp) = Some pk"
    using assms by (cases "generate_secp256k1_private_key X (in_key_draws inp)")
      (auto simp: generate_secp256k1_private_key_def find_None_iff list_ex_iff)
  have "handle_provision_data_key X inp req \<noteq> None" "handle_provision_agent_key X cfg inp req \<noteq> None"
    by (auto simp: handle_provision_data_key_def handle_provision_agent_key_def pk split: option.splits sum.splits)
  then have "handle X cfg inp req st \<noteq> None"
    by (auto simp: handle_def)
  then show ?thesis
    by (metis not_None_eq prod.collapse)
qed

text \<open>
  C5: A decision receipt is truthful.  Whenever an answer carries a receipt, the receipt names the
  customer behind the token, the action and the hash of this very request; it says \<^verbatim>\<open>allow\<close> exactly when
  the answer has no error, and \<^verbatim>\<open>deny\<close> with the answer's error code otherwise, and then nothing was signed; it
  carries the policy hash of the answer; and it is numbered by the customer's counter, which advances by one while
  every other customer's counter stays.
\<close>

theorem receipt_truthful:
  assumes "handle X cfg inp req st = Some (resp, st')" "rs_receipt resp = Some r"
  shows "\<exists>identity. resolve_identity X st req = Some identity \<and> dr_customer_id r = ri_customer_id identity
    \<and> dr_action r = rq_action req \<and> dr_request_hash r = hex_encode X (sha256 X (request_preimage X req))
    \<and> (case rs_error resp of
         None \<Rightarrow> dr_decision r = ''allow'' \<and> dr_reason_code r = ''ok''
       | Some code \<Rightarrow> dr_decision r = ''deny'' \<and> dr_reason_code r = code \<and> \<not> carries_signature resp)
    \<and> dr_policy_hash r = (case rs_policy_hash resp of None \<Rightarrow> [] | Some h \<Rightarrow> h)
    \<and> dr_seq r = show_nat (unat (seq_next_for (es_receipts st) (ri_customer_id identity)))
    \<and> (\<forall>c. seq_next_for (es_receipts st') c = seq_next_for (es_receipts st) c + (if c = ri_customer_id identity then 1 else 0))"
proof -
  obtain identity lim where id: "resolve_identity X st req = Some identity"
    "decide X cfg inp req identity (st\<lparr>es_limiter := lim\<rparr>) = (resp, st')"
    by (rule handle_receipted [OF assms])
  define st1 where "st1 = st\<lparr>es_limiter := lim\<rparr>"
  define g where "g = gated_dispatch X cfg inp req identity st1"
  define p where "p = capture X identity req"
  have shaped: "well_shaped (fst g)"
    unfolding g_def by (rule gated_shaped)
  have resp: "resp = (fst g)\<lparr>rs_receipt := Some r\<rparr>" and issued: "fst (issue_pre X p (fst g) (es_receipts (snd g))) = Some r"
    using decide_answer [of X cfg inp req identity st1] assms(2) id(2) by (auto simp: g_def p_def st1_def)
  obtain rc where issue: "issue_pre X p (fst g) (es_receipts (snd g)) = (Some r, rc)"
    using issued by (metis prod.collapse)
  have rc: "es_receipts st' = rc"
    using id(2) issue decide_eq(2) [of X cfg inp req identity st1] by (simp add: g_def p_def attach_def st1_def)
  have seq: "seq_next_for (es_receipts (snd g)) c = seq_next_for (es_receipts st) c" for c
    using store_step_receipts [OF gated_steps [of X st1 cfg inp req identity], of c] by (simp add: g_def st1_def)
  have "case rs_error resp of
         None \<Rightarrow> dr_decision r = ''allow'' \<and> dr_reason_code r = ''ok''
       | Some code \<Rightarrow> dr_decision r = ''deny'' \<and> dr_reason_code r = code \<and> \<not> carries_signature resp"
    using issue_pre_draft [OF issue] shaped refusal_no_signature [of "fst g"]
    by (auto simp: resp well_shaped_def carries_signature_def split: option.split)
  then show ?thesis
    using id(1) issue_pre_draft [OF issue] issue_pre_Some(1-3) [OF issue] rc seq
    by (simp add: resp p_def capture_def request_digest_v1_def)
qed

text \<open>A halted tenant's order, with a receipt key resident: the receipt records the refusal.\<close>

definition sample_audited :: enclave_state where
  "sample_audited = (sample_state Halted)\<lparr>es_receipts := install_key (replicate 32 (CHR ''k'')) (receipt_state_init ''boot'')\<rparr>"

lemma sample_receipt_signs: "sign_receipt sample_sys (replicate 32 (CHR ''k'')) r \<noteq> None"
  by (simp add: sign_receipt_def signing_payload_def canonical_v1_spec receipt_value_def sign_eip712_digest_def sample_sys_def
      sample_enclave_def sample_ext_def enclave_ext.defs externals.defs kms_ext.defs enclave_sys.defs)

theorem receipt_truthful_witness:
  "\<exists>resp st' r. handle sample_sys sample_config sample_draws sample_order_request sample_audited = Some (resp, st')
     \<and> rs_receipt resp = Some r \<and> dr_customer_id r = ''c'' \<and> dr_decision r = ''deny'' \<and> dr_seq r = ''0''
     \<and> seq_next_for (es_receipts st') ''c'' = 1"
proof -
  let ?d = "decide sample_sys sample_config sample_draws sample_order_request (sample_tenant Halted)
    (sample_audited\<lparr>es_limiter := snd (rl_check ''c'' 0 (es_limiter sample_audited))\<rparr>)"
  have same: "resolve_identity sample_sys sample_audited req = resolve_identity sample_sys (sample_state Halted) req"
    "es_limiter sample_audited = es_limiter (sample_state Halted)" for req
    by (simp_all add: sample_audited_def resolve_identity_def)
  have resolved: "resolve_identity sample_sys sample_audited sample_order_request = Some (sample_tenant Halted)"
    unfolding same by (rule sample_resolves) simp
  have version: "REQUIRED_PROTO_VERSION \<le> rq_proto_version sample_order_request"
    using tenant_requests(2) by (simp add: tenant_request_def REQUIRED_PROTO_VERSION_def)
  have h: "handle sample_sys sample_config sample_draws sample_order_request sample_audited = Some (fst ?d, snd ?d)"
    using handle_tenant_granted [OF resolved version, of sample_draws sample_config] sample_rate [of Halted]
    by (simp add: handle_tenantful TENANTLESS_ACTIONS_def same sample_tenant_def sample_draws_def)
  have gate: "gated_dispatch sample_sys sample_config sample_draws sample_order_request (sample_tenant Halted) st
      = (rsp_err MODE_HALTED, st)" for st
    by (simp add: gated_dispatch_def tenant_mode_gate_def sample_tenant_def OBSERVING_ACTIONS_def)
  have "fst (issue_pre sample_sys (capture sample_sys (sample_tenant Halted) sample_order_request) (rsp_err MODE_HALTED)
      (install_key (replicate 32 (CHR ''k'')) (receipt_state_init ''boot''))) \<noteq> None"
    using sample_receipt_signs
    by (auto simp: issue_pre_def Let_def capture_def is_receipted_action_def install_key_def receipt_state_init_def
        split: option.split)
  then obtain r where r: "rs_receipt (fst ?d) = Some r"
    unfolding decide_answer gate by (auto simp: sample_audited_def)
  have "rs_error (fst ?d) = Some (err_str MODE_HALTED)"
    unfolding decide_answer gate by (simp add: rsp_defs)
  moreover have "seq_next_for (es_receipts sample_audited) c = 0" for c
    by (simp add: sample_audited_def seq_next_for_def receipt_state_init_def install_key_def)
  moreover have "show_nat 0 = ''0''"
    by code_simp
  ultimately show ?thesis
    using receipt_truthful [OF h r] h r resolved
    by (auto simp: sample_tenant_def intro!: exI [of _ "fst ?d"] exI [of _ "snd ?d"] exI [of _ r])
qed

end
