(* ===== verification/Gaps.thy ===== *)
theory Gaps
  imports Sample
begin

text \<open>
  Two places where the enclave does less than its comments promise.  The kill switch judges a generic
  request by the HTTP method the caller declares, which Asterdex does not sign; and the
  blob pre-flight applies a weaker policy floor than the sign path.
\<close>

section \<open>The method of a generic request\<close>

lemma method_irrelevant:
  "rq_action (req\<lparr>rq_method := m\<rparr>) = rq_action req" "rq_path (req\<lparr>rq_method := m\<rparr>) = rq_path req"
  "rq_aws_credentials (req\<lparr>rq_method := m\<rparr>) = rq_aws_credentials req" "rq_body (req\<lparr>rq_method := m\<rparr>) = rq_body req"
  "rq_ciphertext_blob_base64 (req\<lparr>rq_method := m\<rparr>) = rq_ciphertext_blob_base64 req"
  "ri_customer_id (identity\<lparr>ri_mode := md\<rparr>) = ri_customer_id identity"
  "ri_allowed_venues (identity\<lparr>ri_mode := md\<rparr>) = ri_allowed_venues identity"
  by simp_all

lemma load_ignores:
  "load_and_parse_blob X cfg inp (req\<lparr>rq_method := m\<rparr>) (identity\<lparr>ri_mode := md\<rparr>) st = load_and_parse_blob X cfg inp req identity st"
  unfolding load_and_parse_blob_def load_secret_for_def request_blob_def encryption_context_def sealed_aad_def check_floor_def
    tofu_key_def authorize_venue_def venue_allowed_def method_irrelevant by (rule refl)

lemma enforce_policy_ignores_method:
  assumes "\<And>p. policy = Some p \<Longrightarrow> pl_allowed_methods p = None"
  shows "enforce_policy X policy (req\<lparr>rq_method := m\<rparr>) = enforce_policy X policy req"
proof -
  have "method_refused p r = False" if "policy = Some p" for p r
    using assms [OF that] by (simp add: method_refused_def)
  then show ?thesis
    unfolding enforce_policy_def enforce_policy_inner_def action_refused_def intent_on_hl_def path_not_allowed_def path_denied_def
      method_irrelevant
    by (cases policy) simp_all
qed

lemma asterdex_ignores_method:
  assumes "m \<in> set ALLOWED_METHODS" "m' \<in> set ALLOWED_METHODS"
    and "\<And>p sj st'. load_and_parse_blob X cfg inp req identity st = (Ok (Some p, sj), st') \<Longrightarrow> pl_allowed_methods p = None"
  shows "handle_sign_asterdex X cfg inp (req\<lparr>rq_method := Some m\<rparr>) (identity\<lparr>ri_mode := md\<rparr>) st
    = handle_sign_asterdex X cfg inp (req\<lparr>rq_method := Some m'\<rparr>) (identity\<lparr>ri_mode := md'\<rparr>) st"
proof -
  have endpoint: "asterdex_endpoint_allowed policy (req\<lparr>rq_method := x\<rparr>) = asterdex_endpoint_allowed policy req" for policy x
    unfolding asterdex_endpoint_allowed_def method_irrelevant by (rule refl)
  have "with_blob X cfg inp (req\<lparr>rq_method := x\<rparr>) (identity\<lparr>ri_mode := mx\<rparr>) st k = with_blob X cfg inp req identity st k" for x mx k
  proof (cases "load_and_parse_blob X cfg inp req identity st")
    case (Pair r st')
    then show ?thesis
      using assms(3) enforce_policy_ignores_method [where X = X and req = req and m = x]
      by (auto simp: with_blob_def load_ignores split: sum.split)
  qed
  then show ?thesis
    using assms(1,2) by (simp add: handle_sign_asterdex_def endpoint split: option.split)
qed

text \<open>
  C9: Cancel-only mode does not stop Asterdex orders.  The signature covers the body but not the HTTP
  method, and the kill switch believes the method the request declares.  So, unless the key's policy lists
  its methods, a tenant in cancel-only mode who declares \<^verbatim>\<open>DELETE\<close> gets exactly the answer and the state
  that an active tenant gets for the same body declared as \<^verbatim>\<open>POST\<close>, which the switch refuses.
\<close>

theorem cancel_only_signs_asterdex_orders:
  assumes "rq_action req = ''sign_asterdex''"
    and "\<And>p sj st'. load_and_parse_blob X cfg inp req identity st = (Ok (Some p, sj), st') \<Longrightarrow> pl_allowed_methods p = None"
  shows "gated_dispatch X cfg inp (req\<lparr>rq_method := Some ''DELETE''\<rparr>) (identity\<lparr>ri_mode := CancelOnly\<rparr>) st
      = gated_dispatch X cfg inp (req\<lparr>rq_method := Some ''POST''\<rparr>) (identity\<lparr>ri_mode := Active\<rparr>) st
    \<and> gated_dispatch X cfg inp (req\<lparr>rq_method := Some ''POST''\<rparr>) (identity\<lparr>ri_mode := CancelOnly\<rparr>) st = (rsp_err MODE_CANCEL_ONLY, st)"
proof -
  have "trim ''POST'' = ''POST''" "trim ''DELETE'' = ''DELETE''"
    by (intro trim_graphic, code_simp)+
  moreover have "to_ascii_uppercase ''POST'' = ''POST''" "to_ascii_uppercase ''DELETE'' = ''DELETE''"
    by code_simp+
  ultimately have gate: "tenant_mode_gate (identity\<lparr>ri_mode := CancelOnly\<rparr>) (req\<lparr>rq_method := Some ''DELETE''\<rparr>) = Ok ()"
    "tenant_mode_gate (identity\<lparr>ri_mode := CancelOnly\<rparr>) (req\<lparr>rq_method := Some ''POST''\<rparr>) = Err (rsp_err MODE_CANCEL_ONLY)"
    "tenant_mode_gate (identity\<lparr>ri_mode := Active\<rparr>) (req\<lparr>rq_method := Some ''POST''\<rparr>) = Ok ()"
    using assms(1) by (simp_all add: tenant_mode_gate_def cancel_only_allows_def GENERIC_ACTIONS_def gate_method_def ends_with_def)
  have "dispatch X cfg inp (req\<lparr>rq_method := m\<rparr>) i st = handle_sign_asterdex X cfg inp (req\<lparr>rq_method := m\<rparr>) i st" for m i
    using assms(1) by (simp add: dispatch_def sign_handlers_def)
  then show ?thesis
    using asterdex_ignores_method [of "''DELETE''" "''POST''" X cfg inp req identity st CancelOnly Active] assms(2)
    by (auto simp: gated_dispatch_def gate ALLOWED_METHODS_def)
qed


text \<open>A limit order of the cap's full size, declared as a cancellation.\<close>

definition sample_asterdex_body :: bytes where
  "sample_asterdex_body = ''symbol=BTCUSDT&type=LIMIT&quantity=0.5&price=60000&signer=0x'' @ replicate 40 (CHR ''0'') @ ''&nonce=1700000000000''"

definition sample_asterdex_request :: sign_request where
  "sample_asterdex_request = (sample_request ''sign_asterdex'')\<lparr>rq_body := Some sample_asterdex_body\<rparr>"

lemma sample_asterdex_load:
  "\<exists>st'. load_and_parse_blob sample_sys sample_config sample_draws sample_asterdex_request (sample_tenant md) (sample_granted md)
     = (Ok (Some sample_policy, Null), st')"
proof (rule sample_loads)
  show "tenant_request sample_asterdex_request"
    using tenant_requests(1) [of "''sign_asterdex''"] by (simp add: sample_asterdex_request_def tenant_request_def)
  show "venue_for_action (rq_action sample_asterdex_request) = Some ''asterdex''"
    by (simp add: sample_asterdex_request_def venue_for_action_def)
qed simp_all

lemma sample_asterdex_signed:
  "rs_headers (fst (handle_sign_asterdex sample_sys sample_config sample_draws (sample_asterdex_request\<lparr>rq_method := Some ''POST''\<rparr>)
     (sample_tenant md) (sample_granted md))) \<noteq> None"
proof -
  let ?req = "sample_asterdex_request\<lparr>rq_method := Some ''POST''\<rparr>"
  obtain st' where "load_and_parse_blob sample_sys sample_config sample_draws sample_asterdex_request (sample_tenant md)
      (sample_granted md) = (Ok (Some sample_policy, Null), st')"
    using sample_asterdex_load by blast
  then have load: "load_and_parse_blob sample_sys sample_config sample_draws ?req (sample_tenant md) (sample_granted md)
      = (Ok (Some sample_policy, Null), st')"
    using load_ignores [where X = sample_sys and req = sample_asterdex_request and m = "Some ''POST''" and identity = "sample_tenant md" and md = md]
    by (simp add: sample_tenant_def)
  have short: "length sample_asterdex_body \<le> 200" "sample_asterdex_body \<noteq> []"
    by code_simp+
  have "is_ok (enforce_policy sample_sys (Some sample_policy) ?req)"
    "\<not> asterdex_floor_denies (policy_required sample_config) (Some sample_policy)" "asterdex_endpoint_allowed (Some sample_policy) ?req"
    "is_ok (enforce_asterdex_size_cap (Some sample_policy) sample_asterdex_body)"
    "is_ok (complete_secret h (de_asterdex sample_sys) asterdex_is_complete Null)"
    "is_ok (validate_signer sample_sys sample_asterdex_body (replicate 20 (CHR ''0'')))" "is_ok (validate_nonce sample_asterdex_body)" for h
    by code_simp+
  moreover have "validate_asterdex_body sample_sys sample_asterdex_body (replicate 20 (CHR ''0'')) = Ok ()" if
      "is_ok (validate_signer sample_sys sample_asterdex_body (replicate 20 (CHR ''0'')))" "is_ok (validate_nonce sample_asterdex_body)"
    using short that by (auto simp: validate_asterdex_body_def ASTERDEX_MAX_BODY_LEN_def is_ok_iff)
  ultimately obtain h u s where oks: "enforce_policy sample_sys (Some sample_policy) ?req = Ok h"
    "\<not> asterdex_floor_denies (policy_required sample_config) (Some sample_policy)" "asterdex_endpoint_allowed (Some sample_policy) ?req"
    "enforce_asterdex_size_cap (Some sample_policy) sample_asterdex_body = Ok u"
    "complete_secret h (de_asterdex sample_sys) asterdex_is_complete Null = Ok s"
    "validate_asterdex_body sample_sys sample_asterdex_body (replicate 20 (CHR ''0'')) = Ok ()"
    unfolding is_ok_iff by metis
  have "de_asterdex sample_sys Null = Some s"
    using oks(5) by (simp add: complete_secret_Ok)
  moreover have "is_ok (case de_asterdex sample_sys Null of Some s \<Rightarrow> try_res (owned_key sample_sys h (as_private_key s) (as_signer_address s))
      (\<lambda>(pk, derived). if derived = replicate 20 (CHR ''0'') then map_err (\<lambda>_. rsp_err BAD_REQUEST) (sign_asterdex sample_sys pk sample_asterdex_body)
         else Err (rsp_err BAD_REQUEST)))" for h
    by code_simp
  ultimately obtain pk sig where "owned_key sample_sys h (as_private_key s) (as_signer_address s) = Ok (pk, replicate 20 (CHR ''0''))"
    "sign_asterdex sample_sys pk sample_asterdex_body = Ok sig"
    by (auto simp: is_ok_iff result_simps split: if_splits prod.splits)
  then show ?thesis
    using oks short load
    by (simp add: handle_sign_asterdex_def sample_asterdex_request_def with_blob_def ALLOWED_METHODS_def ASTERDEX_MAX_BODY_LEN_def deny_if_def
        deny_if_err_def respond_def ok_headers_under_def rsp_defs)
qed

theorem cancel_only_signs_asterdex_orders_witness:
  "rs_headers (fst (gated_dispatch sample_sys sample_config sample_draws (sample_asterdex_request\<lparr>rq_method := Some ''DELETE''\<rparr>)
     (sample_tenant CancelOnly) (sample_granted CancelOnly))) \<noteq> None"
proof -
  let ?i = "sample_tenant CancelOnly" and ?st = "sample_granted CancelOnly"
  have action: "rq_action sample_asterdex_request = ''sign_asterdex''"
    by (simp add: sample_asterdex_request_def)
  have methods: "pl_allowed_methods p = None"
    if "load_and_parse_blob sample_sys sample_config sample_draws sample_asterdex_request ?i ?st = (Ok (Some p, sj), st')" for p sj st'
    using that sample_asterdex_load [of CancelOnly] by (auto simp: sample_policy_def policy_default_def)
  have same: "?i\<lparr>ri_mode := CancelOnly\<rparr> = ?i"
    by (simp add: sample_tenant_def)
  have active: "gated_dispatch sample_sys sample_config sample_draws (sample_asterdex_request\<lparr>rq_method := Some ''POST''\<rparr>)
      (?i\<lparr>ri_mode := Active\<rparr>) ?st
      = handle_sign_asterdex sample_sys sample_config sample_draws (sample_asterdex_request\<lparr>rq_method := Some ''POST''\<rparr>)
          (?i\<lparr>ri_mode := Active\<rparr>) ?st"
    using action by (simp add: gated_dispatch_def tenant_mode_gate_def dispatch_def sign_handlers_def)
  have "handle_sign_asterdex sample_sys sample_config sample_draws (sample_asterdex_request\<lparr>rq_method := Some ''POST''\<rparr>)
      (?i\<lparr>ri_mode := Active\<rparr>) ?st
    = handle_sign_asterdex sample_sys sample_config sample_draws (sample_asterdex_request\<lparr>rq_method := Some ''POST''\<rparr>)
      (?i\<lparr>ri_mode := CancelOnly\<rparr>) ?st"
    using methods by (intro asterdex_ignores_method) (simp_all add: ALLOWED_METHODS_def)
  then show ?thesis
    using cancel_only_signs_asterdex_orders [of sample_asterdex_request sample_sys sample_config sample_draws ?i ?st, OF action methods]
      sample_asterdex_signed [of CancelOnly]
    by (simp add: active same)
qed


section \<open>The pre-flight\<close>

text \<open>
  C10: The blob pre-flight blesses keys the sign path refuses.  On a strict money venue, when the blob of a
  request opens to a policy that is not signed by the authority for this customer and venue, or is signed but
  carries no binding cap, \<^verbatim>\<open>verify_blob\<close> answers with the plaintext hash and no error,
  while loading the same blob for any action of that venue fails.
\<close>

theorem preflight_blesses_unsignable:
  assumes "blob_floor_strict (policy_required cfg) venue" "is_money_venue venue" "venue_for_action (rq_action req) = Some venue"
    and "venue_allowed identity venue"
    and "load_secret_for X inp req identity venue (es_dek st) = (Ok pt, cache)" "from_plaintext X pt = Some (WithPolicy p sj)"
    and "verify_policy_authority X cfg p (ri_customer_id identity) venue \<noteq> Ok () \<or> \<not> rot3_binding_cap_present venue p"
  shows "fst (handle_verify_blob X cfg inp (req\<lparr>rq_action := ''verify_blob'', rq_path := Some venue\<rparr>) identity st)
      = rsp_ok_verify_blob (hex_encode X (sha256 X pt)) (word_of_nat (length pt))
    \<and> (\<exists>e. fst (load_and_parse_blob X cfg inp req identity st) = Err e)"
proof -
  have fields: "rq_aws_credentials (req\<lparr>rq_action := a, rq_path := pa\<rparr>) = rq_aws_credentials req"
    "rq_ciphertext_blob_base64 (req\<lparr>rq_action := a, rq_path := pa\<rparr>) = rq_ciphertext_blob_base64 req" for a pa
    by simp_all
  have "load_secret_for X inp (req\<lparr>rq_action := a, rq_path := pa\<rparr>) identity venue (es_dek st) = (Ok pt, cache)" for a pa
    using assms(5) unfolding load_secret_for_def request_blob_def fields .
  moreover have "\<exists>e. fst (check_floor X cfg identity venue (WithPolicy p sj) (es_pins st)) = Err e"
    using assms(1,2,7)
    by (cases "verify_policy_authority X cfg p (ri_customer_id identity) venue")
      (auto simp: check_floor_def rot3_uncapped_money_key_rejected_def)
  ultimately show ?thesis
    using assms(3-6)
    by (auto simp: handle_verify_blob_def load_and_parse_blob_def authorize_venue_def Let_def split: prod.split)
qed

text \<open>An image built without the authority's key.\<close>

theorem preflight_blesses_unsignable_witness:
  "rs_error (fst (handle_verify_blob sample_sys (sample_config\<lparr>cf_policy_pubkey := None\<rparr>) sample_draws
       (sample_order_request\<lparr>rq_action := ''verify_blob'', rq_path := Some ''binance''\<rparr>) (sample_tenant Active) (sample_granted Active))) = None
   \<and> (\<exists>e. fst (load_and_parse_blob sample_sys (sample_config\<lparr>cf_policy_pubkey := None\<rparr>) sample_draws sample_order_request
       (sample_tenant Active) (sample_granted Active)) = Err e)"
proof -
  let ?cfg = "sample_config\<lparr>cf_policy_pubkey := None\<rparr>"
  obtain cache where load: "load_secret_for sample_sys sample_draws sample_order_request (sample_tenant Active) ''binance''
      (es_dek (sample_granted Active)) = (Ok ''secret'', cache)"
    using sample_secret [of sample_order_request "''binance''" Active] by auto
  have facts: "blob_floor_strict (policy_required ?cfg) ''binance''" "is_money_venue ''binance''"
    "venue_for_action (rq_action sample_order_request) = Some ''binance''" "venue_allowed (sample_tenant Active) ''binance''"
    "\<not> is_ok (verify_policy_authority sample_sys ?cfg sample_policy (ri_customer_id (sample_tenant Active)) ''binance'')"
    by code_simp+
  from facts(5) have "verify_policy_authority sample_sys ?cfg sample_policy (ri_customer_id (sample_tenant Active)) ''binance'' \<noteq> Ok ()
      \<or> \<not> rot3_binding_cap_present ''binance'' sample_policy"
    by auto
  from preflight_blesses_unsignable [OF facts(1-4) load sample_plaintext this] show ?thesis
    by (simp add: rsp_defs)
qed

end
