(* ===== verification/Generic_Routes.thy ===== *)
theory Generic_Routes
  imports Sample
begin

text \<open>
  The generic signers (\<^verbatim>\<open>sign_kucoin\<close>, \<^verbatim>\<open>sign_binance\<close>, \<^verbatim>\<open>sign_bybit\<close>, \<^verbatim>\<open>sign_okx\<close>) take
  method, path, query and body from the client, so that an order could be written into them.  Shown here, of whole requests:
  under a policy with order caps they sign only account reads and the cancel-all.
\<close>

section \<open>The shape of the generic signers\<close>

definition generic_shape ::
  "'x enclave_sys_scheme \<Rightarrow> enclave_config \<Rightarrow> draws \<Rightarrow> sign_request \<Rightarrow> resolved_identity \<Rightarrow> enclave_state
     \<Rightarrow> (policy option \<Rightarrow> bool) \<Rightarrow> (json \<Rightarrow> 's option) \<Rightarrow> ('s \<Rightarrow> bool) \<Rightarrow> err_code \<Rightarrow> ('s \<Rightarrow> ('e, (bytes \<times> bytes) list) result)
     \<Rightarrow> reply" where
  "generic_shape X cfg inp req identity st refused de is_complete code headers_for =
     with_blob X cfg inp req identity st (\<lambda>policy secret_json policy_hash st1.
       (respond
          (try_res (deny_if policy_hash POLICY_DENIED (refused policy)) (\<lambda>_.
           try_res (complete_secret policy_hash de is_complete secret_json) (\<lambda>secret.
           try_res (deny_if_err policy_hash code (headers_for secret)) (\<lambda>headers.
           Ok (ok_headers_under policy_hash headers))))), st1))"

lemma generic_signed:
  assumes "carries_signature (fst (generic_shape X cfg inp req identity st refused de is_complete code headers_for))"
  obtains policy secret_json secret headers where
    "fst (load_and_parse_blob X cfg inp req identity st) = Ok (policy, secret_json)" "\<not> refused policy"
    "de secret_json = Some secret" "headers_for secret = Ok headers"
    "rs_headers (fst (generic_shape X cfg inp req identity st refused de is_complete code headers_for)) = Some headers"
  using assms [unfolded generic_shape_def]
proof (rule with_blob_signed)
  fix policy secret_json hash st1
  let ?k = "\<lambda>policy secret_json policy_hash st1. (respond
          (try_res (deny_if policy_hash POLICY_DENIED (refused policy)) (\<lambda>_.
           try_res (complete_secret policy_hash de is_complete secret_json) (\<lambda>secret.
           try_res (deny_if_err policy_hash code (headers_for secret)) (\<lambda>headers.
           Ok (ok_headers_under policy_hash headers))))), st1)"
  define r where "r = try_res (deny_if hash POLICY_DENIED (refused policy)) (\<lambda>_.
           try_res (complete_secret hash de is_complete secret_json) (\<lambda>secret.
           try_res (deny_if_err hash code (headers_for secret)) (\<lambda>headers.
           Ok (ok_headers_under hash headers))))"
  assume load: "load_and_parse_blob X cfg inp req identity st = (Ok (policy, secret_json), st1)"
    and eq: "with_blob X cfg inp req identity st ?k = ?k policy secret_json hash st1"
    and signed: "carries_signature (fst (?k policy secret_json hash st1))"
  have "refuses r"
    by (simp add: r_def refuses_simps refuses_gates)
  moreover have "carries_signature (respond r)"
    using signed by (simp add: r_def)
  ultimately obtain x where x: "r = Ok x" "respond r = x"
    using refusesD by (metis respond_signed)
  then obtain secret headers where "\<not> refused policy" "de secret_json = Some secret" "headers_for secret = Ok headers"
    "x = ok_headers_under hash headers"
    by (auto simp: r_def deny_if_def complete_secret_Ok result_simps split: if_splits)
  moreover have "fst (generic_shape X cfg inp req identity st refused de is_complete code headers_for) = x"
    unfolding generic_shape_def eq using x(2) by (simp add: r_def)
  ultimately show thesis
    using that load by (simp add: ok_headers_under_def rsp_defs)
qed

definition request_path_or_empty :: "sign_request \<Rightarrow> bytes" where
  "request_path_or_empty req = (case rq_path req of None \<Rightarrow> [] | Some p \<Rightarrow> p)"

lemma generic_handlers_shape:
  assumes "rq_method req = Some m" "rq_body req = Some body" "rq_timestamp_ms req = Some ts" "m \<in> set ALLOWED_METHODS"
  shows "handle_sign_binance X cfg inp req identity st = generic_shape X cfg inp req identity st
      (\<lambda>policy. policy_order_caps policy \<noteq> None
         \<and> \<not> generic_capped_op_allowed ''binance'' m (request_path_or_empty req) (user_query req) body)
      (de_key_secret X) key_secret_is_complete INTERNAL_ERROR
      (\<lambda>s. compute_binance_headers X (ks_secret s) (ks_key s) ts (user_query req) body)"
    and "handle_sign_bybit X cfg inp req identity st = generic_shape X cfg inp req identity st
      (\<lambda>policy. policy_order_caps policy \<noteq> None) (de_key_secret X) key_secret_is_complete INTERNAL_ERROR
      (\<lambda>s. compute_bybit_headers X (ks_secret s) (ks_key s) ts m (user_query req) body)"
    and "rq_path req = Some path \<Longrightarrow> handle_sign_kucoin X cfg inp req identity st = generic_shape X cfg inp req identity st
      (\<lambda>policy. policy_order_caps policy \<noteq> None) (de_pass_secret X) pass_secret_is_complete INTERNAL_ERROR
      (\<lambda>s. compute_kucoin_headers X (ps_secret s) (ps_passphrase s) (ps_key s) ts m path body)"
    and "rq_path req = Some path \<Longrightarrow> handle_sign_okx X cfg inp req identity st = generic_shape X cfg inp req identity st
      (\<lambda>policy. policy_order_caps policy \<noteq> None
         \<and> \<not> generic_capped_op_allowed ''okx'' m (okx_request_path req path) [] body)
      (de_pass_secret X) pass_secret_is_complete BAD_REQUEST
      (\<lambda>s. compute_okx_headers X (ps_secret s) (ps_passphrase s) (ps_key s) ts m (okx_request_path req path) body)"
  unfolding handle_sign_binance_def handle_sign_bybit_def handle_sign_kucoin_def handle_sign_okx_def generic_shape_def Let_def
    request_path_or_empty_def
  using assms by simp_all

lemma query_handlers_fields:
  assumes "carries_signature (fst (handle_sign_binance X cfg inp req identity st))
      \<or> carries_signature (fst (handle_sign_bybit X cfg inp req identity st))"
  obtains m body ts where "rq_method req = Some m" "rq_body req = Some body" "rq_timestamp_ms req = Some ts"
    "m \<in> set ALLOWED_METHODS"
  using assms by (auto simp: handle_sign_binance_def handle_sign_bybit_def split: option.splits if_splits)

lemma path_handlers_fields:
  assumes "carries_signature (fst (handle_sign_kucoin X cfg inp req identity st))
      \<or> carries_signature (fst (handle_sign_okx X cfg inp req identity st))"
  obtains m path body ts where "rq_method req = Some m" "rq_body req = Some body" "rq_timestamp_ms req = Some ts"
    "m \<in> set ALLOWED_METHODS" "rq_path req = Some path"
  using assms by (auto simp: handle_sign_kucoin_def handle_sign_okx_def split: option.splits if_splits)

section \<open>What a capped key signs\<close>

text \<open>
  A generic request that places nothing: one of the safe operations, no body, read filters only.  For Binance the
  query is all that is signed; for OKX method, path with query, and body are.
\<close>

definition reads_only :: "bytes \<Rightarrow> bytes \<Rightarrow> bytes \<Rightarrow> bytes \<Rightarrow> bool" where
  "reads_only venue m path query \<longleftrightarrow>
     (venue, m, fst (merged_query path query)) \<in> set SAFE_OPS
     \<and> filters_only READ_FILTERS (snd (merged_query path query)) \<and> filters_only READ_FILTERS query"

definition signs_binance_read :: "'x enclave_sys_scheme \<Rightarrow> json \<Rightarrow> sign_request \<Rightarrow> sign_response \<Rightarrow> bool" where
  "signs_binance_read X secret_json req resp \<longleftrightarrow>
     (\<exists>m ts secret headers. rq_method req = Some m \<and> rq_body req = Some [] \<and> rq_timestamp_ms req = Some ts
        \<and> reads_only ''binance'' m (request_path_or_empty req) (user_query req)
        \<and> de_key_secret X secret_json = Some secret \<and> rs_headers resp = Some headers
        \<and> map_of headers ''signature''
            = Some (hex_encode X (hmac_sha256 X (ks_secret secret) (binance_full_query ts (user_query req)))))"

definition signs_okx_read :: "'x enclave_sys_scheme \<Rightarrow> json \<Rightarrow> sign_request \<Rightarrow> sign_response \<Rightarrow> bool" where
  "signs_okx_read X secret_json req resp \<longleftrightarrow>
     (\<exists>m path ts secret headers. rq_method req = Some m \<and> rq_path req = Some path \<and> rq_body req = Some []
        \<and> rq_timestamp_ms req = Some ts \<and> reads_only ''okx'' m (okx_request_path req path) []
        \<and> de_pass_secret X secret_json = Some secret \<and> rs_headers resp = Some headers
        \<and> map_of headers ''OK-ACCESS-SIGN''
            = Some (b64_encode X (hmac_sha256 X (ps_secret secret)
                (okx_canonical (okx_iso8601_from_ms ts) m (okx_request_path req path) []))))"

lemma binance_generic_capped:
  assumes "carries_signature (fst (handle_sign_binance X cfg inp req identity st))"
  obtains policy secret_json where "fst (load_and_parse_blob X cfg inp req identity st) = Ok (policy, secret_json)"
    "policy_order_caps policy \<noteq> None \<Longrightarrow> signs_binance_read X secret_json req (fst (handle_sign_binance X cfg inp req identity st))"
proof -
  obtain m body ts where req: "rq_method req = Some m" "rq_body req = Some body" "rq_timestamp_ms req = Some ts"
    "m \<in> set ALLOWED_METHODS"
    using assms by (rule query_handlers_fields [OF disjI1])
  note h = generic_handlers_shape(1) [OF req, of X cfg inp identity st]
  from generic_signed [OF assms [unfolded h], folded h] obtain policy secret_json secret headers where
    load: "fst (load_and_parse_blob X cfg inp req identity st) = Ok (policy, secret_json)"
    and gate: "\<not> (policy_order_caps policy \<noteq> None
         \<and> \<not> generic_capped_op_allowed ''binance'' m (request_path_or_empty req) (user_query req) body)"
    and signed: "de_key_secret X secret_json = Some secret"
      "compute_binance_headers X (ks_secret secret) (ks_key secret) ts (user_query req) body = Ok headers"
      "rs_headers (fst (handle_sign_binance X cfg inp req identity st)) = Some headers" .
  have "signs_binance_read X secret_json req (fst (handle_sign_binance X cfg inp req identity st))" if "policy_order_caps policy \<noteq> None"
  proof -
    have ok: "generic_capped_op_allowed ''binance'' m (request_path_or_empty req) (user_query req) body"
      using gate that by blast
    have "map_of headers ''signature''
        = Some (hex_encode X (hmac_sha256 X (ks_secret secret) (binance_full_query ts (user_query req))))"
      using signed(2) generic_capped_safe [OF ok]
      by (auto simp: compute_binance_headers_def sign_binance_def binance_canonical_def headers_of_map_of result_simps)
    then show ?thesis
      using generic_capped_safe [OF ok] req signed(1,3) unfolding signs_binance_read_def reads_only_def by blast
  qed
  then show thesis
    using that [OF load] by blast
qed

lemma okx_generic_capped:
  assumes "carries_signature (fst (handle_sign_okx X cfg inp req identity st))"
  obtains policy secret_json where "fst (load_and_parse_blob X cfg inp req identity st) = Ok (policy, secret_json)"
    "policy_order_caps policy \<noteq> None \<Longrightarrow> signs_okx_read X secret_json req (fst (handle_sign_okx X cfg inp req identity st))"
proof -
  obtain m body ts path where req: "rq_method req = Some m" "rq_body req = Some body" "rq_timestamp_ms req = Some ts"
    "m \<in> set ALLOWED_METHODS" and path: "rq_path req = Some path"
    using assms by (rule path_handlers_fields [OF disjI2])
  note h = generic_handlers_shape(4) [OF req path, of X cfg inp identity st]
  from generic_signed [OF assms [unfolded h], folded h] obtain policy secret_json secret headers where
    load: "fst (load_and_parse_blob X cfg inp req identity st) = Ok (policy, secret_json)"
    and gate: "\<not> (policy_order_caps policy \<noteq> None
         \<and> \<not> generic_capped_op_allowed ''okx'' m (okx_request_path req path) [] body)"
    and signed: "de_pass_secret X secret_json = Some secret"
      "compute_okx_headers X (ps_secret secret) (ps_passphrase secret) (ps_key secret) ts m (okx_request_path req path) body
         = Ok headers"
      "rs_headers (fst (handle_sign_okx X cfg inp req identity st)) = Some headers" .
  have "signs_okx_read X secret_json req (fst (handle_sign_okx X cfg inp req identity st))" if "policy_order_caps policy \<noteq> None"
  proof -
    have ok: "generic_capped_op_allowed ''okx'' m (okx_request_path req path) [] body"
      using gate that by blast
    have "map_of headers ''OK-ACCESS-SIGN'' = Some (b64_encode X (hmac_sha256 X (ps_secret secret)
        (okx_canonical (okx_iso8601_from_ms ts) m (okx_request_path req path) [])))"
      using signed(2) generic_capped_safe [OF ok]
      by (auto simp: compute_okx_headers_def sign_okx_def headers_of_map_of result_simps Let_def split: if_splits)
    then show ?thesis
      using generic_capped_safe [OF ok] req path signed(1,3) unfolding signs_okx_read_def reads_only_def by blast
  qed
  then show thesis
    using that [OF load] by blast
qed

lemma uncapped_generic:
  assumes "carries_signature (fst (handle_sign_kucoin X cfg inp req identity st))
      \<or> carries_signature (fst (handle_sign_bybit X cfg inp req identity st))"
  obtains policy secret_json where "fst (load_and_parse_blob X cfg inp req identity st) = Ok (policy, secret_json)"
    "policy_order_caps policy = None"
  using assms
proof
  assume k: "carries_signature (fst (handle_sign_kucoin X cfg inp req identity st))"
  then obtain m body ts path where req: "rq_method req = Some m" "rq_body req = Some body" "rq_timestamp_ms req = Some ts"
    "m \<in> set ALLOWED_METHODS" and path: "rq_path req = Some path"
    by (rule path_handlers_fields [OF disjI1])
  from k show thesis
    unfolding generic_handlers_shape(3) [OF req path] by (rule generic_signed) (use that in simp)
next
  assume b: "carries_signature (fst (handle_sign_bybit X cfg inp req identity st))"
  then obtain m body ts where req: "rq_method req = Some m" "rq_body req = Some body" "rq_timestamp_ms req = Some ts"
    "m \<in> set ALLOWED_METHODS"
    by (rule query_handlers_fields [OF disjI2])
  from b show thesis
    unfolding generic_handlers_shape(2) [OF req] by (rule generic_signed) (use that in simp)
qed

text \<open>
  C8: A key with order caps cannot obtain an order signature through a generic route.  When \<open>handle\<close> answers
  a generic KuCoin, Binance, Bybit or OKX request with key-derived material and the policy in the blob of this request has order
  caps, the venue is Binance or OKX; method and path name one of the nine account reads or the cancel-all; the body is empty; the
  whole query is a list of distinct read filters with plain token values, none of them an order parameter; and
  the signature is the venue's MAC over that query (Binance) or that method, path and query (OKX).
\<close>

theorem capped_generic_is_safe:
  assumes "handle X cfg inp req st = Some (resp, st')" "carries_signature resp"
    and "rq_action req \<in> set [''sign_kucoin'', ''sign_binance'', ''sign_bybit'', ''sign_okx'']"
  shows "\<exists>identity policy secret_json. resolve_identity X st req = Some identity
    \<and> fst (load_and_parse_blob X cfg inp req identity (rate_charged identity inp st)) = Ok (policy, secret_json)
    \<and> (policy_order_caps policy \<noteq> None \<longrightarrow>
         rq_action req = ''sign_binance'' \<and> signs_binance_read X secret_json req resp
       \<or> rq_action req = ''sign_okx'' \<and> signs_okx_read X secret_json req resp)
    \<and> set READ_FILTERS \<inter> {''side'', ''type'', ''quantity'', ''price'', ''tdMode'', ''ordType'', ''sz'', ''px''} = {}"
proof -
  have "rq_action req \<notin> set TENANTLESS_ACTIONS"
    using assms(3) by (auto simp: TENANTLESS_ACTIONS_def)
  from handle_signed [OF assms(1,2) this] obtain identity p r where id: "resolve_identity X st req = Some identity"
    and disp: "carries_signature (fst (dispatch X cfg inp req identity (rate_charged identity inp st)))"
    and resp: "resp = fst (attach X p (fst (dispatch X cfg inp req identity (rate_charged identity inp st))) r)"
    by metis
  let ?st = "rate_charged identity inp st"
  have keep: "signs_binance_read X sj req (fst (attach X p x r)) = signs_binance_read X sj req x"
    "signs_okx_read X sj req (fst (attach X p x r)) = signs_okx_read X sj req x" for sj x
    by (simp_all add: signs_binance_read_def signs_okx_read_def)
  have "\<exists>policy sj. fst (load_and_parse_blob X cfg inp req identity ?st) = Ok (policy, sj)
    \<and> (policy_order_caps policy \<noteq> None \<longrightarrow> rq_action req = ''sign_binance'' \<and> signs_binance_read X sj req resp
       \<or> rq_action req = ''sign_okx'' \<and> signs_okx_read X sj req resp)"
  proof -
    consider "rq_action req = ''sign_binance''" | "rq_action req = ''sign_okx''"
      | "rq_action req = ''sign_kucoin'' \<or> rq_action req = ''sign_bybit''"
      using assms(3) by auto
    then show ?thesis
    proof cases
      case 1
      then have "dispatch X cfg inp req identity ?st = handle_sign_binance X cfg inp req identity ?st"
        by (simp add: dispatch_def sign_handlers_def)
      then show ?thesis
        using 1 disp binance_generic_capped [of X cfg inp req identity ?st] unfolding resp keep by metis
    next
      case 2
      then have "dispatch X cfg inp req identity ?st = handle_sign_okx X cfg inp req identity ?st"
        by (simp add: dispatch_def sign_handlers_def)
      then show ?thesis
        using 2 disp okx_generic_capped [of X cfg inp req identity ?st] unfolding resp keep by metis
    next
      case 3
      then have "dispatch X cfg inp req identity ?st = handle_sign_kucoin X cfg inp req identity ?st
        \<or> dispatch X cfg inp req identity ?st = handle_sign_bybit X cfg inp req identity ?st"
        by (auto simp: dispatch_def sign_handlers_def)
      then show ?thesis
        using disp uncapped_generic [of X cfg inp req identity ?st] by metis
    qed
  qed
  then show ?thesis
    using id by (auto simp: READ_FILTERS_def BINANCE_TRADE_FILTERS_def OKX_FILL_FILTERS_def)
qed

text \<open>The sample tenant, whose policy has order caps, reads its trades.\<close>

definition sample_read_request :: sign_request where
  "sample_read_request = (sample_request ''sign_binance'')\<lparr>rq_method := Some ''GET'', rq_path := Some ''/fapi/v1/userTrades'',
     rq_query := Some ''symbol=BTCUSDT&limit=5'', rq_body := Some []\<rparr>"

lemma sample_read_fields:
  "tenant_request sample_read_request" "rq_action sample_read_request = ''sign_binance''" "rq_method sample_read_request = Some ''GET''"
  "rq_body sample_read_request = Some []" "rq_timestamp_ms sample_read_request = Some 7"
  by (simp_all add: sample_read_request_def tenant_request_def sample_request_def sample_load_def sample_sign_request_def)

lemma sample_read_signed:
  obtains resp st' where "handle sample_sys sample_config sample_draws sample_read_request (sample_state Active) = Some (resp, st')"
    "carries_signature resp"
proof (rule sample_signed)
  obtain st' where load: "load_and_parse_blob sample_sys sample_config sample_draws sample_read_request (sample_tenant Active)
      (sample_granted Active) = (Ok (Some sample_policy, Null), st')"
    using sample_loads [of sample_read_request "''binance''" "sample_granted Active"] sample_read_fields(1,2)
    by (auto simp: venue_for_action_def)
  have get: "''GET'' \<in> set ALLOWED_METHODS"
    by code_simp
  have "is_ok (enforce_policy sample_sys (Some sample_policy) sample_read_request)"
    "generic_capped_op_allowed ''binance'' ''GET'' (request_path_or_empty sample_read_request) (user_query sample_read_request) []"
    "is_ok (complete_secret h (de_key_secret sample_sys) key_secret_is_complete Null)" for h
    by code_simp+
  then obtain h s where oks: "enforce_policy sample_sys (Some sample_policy) sample_read_request = Ok h"
    "generic_capped_op_allowed ''binance'' ''GET'' (request_path_or_empty sample_read_request) (user_query sample_read_request) []"
    "complete_secret h (de_key_secret sample_sys) key_secret_is_complete Null = Ok s"
    by (metis is_ok_iff)
  have "rs_headers (fst (handle_sign_binance sample_sys sample_config sample_draws sample_read_request
      (sample_tenant Active) (sample_granted Active))) \<noteq> None"
    unfolding generic_handlers_shape(1) [OF sample_read_fields(3-5) get] generic_shape_def
    by (simp add: with_blob_def load oks respond_def deny_if_def compute_binance_headers_def sign_binance_def deny_if_err_def
        ok_headers_under_def rsp_defs)
  then show "carries_signature (fst (dispatch sample_sys sample_config sample_draws sample_read_request (sample_tenant Active)
      (sample_granted Active)))"
    by (simp add: dispatch_def sign_handlers_def carries_signature_def sample_read_fields(2))
qed (simp_all add: TENANTLESS_ACTIONS_def sample_read_fields(1,2))

theorem capped_generic_is_safe_witness:
  "\<exists>resp st'. handle sample_sys sample_config sample_draws sample_read_request (sample_state Active) = Some (resp, st')
     \<and> policy_order_caps (Some sample_policy) \<noteq> None \<and> signs_binance_read sample_sys Null sample_read_request resp"
proof -
  obtain resp st' where h: "handle sample_sys sample_config sample_draws sample_read_request (sample_state Active) = Some (resp, st')"
    "carries_signature resp"
    by (rule sample_read_signed)
  have caps: "policy_order_caps (Some sample_policy) \<noteq> None"
    by (simp add: policy_order_caps_def sample_policy_def)
  have load: "fst (load_and_parse_blob sample_sys sample_config sample_draws sample_read_request (sample_tenant Active)
      (rate_charged (sample_tenant Active) sample_draws (sample_state Active))) = Ok (Some sample_policy, Null)"
    using sample_opens [OF sample_read_fields(1), of "''binance''"] by (simp add: venue_for_action_def sample_read_fields(2))
  show ?thesis
    using capped_generic_is_safe [OF h] h caps by (auto simp: sample_resolves load sample_read_fields(1,2))
qed

end
