(* ===== verification/Durable_File.thy ===== *)
theory Durable_File
  imports Prelude
begin

text \<open>
  The file store under the gateway's durable state, and the atomic replacement of a file
  (\<^verbatim>\<open>gateway/src/limits.rs\<close>).  A file system maps paths to contents, as programs see them and as a crash of the
  host would leave them; the two differ where a directory was not synced.  Every call into it may fail; which
  ones do is an input.  The second half is the contract of a ledger that grants amounts per key and
  period out of durable state.
\<close>

section \<open>Files and faults\<close>

datatype io_error = NotFound | InvalidData | OtherIo

record files =
  fs_live :: "bytes \<Rightarrow> bytes option"
  fs_safe :: "bytes \<Rightarrow> bytes option"

definition no_files :: files where
  "no_files = \<lparr>fs_live = Map.empty, fs_safe = Map.empty\<rparr>"

text \<open>A write that fails may leave a prefix of the bytes in the file.\<close>

record io_faults =
  io_read :: bool
  io_create :: bool
  io_write :: "nat option"
  io_sync :: bool
  io_rename :: bool
  io_remove :: bool
  io_dirsync :: bool

definition no_faults :: io_faults where
  "no_faults = \<lparr>io_read = False, io_create = False, io_write = None, io_sync = False, io_rename = False, io_remove = False,
     io_dirsync = False\<rparr>"

definition fs_read :: "io_faults \<Rightarrow> files \<Rightarrow> bytes \<Rightarrow> (io_error, bytes) result" where
  "fs_read F fs path =
     (if io_read F then Err OtherIo
      else case fs_live fs path of None \<Rightarrow> Err NotFound | Some b \<Rightarrow> Ok b)"

definition set_live :: "bytes \<Rightarrow> bytes option \<Rightarrow> files \<Rightarrow> files" where
  "set_live path c fs = fs\<lparr>fs_live := (fs_live fs)(path := c)\<rparr>"

definition write_then_rename :: "bytes \<Rightarrow> bytes \<Rightarrow> bytes \<Rightarrow> io_faults \<Rightarrow> files \<Rightarrow> (io_error, unit) result \<times> files" where
  "write_then_rename tmp path bs F fs =
     (if io_create F then (Err OtherIo, fs)
      else case io_write F of
        Some n \<Rightarrow> (Err OtherIo, set_live tmp (Some (take n bs)) fs)
      | None \<Rightarrow>
          if io_sync F \<or> io_rename F then (Err OtherIo, set_live tmp (Some bs) fs)
          else (Ok (), set_live path (Some bs) (set_live tmp None fs)))"

text \<open>
  \<^verbatim>\<open>Path::parent\<close> is non-empty when the path has a slash outside its last component and the slashes that trail it.
  Syncing the directory makes the renamed entry survive a crash of the host; the code goes on when that fails.
\<close>

definition has_parent_dir :: "bytes \<Rightarrow> bool" where
  "has_parent_dir path = (CHR ''/'' \<in> set (rev (dropWhile (\<lambda>c. c = CHR ''/'') (rev path))))"

definition sync_parent :: "bytes \<Rightarrow> io_faults \<Rightarrow> files \<Rightarrow> files" where
  "sync_parent path F fs =
     (if has_parent_dir path \<and> \<not> io_dirsync F
      then let tmp = path @ ''.tmp'' in fs\<lparr>fs_safe := (fs_safe fs)(tmp := fs_live fs tmp, path := fs_live fs path)\<rparr>
      else fs)"

definition atomic_write_bytes :: "bytes \<Rightarrow> bytes \<Rightarrow> io_faults \<Rightarrow> files \<Rightarrow> (io_error, unit) result \<times> files" where
  "atomic_write_bytes path bs F fs =
     (let tmp = path @ ''.tmp'' in
      case write_then_rename tmp path bs F fs of
        (Err e, fs') \<Rightarrow> (Err e, if io_remove F then fs' else set_live tmp None fs')
      | (Ok _, fs') \<Rightarrow> (Ok (), sync_parent path F fs'))"

text \<open>
  A crash of the host: what was renamed in a directory that was not synced may be lost or kept, entry by entry;
  what is found after the reboot is on disk.
\<close>

definition host_crash :: "(bytes \<Rightarrow> bool) \<Rightarrow> files \<Rightarrow> files" where
  "host_crash keep fs =
     (let found = (\<lambda>p. if keep p then fs_live fs p else fs_safe fs p) in \<lparr>fs_live = found, fs_safe = found\<rparr>)"

definition durable :: "bytes \<Rightarrow> files \<Rightarrow> bool" where
  "durable p fs \<longleftrightarrow> fs_safe fs p = fs_live fs p"

lemmas atomic_write_defs = atomic_write_bytes_def write_then_rename_def sync_parent_def set_live_def

text \<open>
  Whatever fails and wherever the process dies, the target holds its old contents or the new ones, and
  success means the new ones.  A process that dies after the \<open>n\<close>-th byte is a failed write whose clean-up does not run.
\<close>

lemma atomic_write_target:
  assumes "atomic_write_bytes path bs F fs = (r, fs')"
  shows "fs_live fs' path = (if is_ok r then Some bs else fs_live fs path)"
  using assms by (auto simp: atomic_write_defs Let_def split: if_splits option.splits)

lemma atomic_write_frame:
  assumes "atomic_write_bytes path bs F fs = (r, fs')" "p \<noteq> path" "p \<noteq> path @ ''.tmp''"
  shows "fs_live fs' p = fs_live fs p" "fs_safe fs' p = fs_safe fs p"
  using assms by (auto simp: atomic_write_defs Let_def split: if_splits option.splits)

text \<open>With the directory synced, a file that was durable stays so, whatever else fails.\<close>

lemma atomic_write_durable:
  assumes "atomic_write_bytes path bs F fs = (r, fs')" "\<not> io_dirsync F" "p = path \<longrightarrow> has_parent_dir p"
    and "p \<noteq> path @ ''.tmp''" "durable p fs"
  shows "durable p fs'"
  using assms by (auto simp: durable_def atomic_write_defs Let_def split: if_splits option.splits)

lemma host_crash_durable:
  assumes "durable p fs"
  shows "fs_live (host_crash keep fs) p = fs_live fs p" "durable p (host_crash keep fs)"
  using assms by (simp_all add: durable_def host_crash_def Let_def)

lemma atomic_write_no_faults: "fst (atomic_write_bytes path bs no_faults fs) = Ok ()"
  by (simp add: atomic_write_bytes_def write_then_rename_def no_faults_def)


section \<open>Ledgers that grant per period\<close>

text \<open>
  What a run of events grants a key in one period.
\<close>

fun granted_total ::
  "('e \<Rightarrow> 's \<Rightarrow> 's) \<Rightarrow> ('e \<Rightarrow> 's \<Rightarrow> bool) \<Rightarrow> ('e \<Rightarrow> 's \<Rightarrow> nat) \<Rightarrow> ('e \<Rightarrow> 's \<Rightarrow> 'k) \<Rightarrow> ('e \<Rightarrow> nat)
     \<Rightarrow> nat \<Rightarrow> 'k \<Rightarrow> 's \<Rightarrow> 'e list \<Rightarrow> nat" where
  "granted_total step grants period_of key_of amount d k s [] = 0"
| "granted_total step grants period_of key_of amount d k s (e # es) =
     (if grants e s \<and> period_of e s = d \<and> key_of e s = k then amount e else 0)
       + granted_total step grants period_of key_of amount d k (step e s) es"

text \<open>
  The contract of a ledger.  It keeps for every key the latest period it has recorded and what was granted in
  it.  Under the events the ledger is built for, periods and amounts only move forward; a grant is recorded before it is
  given, and no recorded amount passes the cap.
\<close>

locale period_ledger =
  fixes inv :: "'s \<Rightarrow> bool"
    and expected :: "'e \<Rightarrow> bool"
    and step :: "'e \<Rightarrow> 's \<Rightarrow> 's"
    and grants :: "'e \<Rightarrow> 's \<Rightarrow> bool"
    and period_of :: "'e \<Rightarrow> 's \<Rightarrow> nat"
    and key_of :: "'e \<Rightarrow> 's \<Rightarrow> 'k"
    and amount :: "'e \<Rightarrow> nat"
    and period :: "'s \<Rightarrow> 'k \<Rightarrow> nat"
    and spent :: "'s \<Rightarrow> 'k \<Rightarrow> nat"
    and cap :: "'s \<Rightarrow> nat"
  assumes keeps: "inv s \<Longrightarrow> expected e \<Longrightarrow> inv (step e s) \<and> cap (step e s) = cap s"
    and forward: "inv s \<Longrightarrow> expected e \<Longrightarrow> period s k < period (step e s) k \<or> period s k = period (step e s) k \<and> spent s k \<le> spent (step e s) k"
    and records: "inv s \<Longrightarrow> expected e \<Longrightarrow> grants e s \<Longrightarrow> key_of e s = k \<Longrightarrow>
      period (step e s) k = period_of e s
      \<and> (if period s k = period_of e s then spent s k else 0) + amount e \<le> spent (step e s) k
      \<and> spent (step e s) k \<le> cap s"
begin

text \<open>What was granted so far is covered by what is recorded.\<close>

definition covered :: "(nat \<Rightarrow> 'k \<Rightarrow> nat) \<Rightarrow> 's \<Rightarrow> bool" where
  "covered g s \<longleftrightarrow> (\<forall>d k. g d k \<le> cap s \<and> (d = period s k \<longrightarrow> g d k \<le> spent s k) \<and> (period s k < d \<longrightarrow> g d k = 0))"

lemma covered_step:
  assumes "inv s" "covered g s" "expected e"
  shows "covered (\<lambda>d k. g d k + (if grants e s \<and> period_of e s = d \<and> key_of e s = k then amount e else 0)) (step e s)"
  unfolding covered_def
proof (intro allI)
  fix d k
  define a where "a = (if grants e s \<and> period_of e s = d \<and> key_of e s = k then amount e else 0)"
  have g: "g d k \<le> cap s" "d = period s k \<Longrightarrow> g d k \<le> spent s k" "period s k < d \<Longrightarrow> g d k = 0"
    using assms(2) by (auto simp: covered_def)
  note fwd = forward [OF assms(1,3), of k] and same = keeps [OF assms(1,3), THEN conjunct2]
  have "g d k + a \<le> cap (step e s) \<and> (d = period (step e s) k \<longrightarrow> g d k + a \<le> spent (step e s) k)
    \<and> (period (step e s) k < d \<longrightarrow> g d k + a = 0)"
  proof (cases "grants e s \<and> period_of e s = d \<and> key_of e s = k")
    case True
    then have rec: "period (step e s) k = d" "(if period s k = d then spent s k else 0) + amount e \<le> spent (step e s) k"
      "spent (step e s) k \<le> cap s" "a = amount e"
      using records [OF assms(1,3), of k] by (simp_all add: a_def)
    have "g d k \<le> (if period s k = d then spent s k else 0)"
      using g fwd rec(1) by (cases "period s k = d") auto
    then show ?thesis
      using rec same by linarith
  next
    case False
    then have "a = 0"
      unfolding a_def by (rule if_not_P)
    then show ?thesis
      using g fwd same by (elim disjE) auto
  qed
  then show "g d k + (if grants e s \<and> period_of e s = d \<and> key_of e s = k then amount e else 0) \<le> cap (step e s) \<and>
    (d = period (step e s) k \<longrightarrow> g d k + (if grants e s \<and> period_of e s = d \<and> key_of e s = k then amount e else 0) \<le> spent (step e s) k) \<and>
    (period (step e s) k < d \<longrightarrow> g d k + (if grants e s \<and> period_of e s = d \<and> key_of e s = k then amount e else 0) = 0)"
    unfolding a_def .
qed

lemma granted_within_cap:
  assumes "inv s" "covered g s" "list_all expected es"
  shows "g d k + granted_total step grants period_of key_of amount d k s es \<le> cap s"
  using assms
proof (induction es arbitrary: s g)
  case Nil
  then show ?case by (simp add: covered_def)
next
  case (Cons e es)
  have e: "expected e" "list_all expected es"
    using Cons.prems(3) by simp_all
  have "inv (step e s)" "cap (step e s) = cap s"
    using keeps [OF Cons.prems(1) e(1)] by simp_all
  then show ?case
    using Cons.IH [OF _ covered_step [OF Cons.prems(1,2) e(1)] e(2)] by (simp only: granted_total.simps add.assoc)
qed

theorem grants_capped: "inv s \<Longrightarrow> list_all expected es \<Longrightarrow> granted_total step grants period_of key_of amount d k s es \<le> cap s"
  using granted_within_cap [of s "\<lambda>_ _. 0"] by (simp add: covered_def)

end

end
