(* ===== verification/Gateway_Wire.thy ===== *)
theory Gateway_Wire
  imports Proto
begin

text \<open>
  The error vocabulary of the gateway (\<^verbatim>\<open>gateway/src/proto.rs\<close>): which codes may
  appear on the HTTP wire, how an enclave code is coerced to one of them, and the
  status and the explanation a client gets for it.
\<close>

section \<open>Codes, statuses and explanations\<close>

definition WIRE_OK_ERROR_CODES :: "bytes list" where
  "WIRE_OK_ERROR_CODES =
     [''bad_request'', ''payload_too_large'', ''kms_decrypt_denied'', ''internal_error'', ''enclave_unreachable'',
      ''unauthorized'', ''rate_limited'', ''policy_denied'', ''policy_required'', ''context_required'',
      ''unimplemented_policy_field'', ''receipts_unavailable'', ''verify_failed'', ''action_not_allowed'',
      ''size_over_cap'', ''notional_over_cap'', ''withdrawal_not_signable'', ''daily_cap'']"

definition safe_wire_code :: "bytes \<Rightarrow> bytes" where
  "safe_wire_code code =
     (if code \<in> set WIRE_OK_ERROR_CODES then code
      else if starts_with code ''op_not_allowed:'' \<or> starts_with code ''param_not_allowed:'' then ''action_not_allowed''
      else ''internal_error'')"

definition http_status_for :: "bytes \<Rightarrow> nat" where
  "http_status_for code =
     (case map_of
        [(''bad_request'', 400), (''unauthorized'', 401), (''payload_too_large'', 413), (''kms_decrypt_denied'', 503),
         (''enclave_unreachable'', 503), (''rate_limited'', 429), (''verify_failed'', 502), (''policy_denied'', 403),
         (''policy_required'', 403), (''context_required'', 400), (''unimplemented_policy_field'', 501),
         (''receipts_unavailable'', 501), (''action_not_allowed'', 403), (''size_over_cap'', 403),
         (''notional_over_cap'', 403), (''withdrawal_not_signable'', 403), (''daily_cap'', 429), (''internal_error'', 500)]
        code of
        Some status \<Rightarrow> status
      | None \<Rightarrow> 403)"

definition denial_meta :: "bytes \<Rightarrow> bool \<times> bytes \<times> bytes" where
  "denial_meta code =
     (case map_of
        [(''action_not_allowed'', (True, ''policy'')), (''size_over_cap'', (True, ''policy'')),
         (''notional_over_cap'', (True, ''policy'')), (''withdrawal_not_signable'', (True, ''policy'')),
         (''policy_denied'', (True, ''policy'')), (''policy_required'', (True, ''policy'')),
         (''context_required'', (True, ''policy'')), (''unimplemented_policy_field'', (True, ''policy'')),
         (''rate_limited'', (True, ''rate'')), (''daily_cap'', (True, ''rate'')),
         (''tenant_cancel_only'', (True, ''tenant_state'')), (''tenant_halted'', (True, ''tenant_state'')),
         (''unauthorized'', (True, ''auth'')), (''kms_decrypt_denied'', (True, ''attestation'')),
         (''bad_request'', (False, ''request'')), (''payload_too_large'', (False, ''request'')),
         (''verify_failed'', (False, ''infra'')), (''receipts_unavailable'', (False, ''infra'')),
         (''enclave_unreachable'', (False, ''infra'')), (''internal_error'', (False, ''infra''))]
        code of
        Some (denied, rule_class) \<Rightarrow> (denied, code, rule_class)
      | None \<Rightarrow> (True, ''policy_denied'', ''policy''))"

record error_response =
  er_denied :: bool
  er_reason_code :: bytes
  er_rule_class :: bytes
  er_error :: bytes
  er_decided_by :: bytes
  er_receipt :: "json option"

definition error_response_new :: "bytes \<Rightarrow> error_response" where
  "error_response_new code =
     (case denial_meta code of
        (denied, reason_code, rule_class) \<Rightarrow>
          \<lparr>er_denied = denied, er_reason_code = reason_code, er_rule_class = rule_class, er_error = code,
           er_decided_by = ''gateway'', er_receipt = None\<rparr>)"

definition from_enclave :: "bytes \<Rightarrow> json option \<Rightarrow> error_response" where
  "from_enclave code receipt = (error_response_new code)\<lparr>er_decided_by := ''enclave'', er_receipt := receipt\<rparr>"

text \<open>\<^verbatim>\<open>error_response\<close> and \<^verbatim>\<open>enclave_error_response\<close> of \<^verbatim>\<open>handlers.rs\<close>: a status and a body.\<close>

type_synonym http_error = "nat \<times> error_response"

definition http_error :: "bytes \<Rightarrow> http_error" where
  "http_error code = (http_status_for code, error_response_new code)"

definition enclave_error_response :: "bytes \<Rightarrow> json option \<Rightarrow> http_error" where
  "enclave_error_response code receipt = (http_status_for code, from_enclave code receipt)"

section \<open>What a client can read off an error\<close>

lemmas wire_defs = safe_wire_code_def WIRE_OK_ERROR_CODES_def http_status_for_def denial_meta_def
  error_response_new_def from_enclave_def http_error_def enclave_error_response_def

lemma safe_wire_code_listed: "safe_wire_code code \<in> set WIRE_OK_ERROR_CODES"
  by (simp add: safe_wire_code_def WIRE_OK_ERROR_CODES_def)

text \<open>
  C14: What becomes of an enclave refusal on the wire.  Whatever string the enclave sends, the client sees a code of the
  allow-list.  Of the enclave's own codes, those of the registry and of key provisioning and the two refusals of the kill
  switch are not on that list and collapse to \<^verbatim>\<open>internal_error\<close>; all others arrive unchanged.  A request that
  the kill switch refused is therefore answered like a server fault: status 500, class \<^verbatim>\<open>infra\<close>, and marked as no denial.
\<close>

theorem enclave_refusals_on_wire:
  "safe_wire_code code \<in> set WIRE_OK_ERROR_CODES
   \<and> safe_wire_code (err_str c) =
      (if c \<in> {REGISTRY_NONCE_REJECTED, REGISTRY_SIGNATURE_REJECTED, REGISTRY_ENTRIES_REJECTED, REGISTRY_VERSION_REJECTED,
               PROVISION_KEY_DERIVATION_FAILED, PROVISION_WRAP_FAILED, PROVISION_SEAL_FAILED, MODE_CANCEL_ONLY, MODE_HALTED}
       then ''internal_error'' else err_str c)
   \<and> enclave_error_response (safe_wire_code (err_str MODE_HALTED)) receipt =
      (500, \<lparr>er_denied = False, er_reason_code = ''internal_error'', er_rule_class = ''infra'', er_error = ''internal_error'',
             er_decided_by = ''enclave'', er_receipt = receipt\<rparr>)
   \<and> enclave_error_response (safe_wire_code (err_str MODE_CANCEL_ONLY)) receipt
      = enclave_error_response (safe_wire_code (err_str MODE_HALTED)) receipt"
proof (intro conjI)
  show "safe_wire_code (err_str c) =
      (if c \<in> {REGISTRY_NONCE_REJECTED, REGISTRY_SIGNATURE_REJECTED, REGISTRY_ENTRIES_REJECTED, REGISTRY_VERSION_REJECTED,
               PROVISION_KEY_DERIVATION_FAILED, PROVISION_WRAP_FAILED, PROVISION_SEAL_FAILED, MODE_CANCEL_ONLY, MODE_HALTED}
       then ''internal_error'' else err_str c)"
    by (cases c) (simp_all add: safe_wire_code_def WIRE_OK_ERROR_CODES_def)
qed (simp_all add: safe_wire_code_listed wire_defs)

end
