(* ===== verification/Gateway_Limits.thy ===== *)
theory Gateway_Limits
  imports Durable_File Gateway_Wire Externals Text_Search
begin

text \<open>
  The gateway's limits (\<^verbatim>\<open>gateway/src/limits.rs\<close>): fixed-window rate buckets, the daily order counter and
  the daily x402 spend accumulator, their durable state, and the configuration read from the environment.
  The record \<^verbatim>\<open>limits\<close> holds the configuration and what the source keeps behind mutexes.  The JSON codecs of the
  two state files are generated by a crate and are parameters.
\<close>

section \<open>State\<close>

record daily_state =
  ds_day :: "64 word"
  ds_counts :: "bytes \<Rightarrow> 64 word option"

record x402_spend_state =
  xs_day :: "64 word"
  xs_spend :: "bytes \<Rightarrow> 128 word option"

record state_codecs = externals +
  de_daily_state :: "bytes \<Rightarrow> daily_state option"
  daily_state_text :: "daily_state \<Rightarrow> bytes option"
  de_x402_spend_state :: "bytes \<Rightarrow> x402_spend_state option"
  x402_spend_state_text :: "x402_spend_state \<Rightarrow> bytes option"

type_synonym rate_windows = "bytes \<Rightarrow> (64 word \<times> 32 word) option"

record limits =
  lm_daily_cap :: "64 word option"
  lm_counter_path :: "bytes option"
  lm_rate_per_min :: "32 word option"
  lm_orders_per_min :: "32 word option"
  lm_cancels_per_min :: "32 word option"
  lm_dry_run :: bool
  lm_rate :: rate_windows
  lm_orders_rate :: rate_windows
  lm_cancels_rate :: rate_windows
  lm_daily_state :: "daily_state option"
  lm_x402_period_cap :: "128 word option"
  lm_x402_spend_path :: "bytes option"
  lm_x402_spend_state :: "x402_spend_state option"

datatype limits_config_error =
  BadValue bytes bytes
| CounterPathRequired
| StrictProfileRequiresLimits bytes
| BlanketAndSplitBothSet
| X402SpendPathRequired

datatype limit_decision =
  Allow
| RateLimited "64 word"
| DailyCapExhausted "64 word"
| X402CapExhausted "64 word"
| CounterUnavailable

definition SECS_PER_DAY :: "64 word" where
  "SECS_PER_DAY = 86400"

definition SECS_PER_MINUTE :: "64 word" where
  "SECS_PER_MINUTE = 60"

definition limits_disabled :: limits where
  "limits_disabled =
     \<lparr>lm_daily_cap = None, lm_counter_path = None, lm_rate_per_min = None, lm_orders_per_min = None, lm_cancels_per_min = None,
      lm_dry_run = False, lm_rate = Map.empty, lm_orders_rate = Map.empty, lm_cancels_rate = Map.empty, lm_daily_state = None,
      lm_x402_period_cap = None, lm_x402_spend_path = None, lm_x402_spend_state = None\<rparr>"

section \<open>Configuration\<close>

text \<open>\<^verbatim>\<open>std::env::var\<close>: a variable that is not valid UTF-8 is an error, as an absent one is.\<close>

definition env_var :: "(bytes \<Rightarrow> bytes option) \<Rightarrow> bytes \<Rightarrow> bytes option" where
  "env_var env var = (case env var of None \<Rightarrow> None | Some v \<Rightarrow> if utf8_valid v then Some v else None)"

definition env_flag_enabled :: "(bytes \<Rightarrow> bytes option) \<Rightarrow> bytes \<Rightarrow> bool" where
  "env_flag_enabled env var =
     (case env_var env var of
        None \<Rightarrow> False
      | Some v \<Rightarrow> eq_ignore_ascii_case (trim v) ''1'' \<or> eq_ignore_ascii_case (trim v) ''true''
                  \<or> eq_ignore_ascii_case (trim v) ''yes'')"

text \<open>\<^verbatim>\<open>str::parse\<close> for an unsigned integer of \<open>n\<close> bits.\<close>

definition parse_uint :: "nat \<Rightarrow> bytes \<Rightarrow> nat option" where
  "parse_uint n s =
     (let ds = (if starts_with s ''+'' \<and> length s > 1 then tl s else s) in
      if ds \<noteq> [] \<and> list_all is_ascii_digit ds \<and> dec_val ds < 2 ^ n then Some (dec_val ds) else None)"

definition parse_positive_uint :: "nat \<Rightarrow> (bytes \<Rightarrow> bytes option) \<Rightarrow> bytes \<Rightarrow> (limits_config_error, nat option) result" where
  "parse_positive_uint n env var =
     (case env_var env var of
        None \<Rightarrow> Ok None
      | Some raw \<Rightarrow>
          (let raw = trim raw in
           if raw = [] then Ok None
           else case parse_uint n raw of
             Some v \<Rightarrow> if v > 0 then Ok (Some v) else Err (BadValue var raw)
           | None \<Rightarrow> Err (BadValue var raw)))"

definition parse_positive_u64 :: "(bytes \<Rightarrow> bytes option) \<Rightarrow> bytes \<Rightarrow> (limits_config_error, 64 word option) result" where
  "parse_positive_u64 env var =
     try_res (parse_positive_uint 64 env var) (\<lambda>v. Ok (map_option word_of_nat v))"

definition parse_positive_u128 :: "(bytes \<Rightarrow> bytes option) \<Rightarrow> bytes \<Rightarrow> (limits_config_error, 128 word option) result" where
  "parse_positive_u128 env var =
     try_res (parse_positive_uint 128 env var) (\<lambda>v. Ok (map_option word_of_nat v))"

definition parse_positive_u32 :: "(bytes \<Rightarrow> bytes option) \<Rightarrow> bytes \<Rightarrow> (limits_config_error, 32 word option) result" where
  "parse_positive_u32 env var =
     try_res (parse_positive_u64 env var) (\<lambda>v.
     case v of
       None \<Rightarrow> Ok None
     | Some x \<Rightarrow> if unat x > 2 ^ 32 - 1 then Err (BadValue var (show_nat (unat x))) else Ok (Some (ucast x)))"

definition env_path :: "(bytes \<Rightarrow> bytes option) \<Rightarrow> bytes \<Rightarrow> bytes option" where
  "env_path env var =
     (case env_var env var of None \<Rightarrow> None | Some s \<Rightarrow> if trim s = [] then None else Some (trim s))"

definition strict_profile_missing :: "limits \<Rightarrow> bytes list" where
  "strict_profile_missing lims =
     (let full_rate_control = lm_rate_per_min lims \<noteq> None \<or> (lm_orders_per_min lims \<noteq> None \<and> lm_cancels_per_min lims \<noteq> None) in
      (if lm_daily_cap lims = None then [''SIGNER_DAILY_ORDER_CAP''] else [])
      @ (if \<not> full_rate_control
         then [''a rate control (SIGNER_RATE_LIMIT_PER_MIN, or BOTH SIGNER_ORDERS_PER_MIN + SIGNER_CANCELS_PER_MIN)''] else [])
      @ (if lm_dry_run lims then [''SIGNER_LIMITS_DRY_RUN must be unset''] else []))"

definition limits_from_env :: "(bytes \<Rightarrow> bytes option) \<Rightarrow> (limits_config_error, limits) result" where
  "limits_from_env env =
     try_res (parse_positive_u64 env ''SIGNER_DAILY_ORDER_CAP'') (\<lambda>daily_cap.
     try_res (parse_positive_u32 env ''SIGNER_RATE_LIMIT_PER_MIN'') (\<lambda>rate_per_min.
     try_res (parse_positive_u32 env ''SIGNER_ORDERS_PER_MIN'') (\<lambda>orders_per_min.
     try_res (parse_positive_u32 env ''SIGNER_CANCELS_PER_MIN'') (\<lambda>cancels_per_min.
     let counter_path = env_path env ''SIGNER_DAILY_COUNTER_PATH'' in
     try_res (parse_positive_u128 env ''SIGNER_X402_PERIOD_CAP'') (\<lambda>x402_period_cap.
     let x402_spend_path = env_path env ''SIGNER_X402_SPEND_PATH'';
         lims = limits_disabled\<lparr>lm_daily_cap := daily_cap, lm_counter_path := counter_path, lm_rate_per_min := rate_per_min,
                 lm_orders_per_min := orders_per_min, lm_cancels_per_min := cancels_per_min,
                 lm_dry_run := env_flag_enabled env ''SIGNER_LIMITS_DRY_RUN'',
                 lm_x402_period_cap := x402_period_cap, lm_x402_spend_path := x402_spend_path\<rparr> in
     if daily_cap \<noteq> None \<and> counter_path = None then Err CounterPathRequired
     else if x402_period_cap \<noteq> None \<and> x402_spend_path = None then Err X402SpendPathRequired
     else if (orders_per_min \<noteq> None \<or> cancels_per_min \<noteq> None) \<and> rate_per_min \<noteq> None then Err BlanketAndSplitBothSet
     else if env_flag_enabled env ''SIGNER_REQUIRE_AUTH'' \<and> strict_profile_missing lims \<noteq> []
     then Err (StrictProfileRequiresLimits (join_with '', '' (strict_profile_missing lims)))
     else Ok lims)))))"

definition split_mode :: "limits \<Rightarrow> bool" where
  "split_mode lims \<longleftrightarrow> lm_orders_per_min lims \<noteq> None \<or> lm_cancels_per_min lims \<noteq> None"

definition blanket_rate_active :: "limits \<Rightarrow> bool" where
  "blanket_rate_active lims \<longleftrightarrow> lm_rate_per_min lims \<noteq> None \<and> \<not> split_mode lims"


section \<open>Rate buckets\<close>

definition token_key :: "'x externals_scheme \<Rightarrow> bytes \<Rightarrow> bytes" where
  "token_key X token = sha256 X token"

definition bucket_entry :: "64 word \<Rightarrow> (64 word \<times> 32 word) option \<Rightarrow> 64 word \<times> 32 word" where
  "bucket_entry window old = (case old of None \<Rightarrow> (window, 0) | Some e \<Rightarrow> if fst e \<noteq> window then (window, 0) else e)"

definition check_bucket ::
  "'x externals_scheme \<Rightarrow> bool \<Rightarrow> 32 word option \<Rightarrow> bytes \<Rightarrow> 64 word \<Rightarrow> rate_windows \<Rightarrow> limit_decision \<times> rate_windows" where
  "check_bucket X dry_run cap token now_secs windows =
     (case cap of
        None \<Rightarrow> (Allow, windows)
      | Some c \<Rightarrow>
          if now_secs = 0 then (if dry_run then Allow else CounterUnavailable, windows)
          else
            (let window = now_secs div SECS_PER_MINUTE;
                 retry_after_secs = SECS_PER_MINUTE - now_secs mod SECS_PER_MINUTE;
                 key = token_key X token;
                 entry = bucket_entry window (windows key) in
             if snd entry \<ge> c then (if dry_run then Allow else RateLimited retry_after_secs, windows(key \<mapsto> entry))
             else (Allow, windows(key \<mapsto> (fst entry, snd entry + 1)))))"

definition check_rate :: "'x externals_scheme \<Rightarrow> bytes \<Rightarrow> 64 word \<Rightarrow> limits \<Rightarrow> limit_decision \<times> limits" where
  "check_rate X token now_secs lims =
     (case check_bucket X (lm_dry_run lims) (lm_rate_per_min lims) token now_secs (lm_rate lims) of
        (d, w) \<Rightarrow> (d, lims\<lparr>lm_rate := w\<rparr>))"

definition check_orders_rate :: "'x externals_scheme \<Rightarrow> bytes \<Rightarrow> 64 word \<Rightarrow> limits \<Rightarrow> limit_decision \<times> limits" where
  "check_orders_rate X token now_secs lims =
     (case check_bucket X (lm_dry_run lims) (lm_orders_per_min lims) token now_secs (lm_orders_rate lims) of
        (d, w) \<Rightarrow> (d, lims\<lparr>lm_orders_rate := w\<rparr>))"

definition check_cancels_rate :: "'x externals_scheme \<Rightarrow> bytes \<Rightarrow> 64 word \<Rightarrow> limits \<Rightarrow> limit_decision \<times> limits" where
  "check_cancels_rate X token now_secs lims =
     (case check_bucket X (lm_dry_run lims) (lm_cancels_per_min lims) token now_secs (lm_cancels_rate lims) of
        (d, w) \<Rightarrow> (d, lims\<lparr>lm_cancels_rate := w\<rparr>))"

section \<open>The daily order counter\<close>

definition today :: "64 word \<Rightarrow> 64 word" where
  "today now_secs = now_secs div SECS_PER_DAY"

definition fail_closed :: "limits \<Rightarrow> limit_decision" where
  "fail_closed lims = (if lm_dry_run lims then Allow else CounterUnavailable)"

definition load_daily_state ::
  "'x state_codecs_scheme \<Rightarrow> bytes \<Rightarrow> 64 word \<Rightarrow> io_faults \<Rightarrow> files \<Rightarrow> (io_error, daily_state) result" where
  "load_daily_state X path day F fs =
     (case fs_read F fs path of
        Err NotFound \<Rightarrow> Ok \<lparr>ds_day = day, ds_counts = Map.empty\<rparr>
      | Err e \<Rightarrow> Err e
      | Ok raw \<Rightarrow>
          (case de_daily_state X raw of
             None \<Rightarrow> Err InvalidData
           | Some state \<Rightarrow>
               if ds_day state < day then Ok \<lparr>ds_day = day, ds_counts = Map.empty\<rparr>
               else if ds_day state = day then Ok state
               else Err InvalidData))"

definition store_daily_state ::
  "'x state_codecs_scheme \<Rightarrow> bytes \<Rightarrow> daily_state \<Rightarrow> io_faults \<Rightarrow> files \<Rightarrow> (io_error, unit) result \<times> files" where
  "store_daily_state X path state F fs =
     (case daily_state_text X state of
        None \<Rightarrow> (Err InvalidData, fs)
      | Some bs \<Rightarrow> atomic_write_bytes path bs F fs)"

text \<open>The state of today out of the cache or the file; the clock moving backwards is an error.\<close>

definition daily_state_for ::
  "'x state_codecs_scheme \<Rightarrow> bytes \<Rightarrow> 64 word \<Rightarrow> io_faults \<Rightarrow> files \<Rightarrow> daily_state option \<Rightarrow> (io_error, daily_state) result" where
  "daily_state_for X path day F fs cached =
     (case cached of
        Some s \<Rightarrow> if ds_day s = day then Ok s
                  else if ds_day s < day then Ok \<lparr>ds_day = day, ds_counts = Map.empty\<rparr>
                  else Err InvalidData
      | None \<Rightarrow> load_daily_state X path day F fs)"

definition daily_count :: "daily_state \<Rightarrow> bytes \<Rightarrow> 64 word" where
  "daily_count state key = (case ds_counts state key of None \<Rightarrow> 0 | Some n \<Rightarrow> n)"

definition check_and_count_order ::
  "'x state_codecs_scheme \<Rightarrow> bytes \<Rightarrow> 64 word \<Rightarrow> io_faults \<Rightarrow> limits \<Rightarrow> files \<Rightarrow> limit_decision \<times> limits \<times> files" where
  "check_and_count_order X token now_secs F lims fs =
     (case (lm_daily_cap lims, lm_counter_path lims) of
        (Some cap, Some path) \<Rightarrow>
          if now_secs = 0 then (fail_closed lims, lims, fs)
          else
            (let day = today now_secs;
                 retry_after_secs = SECS_PER_DAY - now_secs mod SECS_PER_DAY;
                 key_hex = hex_encode X (token_key X token) in
             case daily_state_for X path day F fs (lm_daily_state lims) of
               Err _ \<Rightarrow> (fail_closed lims, lims, fs)
             | Ok state \<Rightarrow>
                 (let count = daily_count state key_hex in
                  if count \<ge> cap \<and> \<not> lm_dry_run lims
                  then (DailyCapExhausted retry_after_secs,
                        lims\<lparr>lm_daily_state := Some (state\<lparr>ds_counts := (ds_counts state)(key_hex \<mapsto> count)\<rparr>)\<rparr>, fs)
                  else
                    (let state' = state\<lparr>ds_counts := (ds_counts state)(key_hex \<mapsto> count + 1)\<rparr>;
                         (stored, fs') = store_daily_state X path state' F fs;
                         lims' = lims\<lparr>lm_daily_state := Some state'\<rparr> in
                     case stored of
                       Err _ \<Rightarrow> (fail_closed lims, lims', fs')
                     | Ok _ \<Rightarrow> (Allow, lims', fs'))))
      | _ \<Rightarrow> (Allow, lims, fs))"

section \<open>The daily x402 spend\<close>

definition load_x402_spend_state ::
  "'x state_codecs_scheme \<Rightarrow> bytes \<Rightarrow> 64 word \<Rightarrow> io_faults \<Rightarrow> files \<Rightarrow> (io_error, x402_spend_state) result" where
  "load_x402_spend_state X path day F fs =
     (case fs_read F fs path of
        Err NotFound \<Rightarrow> Ok \<lparr>xs_day = day, xs_spend = Map.empty\<rparr>
      | Err e \<Rightarrow> Err e
      | Ok raw \<Rightarrow>
          (case de_x402_spend_state X raw of
             None \<Rightarrow> Err InvalidData
           | Some state \<Rightarrow>
               if xs_day state < day then Ok \<lparr>xs_day = day, xs_spend = Map.empty\<rparr>
               else if xs_day state = day then Ok state
               else Err InvalidData))"

definition store_x402_spend_state ::
  "'x state_codecs_scheme \<Rightarrow> bytes \<Rightarrow> x402_spend_state \<Rightarrow> io_faults \<Rightarrow> files \<Rightarrow> (io_error, unit) result \<times> files" where
  "store_x402_spend_state X path state F fs =
     (case x402_spend_state_text X state of
        None \<Rightarrow> (Err InvalidData, fs)
      | Some bs \<Rightarrow> atomic_write_bytes path bs F fs)"

definition x402_state_for ::
  "'x state_codecs_scheme \<Rightarrow> bytes \<Rightarrow> 64 word \<Rightarrow> io_faults \<Rightarrow> files \<Rightarrow> x402_spend_state option \<Rightarrow> (io_error, x402_spend_state) result" where
  "x402_state_for X path day F fs cached =
     (case cached of
        Some s \<Rightarrow> if xs_day s = day then Ok s
                  else if xs_day s < day then Ok \<lparr>xs_day = day, xs_spend = Map.empty\<rparr>
                  else Err InvalidData
      | None \<Rightarrow> load_x402_spend_state X path day F fs)"

definition x402_spent :: "x402_spend_state \<Rightarrow> bytes \<Rightarrow> 128 word" where
  "x402_spent state key = (case xs_spend state key of None \<Rightarrow> 0 | Some n \<Rightarrow> n)"

text \<open>\<^verbatim>\<open>u128::checked_add\<close>.\<close>

definition checked_add :: "128 word \<Rightarrow> 128 word \<Rightarrow> 128 word option" where
  "checked_add a b = (if unat a + unat b < 2 ^ 128 then Some (a + b) else None)"

definition check_and_count_x402_spend ::
  "'x state_codecs_scheme \<Rightarrow> bytes \<Rightarrow> 128 word \<Rightarrow> 64 word \<Rightarrow> io_faults \<Rightarrow> limits \<Rightarrow> files \<Rightarrow> limit_decision \<times> limits \<times> files" where
  "check_and_count_x402_spend X scope val now_secs F lims fs =
     (case (lm_x402_period_cap lims, lm_x402_spend_path lims) of
        (Some cap, Some path) \<Rightarrow>
          if now_secs = 0 then (fail_closed lims, lims, fs)
          else
            (let day = today now_secs;
                 retry_after_secs = SECS_PER_DAY - now_secs mod SECS_PER_DAY;
                 key_hex = hex_encode X (token_key X scope) in
             case x402_state_for X path day F fs (lm_x402_spend_state lims) of
               Err _ \<Rightarrow> (fail_closed lims, lims, fs)
             | Ok state \<Rightarrow>
                 (case checked_add (x402_spent state key_hex) val of
                    None \<Rightarrow> (fail_closed lims, lims\<lparr>lm_x402_spend_state := Some state\<rparr>, fs)
                  | Some new_total \<Rightarrow>
                      if new_total > cap \<and> \<not> lm_dry_run lims
                      then (X402CapExhausted retry_after_secs, lims\<lparr>lm_x402_spend_state := Some state\<rparr>, fs)
                      else
                        (let state' = state\<lparr>xs_spend := (xs_spend state)(key_hex \<mapsto> new_total)\<rparr>;
                             (stored, fs') = store_x402_spend_state X path state' F fs;
                             lims' = lims\<lparr>lm_x402_spend_state := Some state'\<rparr> in
                         case stored of
                           Err _ \<Rightarrow> (fail_closed lims, lims', fs')
                         | Ok _ \<Rightarrow> (Allow, lims', fs'))))
      | _ \<Rightarrow> (Allow, lims, fs))"


section \<open>Boot and answers\<close>

definition boot_probe_daily ::
  "'x state_codecs_scheme \<Rightarrow> 64 word \<Rightarrow> io_faults \<Rightarrow> limits \<Rightarrow> files \<Rightarrow> (io_error, unit) result \<times> limits \<times> files" where
  "boot_probe_daily X now_secs F lims fs =
     (case (lm_daily_cap lims, lm_counter_path lims) of
        (Some _, Some path) \<Rightarrow>
          (case load_daily_state X path (today now_secs) F fs of
             Err e \<Rightarrow> (Err e, lims, fs)
           | Ok state \<Rightarrow>
               (case store_daily_state X path state F fs of
                  (Err e, fs') \<Rightarrow> (Err e, lims, fs')
                | (Ok _, fs') \<Rightarrow> (Ok (), lims\<lparr>lm_daily_state := Some state\<rparr>, fs')))
      | _ \<Rightarrow> (Ok (), lims, fs))"

definition boot_probe_x402 ::
  "'x state_codecs_scheme \<Rightarrow> 64 word \<Rightarrow> io_faults \<Rightarrow> limits \<Rightarrow> files \<Rightarrow> (io_error, unit) result \<times> limits \<times> files" where
  "boot_probe_x402 X now_secs F lims fs =
     (case (lm_x402_period_cap lims, lm_x402_spend_path lims) of
        (Some _, Some path) \<Rightarrow>
          (case load_x402_spend_state X path (today now_secs) F fs of
             Err e \<Rightarrow> (Err e, lims, fs)
           | Ok state \<Rightarrow>
               (case store_x402_spend_state X path state F fs of
                  (Err e, fs') \<Rightarrow> (Err e, lims, fs')
                | (Ok _, fs') \<Rightarrow> (Ok (), lims\<lparr>lm_x402_spend_state := Some state\<rparr>, fs')))
      | _ \<Rightarrow> (Ok (), lims, fs))"

definition boot_probe ::
  "'x state_codecs_scheme \<Rightarrow> 64 word \<Rightarrow> 64 word \<Rightarrow> io_faults \<Rightarrow> io_faults \<Rightarrow> limits \<Rightarrow> files
     \<Rightarrow> (io_error, unit) result \<times> limits \<times> files" where
  "boot_probe X now_secs now_secs' F F' lims fs =
     (case boot_probe_daily X now_secs F lims fs of
        (Err e, lims', fs') \<Rightarrow> (Err e, lims', fs')
      | (Ok _, lims', fs') \<Rightarrow> boot_probe_x402 X now_secs' F' lims' fs')"

definition deny_code :: "limit_decision \<Rightarrow> bytes option" where
  "deny_code decision =
     (case decision of
        Allow \<Rightarrow> None
      | RateLimited _ \<Rightarrow> Some ''rate_limited''
      | DailyCapExhausted _ \<Rightarrow> Some ''rate_limited''
      | X402CapExhausted _ \<Rightarrow> Some ''rate_limited''
      | CounterUnavailable \<Rightarrow> Some ''internal_error'')"

definition retry_after :: "limit_decision \<Rightarrow> bytes option" where
  "retry_after decision =
     (case decision of
        RateLimited secs \<Rightarrow> Some (show_nat (unat secs))
      | DailyCapExhausted secs \<Rightarrow> Some (show_nat (unat secs))
      | X402CapExhausted secs \<Rightarrow> Some (show_nat (unat secs))
      | _ \<Rightarrow> None)"

definition deny_response :: "limit_decision \<Rightarrow> (http_error \<times> bytes option) option" where
  "deny_response decision =
     (case deny_code decision of
        None \<Rightarrow> None
      | Some code \<Rightarrow> Some (http_error code, retry_after decision))"

text \<open>The middleware: an answer, or \<^verbatim>\<open>None\<close> to go on to the handler.\<close>

definition rate_limit_mw ::
  "'x externals_scheme \<Rightarrow> bytes option \<Rightarrow> 64 word \<Rightarrow> limits \<Rightarrow> (http_error \<times> bytes option) option \<times> limits" where
  "rate_limit_mw X raw_token now_secs lims =
     (if \<not> blanket_rate_active lims then (None, lims)
      else case check_rate X (case raw_token of None \<Rightarrow> [] | Some t \<Rightarrow> t) now_secs lims of
        (decision, lims') \<Rightarrow> (deny_response decision, lims'))"

text \<open>
  The gates of the handlers (\<^verbatim>\<open>handlers.rs\<close>): an answer with its code, or \<^verbatim>\<open>None\<close> to go on.  Release builds abort on a panic, so the
  blocking task always joins.
\<close>

definition denied :: "limit_decision \<Rightarrow> ((http_error \<times> bytes option) \<times> bytes option) option" where
  "denied decision = map_option (\<lambda>r. (r, deny_code decision)) (deny_response decision)"

definition order_gate ::
  "'x state_codecs_scheme \<Rightarrow> bytes \<Rightarrow> 64 word \<Rightarrow> 64 word \<Rightarrow> io_faults \<Rightarrow> limits \<Rightarrow> files
     \<Rightarrow> ((http_error \<times> bytes option) \<times> bytes option) option \<times> limits \<times> files" where
  "order_gate X raw_token now_secs now_secs' F lims fs =
     (case check_orders_rate X raw_token now_secs lims of
        (rate, lims1) \<Rightarrow>
          if deny_response rate \<noteq> None then (denied rate, lims1, fs)
          else if lm_daily_cap lims1 = None then (None, lims1, fs)
          else (case check_and_count_order X raw_token now_secs' F lims1 fs of
                  (decision, lims2, fs2) \<Rightarrow> (denied decision, lims2, fs2)))"

definition cancel_gate ::
  "'x externals_scheme \<Rightarrow> bytes \<Rightarrow> 64 word \<Rightarrow> limits \<Rightarrow> ((http_error \<times> bytes option) \<times> bytes option) option \<times> limits" where
  "cancel_gate X raw_token now_secs lims =
     (case check_cancels_rate X raw_token now_secs lims of (decision, lims') \<Rightarrow> (denied decision, lims'))"

definition x402_spend_gate ::
  "'x state_codecs_scheme \<Rightarrow> bytes \<Rightarrow> 128 word \<Rightarrow> 64 word \<Rightarrow> io_faults \<Rightarrow> limits \<Rightarrow> files
     \<Rightarrow> ((http_error \<times> bytes option) \<times> bytes option) option \<times> limits \<times> files" where
  "x402_spend_gate X scope val now_secs F lims fs =
     (if lm_x402_period_cap lims = None then (None, lims, fs)
      else case check_and_count_x402_spend X scope val now_secs F lims fs of
        (decision, lims', fs') \<Rightarrow> (denied decision, lims', fs'))"

section \<open>Runs of the limiter\<close>

text \<open>
  What can happen to the limiter: an order, an x402 payment or a request to be judged, a restart, which
  forgets everything in memory and probes the state files, or a crash of the host followed by a restart.  Each reads the
  clock anew and meets its own faults.  A host that dies while a request is served is a crash right after it.
\<close>

datatype limit_event =
  OrderAttempt bytes "64 word" io_faults
| SpendAttempt bytes "128 word" "64 word" io_faults
| RequestAttempt bytes "64 word"
| Restart "64 word" "64 word" io_faults io_faults
| HostCrash "bytes \<Rightarrow> bool" "64 word" "64 word" io_faults io_faults

definition restarted :: "limits \<Rightarrow> limits" where
  "restarted lims = lims\<lparr>lm_rate := Map.empty, lm_orders_rate := Map.empty, lm_cancels_rate := Map.empty,
     lm_daily_state := None, lm_x402_spend_state := None\<rparr>"

type_synonym 'x limiter_world = "'x state_codecs_scheme \<times> limits \<times> files"

definition judge_restart :: "64 word \<Rightarrow> 64 word \<Rightarrow> io_faults \<Rightarrow> io_faults \<Rightarrow> 'x limiter_world \<Rightarrow> limit_decision \<times> 'x limiter_world" where
  "judge_restart now now' F F' s =
     (case s of (X, lims, fs) \<Rightarrow>
        (case boot_probe X now now' F F' (restarted lims) fs of
           (r, lims', fs') \<Rightarrow> (if is_ok r then Allow else CounterUnavailable, (X, lims', fs'))))"

fun judge_event :: "limit_event \<Rightarrow> 'x limiter_world \<Rightarrow> limit_decision \<times> 'x limiter_world" where
  "judge_event (OrderAttempt token now F) (X, lims, fs) =
     (case check_and_count_order X token now F lims fs of (d, lims', fs') \<Rightarrow> (d, (X, lims', fs')))"
| "judge_event (SpendAttempt scope val now F) (X, lims, fs) =
     (case check_and_count_x402_spend X scope val now F lims fs of (d, lims', fs') \<Rightarrow> (d, (X, lims', fs')))"
| "judge_event (RequestAttempt token now) (X, lims, fs) =
     (case check_rate X token now lims of (d, lims') \<Rightarrow> (d, (X, lims', fs)))"
| "judge_event (Restart now now' F F') s = judge_restart now now' F F' s"
| "judge_event (HostCrash keep now now' F F') (X, lims, fs) = judge_restart now now' F F' (X, lims, host_crash keep fs)"

definition limit_step :: "limit_event \<Rightarrow> 'x limiter_world \<Rightarrow> 'x limiter_world" where
  "limit_step e s = snd (judge_event e s)"

section \<open>Frames\<close>

text \<open>
  Two kinds of runs: in the first the host does not crash, in the second it may, and every directory sync works.
\<close>

fun survivable :: "bool \<Rightarrow> limit_event \<Rightarrow> bool" where
  "survivable crashes (OrderAttempt _ _ F) = (crashes \<longrightarrow> \<not> io_dirsync F)"
| "survivable crashes (SpendAttempt _ _ _ F) = (crashes \<longrightarrow> \<not> io_dirsync F)"
| "survivable crashes (RequestAttempt _ _) = True"
| "survivable crashes (Restart _ _ F F') = (crashes \<longrightarrow> \<not> io_dirsync F \<and> \<not> io_dirsync F')"
| "survivable crashes (HostCrash _ _ _ F F') = (crashes \<and> \<not> io_dirsync F \<and> \<not> io_dirsync F')"

definition paths_apart :: "bytes \<Rightarrow> bytes option \<Rightarrow> bool" where
  "paths_apart p other \<longleftrightarrow> (case other of None \<Rightarrow> True | Some q \<Rightarrow> p \<noteq> q \<and> p \<noteq> q @ ''.tmp'')"

lemma unat_bound: "unat (w :: 'a::len word) < 2 ^ LENGTH('a)"
  by (rule unsigned_less)

text \<open>What the other events leave alone.\<close>

lemma order_frame:
  assumes "check_and_count_order X token now F lims fs = (d, lims', fs')"
  shows "lims' = lims\<lparr>lm_daily_state := lm_daily_state lims'\<rparr> \<and> (paths_apart p (lm_counter_path lims) \<longrightarrow> fs_live fs' p = fs_live fs p)"
  using assms atomic_write_frame [where p = p]
  by (auto simp: check_and_count_order_def store_daily_state_def Let_def paths_apart_def split: option.splits if_splits sum.splits prod.splits)

lemma spend_frame:
  assumes "check_and_count_x402_spend X scope val now F lims fs = (d, lims', fs')"
  shows "lims' = lims\<lparr>lm_x402_spend_state := lm_x402_spend_state lims'\<rparr> \<and> (paths_apart p (lm_x402_spend_path lims) \<longrightarrow> fs_live fs' p = fs_live fs p)"
  using assms atomic_write_frame [where p = p]
  by (auto simp: check_and_count_x402_spend_def store_x402_spend_state_def Let_def paths_apart_def
      split: option.splits if_splits sum.splits prod.splits)

lemma boot_daily_frame:
  assumes "boot_probe_daily X now F lims fs = (r, lims', fs')"
  shows "lims' = lims\<lparr>lm_daily_state := lm_daily_state lims'\<rparr> \<and> (paths_apart p (lm_counter_path lims) \<longrightarrow> fs_live fs' p = fs_live fs p)"
  using assms atomic_write_frame [where p = p]
  by (auto simp: boot_probe_daily_def store_daily_state_def paths_apart_def split: option.splits if_splits sum.splits prod.splits)

lemma boot_x402_frame:
  assumes "boot_probe_x402 X now F lims fs = (r, lims', fs')"
  shows "lims' = lims\<lparr>lm_x402_spend_state := lm_x402_spend_state lims'\<rparr> \<and> (paths_apart p (lm_x402_spend_path lims) \<longrightarrow> fs_live fs' p = fs_live fs p)"
  using assms atomic_write_frame [where p = p]
  by (auto simp: boot_probe_x402_def store_x402_spend_state_def paths_apart_def split: option.splits if_splits sum.splits prod.splits)

text \<open>With the directories synced, every operation keeps a durable file durable.\<close>

definition in_synced_dir :: "bytes \<Rightarrow> bytes option \<Rightarrow> bool" where
  "in_synced_dir p path \<longleftrightarrow> (case path of None \<Rightarrow> True | Some q \<Rightarrow> p \<noteq> q @ ''.tmp'' \<and> (p = q \<longrightarrow> has_parent_dir p))"

lemma order_durable:
  assumes "check_and_count_order X token now F lims fs = (d, lims', fs')" "\<not> io_dirsync F" "durable p fs"
    and "in_synced_dir p (lm_counter_path lims)"
  shows "durable p fs'"
  using assms atomic_write_durable [where p = p]
  by (auto simp: check_and_count_order_def store_daily_state_def Let_def in_synced_dir_def split: option.splits if_splits sum.splits prod.splits)

lemma spend_durable:
  assumes "check_and_count_x402_spend X scope val now F lims fs = (d, lims', fs')" "\<not> io_dirsync F" "durable p fs"
    and "in_synced_dir p (lm_x402_spend_path lims)"
  shows "durable p fs'"
  using assms atomic_write_durable [where p = p]
  by (auto simp: check_and_count_x402_spend_def store_x402_spend_state_def Let_def in_synced_dir_def
      split: option.splits if_splits sum.splits prod.splits)

lemma boot_durable:
  assumes "boot_probe X now now' F F' lims fs = (r, lims', fs')" "\<not> io_dirsync F" "\<not> io_dirsync F'" "durable p fs"
    and "in_synced_dir p (lm_counter_path lims)" "in_synced_dir p (lm_x402_spend_path lims)"
  shows "durable p fs'"
proof -
  obtain r1 lims1 fs1 where b1: "boot_probe_daily X now F lims fs = (r1, lims1, fs1)"
    by (cases "boot_probe_daily X now F lims fs")
  have d1: "durable p fs1"
    using b1 assms(2,4,5) atomic_write_durable [where p = p]
    by (auto simp: boot_probe_daily_def store_daily_state_def in_synced_dir_def split: option.splits if_splits sum.splits prod.splits)
  have path: "lm_x402_spend_path lims1 = lm_x402_spend_path lims"
    using boot_daily_frame [OF b1] by (metis limits.select_convs limits.surjective limits.update_convs)
  have "durable p fs'" if "boot_probe_x402 X now' F' lims1 fs1 = (r, lims', fs')"
    using that d1 assms(3,6) atomic_write_durable [where p = p]
    by (auto simp: boot_probe_x402_def store_x402_spend_state_def in_synced_dir_def path split: option.splits if_splits sum.splits prod.splits)
  then show ?thesis
    using assms(1) b1 d1 by (auto simp: boot_probe_def split: sum.splits)
qed

lemma limit_step_durable:
  assumes "survivable True e" "durable p fs" "in_synced_dir p (lm_counter_path lims)" "in_synced_dir p (lm_x402_spend_path lims)"
  shows "durable p (snd (snd (limit_step e (X, lims, fs))))"
proof (cases e)
  case (OrderAttempt token now F)
  then show ?thesis
    using order_durable [of X token now F lims fs] assms by (simp add: limit_step_def split: prod.split)
next
  case (SpendAttempt scope val now F)
  then show ?thesis
    using spend_durable [of X scope val now F lims fs] assms by (simp add: limit_step_def split: prod.split)
next
  case (Restart now now' F F')
  then show ?thesis
    using boot_durable [of X now now' F F' "restarted lims" fs] assms
    by (simp add: limit_step_def judge_restart_def restarted_def split: prod.split)
next
  case (HostCrash keep now now' F F')
  then show ?thesis
    using boot_durable [of X now now' F F' "restarted lims" "host_crash keep fs"] host_crash_durable(2) [OF assms(2)] assms
    by (simp add: limit_step_def judge_restart_def restarted_def split: prod.split)
qed (use assms in \<open>simp add: limit_step_def split: prod.split\<close>)

lemma limit_step_paths:
  assumes "limit_step e (X, lims, fs) = (X', lims', fs')"
  shows "lm_counter_path lims' = lm_counter_path lims \<and> lm_x402_spend_path lims' = lm_x402_spend_path lims"
proof -
  have boot: "lm_counter_path lims' = lm_counter_path lims \<and> lm_x402_spend_path lims' = lm_x402_spend_path lims"
    if "boot_probe X now now' F F' (restarted lims) fs = (r, lims', fs')" for now now' F F' fs r
    using that
    by (auto simp: boot_probe_def boot_probe_daily_def boot_probe_x402_def restarted_def split: option.splits sum.splits prod.splits)
  show ?thesis
  proof (cases e)
    case (OrderAttempt token now F)
    then obtain d where "check_and_count_order X token now F lims fs = (d, lims', fs')"
      using assms by (auto simp: limit_step_def split: prod.splits)
    from order_frame [OF this] obtain c where "lims' = lims\<lparr>lm_daily_state := c\<rparr>"
      by blast
    then show ?thesis by simp
  next
    case (SpendAttempt scope val now F)
    then obtain d where "check_and_count_x402_spend X scope val now F lims fs = (d, lims', fs')"
      using assms by (auto simp: limit_step_def split: prod.splits)
    from spend_frame [OF this] obtain c where "lims' = lims\<lparr>lm_x402_spend_state := c\<rparr>"
      by blast
    then show ?thesis by simp
  qed (use assms boot in \<open>auto simp: limit_step_def judge_restart_def check_rate_def split: prod.splits\<close>)
qed

text \<open>A state file that a crash of the host leaves as it is.\<close>

definition durable_at :: "bytes option \<Rightarrow> files \<Rightarrow> bool" where
  "durable_at path fs \<longleftrightarrow> (case path of None \<Rightarrow> True | Some p \<Rightarrow> has_parent_dir p \<and> durable p fs)"

section \<open>The strict profile\<close>

lemma parse_uint_bound: "parse_uint n s = Some v \<Longrightarrow> v < 2 ^ n"
  by (auto simp: parse_uint_def Let_def split: if_splits)

lemma parse_positive_u64_pos:
  assumes "parse_positive_u64 env var = Ok (Some v)"
  shows "0 < v"
proof -
  obtain n where n: "v = word_of_nat n" "parse_positive_uint 64 env var = Ok (Some n)"
    using assms by (auto simp: parse_positive_u64_def result_simps)
  then have "0 < n" "n < 2 ^ 64"
    by (auto simp: parse_positive_uint_def Let_def dest: parse_uint_bound split: option.splits if_splits)
  then have "v \<noteq> 0"
    by (auto simp: n(1) word_of_nat_eq_0_iff dest: nat_dvd_not_less)
  then show ?thesis
    by (simp add: word_gt_0)
qed

lemma parse_positive_u32_pos:
  assumes "parse_positive_u32 env var = Ok (Some v)"
  shows "0 < v"
proof -
  obtain x where x: "parse_positive_u64 env var = Ok (Some x)" "unat x < 2 ^ 32" "v = ucast x"
    using assms by (auto simp: parse_positive_u32_def result_simps not_less split: option.splits if_splits)
  then have "unat v = unat x"
    by (simp add: unsigned_ucast_eq take_bit_nat_eq_self)
  then show ?thesis
    using parse_positive_u64_pos [OF x(1)] by (simp add: word_less_nat_alt)
qed

text \<open>
  C13: A strict gateway boots only with its limits in force.  When \<^verbatim>\<open>SIGNER_REQUIRE_AUTH\<close> is set and the configuration
  is accepted, the daily cap is a positive number with a counter file, dry-run is off, and the rate is controlled in one
  of two ways: by one positive blanket rate and no split rates, or by a positive rate for order-placing requests
  and a positive rate for cancels and then no blanket rate.  (In the second case requests of neither class, such as account
  reads, x402 payments and opaque generic bodies, take no bucket.)  Nothing is counted yet.
\<close>

theorem strict_profile_enforces:
  assumes "limits_from_env env = Ok lims" "env_flag_enabled env ''SIGNER_REQUIRE_AUTH''"
  shows "\<exists>cap path. lm_daily_cap lims = Some cap \<and> 0 < cap \<and> lm_counter_path lims = Some path \<and> path \<noteq> []
    \<and> \<not> lm_dry_run lims
    \<and> ((\<exists>rate. lm_rate_per_min lims = Some rate \<and> 0 < rate \<and> lm_orders_per_min lims = None \<and> lm_cancels_per_min lims = None)
       \<or> (\<exists>orders cancels. lm_orders_per_min lims = Some orders \<and> 0 < orders
            \<and> lm_cancels_per_min lims = Some cancels \<and> 0 < cancels \<and> lm_rate_per_min lims = None))
    \<and> lm_daily_state lims = None"
proof -
  obtain daily_cap where cap: "parse_positive_u64 env ''SIGNER_DAILY_ORDER_CAP'' = Ok daily_cap" "lm_daily_cap lims = daily_cap"
    and path: "lm_counter_path lims = env_path env ''SIGNER_DAILY_COUNTER_PATH''" "daily_cap \<noteq> None \<Longrightarrow> lm_counter_path lims \<noteq> None"
    and rates: "parse_positive_u32 env ''SIGNER_RATE_LIMIT_PER_MIN'' = Ok (lm_rate_per_min lims)"
      "parse_positive_u32 env ''SIGNER_ORDERS_PER_MIN'' = Ok (lm_orders_per_min lims)"
      "parse_positive_u32 env ''SIGNER_CANCELS_PER_MIN'' = Ok (lm_cancels_per_min lims)"
    and split: "lm_orders_per_min lims \<noteq> None \<or> lm_cancels_per_min lims \<noteq> None \<Longrightarrow> lm_rate_per_min lims = None"
    and strict: "strict_profile_missing lims = []" and fresh: "lm_daily_state lims = None"
    using assms by (auto simp: limits_from_env_def limits_disabled_def result_simps Let_def split: if_splits)
  from strict have on: "daily_cap \<noteq> None" "\<not> lm_dry_run lims"
    and rate: "lm_rate_per_min lims \<noteq> None \<or> lm_orders_per_min lims \<noteq> None \<and> lm_cancels_per_min lims \<noteq> None"
    by (auto simp: strict_profile_missing_def cap(2) Let_def split: if_splits)
  from on(1) cap obtain c where c: "daily_cap = Some c" "0 < c"
    using parse_positive_u64_pos by blast
  have pos: "\<And>v. lm_rate_per_min lims = Some v \<Longrightarrow> 0 < v" "\<And>v. lm_orders_per_min lims = Some v \<Longrightarrow> 0 < v"
    "\<And>v. lm_cancels_per_min lims = Some v \<Longrightarrow> 0 < v"
    using rates parse_positive_u32_pos by metis+
  have "(\<exists>rate. lm_rate_per_min lims = Some rate \<and> 0 < rate \<and> lm_orders_per_min lims = None \<and> lm_cancels_per_min lims = None)
       \<or> (\<exists>orders cancels. lm_orders_per_min lims = Some orders \<and> 0 < orders
            \<and> lm_cancels_per_min lims = Some cancels \<and> 0 < cancels \<and> lm_rate_per_min lims = None)"
    using rate split pos by (cases "lm_rate_per_min lims"; cases "lm_orders_per_min lims"; cases "lm_cancels_per_min lims") auto
  then show ?thesis
    using path cap(2) fresh on c by (auto simp: env_path_def split: option.splits if_splits)
qed


text \<open>A strict environment: a daily cap, its file, and a blanket rate.\<close>

definition sample_strict_env :: "bytes \<Rightarrow> bytes option" where
  "sample_strict_env = [''SIGNER_REQUIRE_AUTH'' \<mapsto> ''1'', ''SIGNER_DAILY_ORDER_CAP'' \<mapsto> ''500'',
     ''SIGNER_DAILY_COUNTER_PATH'' \<mapsto> ''/c'', ''SIGNER_RATE_LIMIT_PER_MIN'' \<mapsto> ''60'']"

lemma sample_trim: "trim ''1'' = ''1''" "trim ''500'' = ''500''" "trim ''/c'' = ''/c''" "trim ''60'' = ''60''"
  by (intro trim_graphic, code_simp)+

lemma sample_env_var:
  "env_var sample_strict_env ''SIGNER_REQUIRE_AUTH'' = Some ''1''" "env_var sample_strict_env ''SIGNER_DAILY_ORDER_CAP'' = Some ''500''"
  "env_var sample_strict_env ''SIGNER_DAILY_COUNTER_PATH'' = Some ''/c''" "env_var sample_strict_env ''SIGNER_RATE_LIMIT_PER_MIN'' = Some ''60''"
  "env_var sample_strict_env ''SIGNER_ORDERS_PER_MIN'' = None" "env_var sample_strict_env ''SIGNER_CANCELS_PER_MIN'' = None"
  "env_var sample_strict_env ''SIGNER_X402_PERIOD_CAP'' = None" "env_var sample_strict_env ''SIGNER_X402_SPEND_PATH'' = None"
  "env_var sample_strict_env ''SIGNER_LIMITS_DRY_RUN'' = None"
  by (simp_all add: sample_strict_env_def env_var_def utf8_valid_ascii)

lemma sample_parse: "parse_uint 64 ''500'' = Some 500" "parse_uint 64 ''60'' = Some 60"
  by (simp_all add: parse_uint_def dec_val_def digit_val_def is_ascii_digit_def)

lemma sample_flag: "eq_ignore_ascii_case ''1'' ''1''"
  by code_simp

theorem strict_profile_enforces_witness:
  "\<exists>lims cap. limits_from_env sample_strict_env = Ok lims \<and> lm_daily_cap lims = Some cap \<and> 0 < cap \<and> \<not> lm_dry_run lims
     \<and> lm_rate_per_min lims \<noteq> None"
proof -
  have strict: "env_flag_enabled sample_strict_env ''SIGNER_REQUIRE_AUTH''"
    by (simp add: env_flag_enabled_def sample_env_var sample_trim sample_flag)
  obtain lims where lims: "limits_from_env sample_strict_env = Ok lims" "lm_orders_per_min lims = None"
    by (simp add: limits_from_env_def parse_positive_u64_def parse_positive_u32_def parse_positive_u128_def parse_positive_uint_def
        env_path_def env_flag_enabled_def sample_env_var sample_trim sample_parse sample_flag strict_profile_missing_def limits_disabled_def Let_def)
  show ?thesis
    using strict_profile_enforces [OF lims(1) strict] lims by auto
qed

end
