(* ===== verification/Day_Record.thy ===== *)
theory Day_Record
  imports Durable_File
begin

text \<open>
  The common part of the gateway's two daily ledgers.  A ledger records, for one day, an amount per key; it
  keeps a copy in memory and one in a file.  What a ledger does to the two is one of three moves, and the moves
  alone give the forward law of a period ledger.
\<close>

record 'd ledger_view =
  lv_ready :: bool
  lv_cap :: nat
  lv_cache :: "'d option"
  lv_file :: "'d option"

locale day_record =
  fixes day_of :: "'d \<Rightarrow> 64 word"
    and amount_of :: "'d \<Rightarrow> bytes \<Rightarrow> nat"
begin

text \<open>A record that is of a later day, or of the same day and nowhere smaller.\<close>

definition le :: "'d option \<Rightarrow> 'd \<Rightarrow> bool" where
  "le old new \<longleftrightarrow>
     (case old of
        None \<Rightarrow> True
      | Some r \<Rightarrow> day_of r < day_of new \<or> day_of r = day_of new \<and> (\<forall>k. amount_of r k \<le> amount_of new k))"

lemma le_refl [simp]: "le (Some r) r" and le_None [simp]: "le None r"
  by (simp_all add: le_def)

lemma le_later: "le old r \<Longrightarrow> day_of r < day_of r' \<Longrightarrow> le old r'"
  by (auto simp: le_def split: option.splits)

lemma le_more: "le old r \<Longrightarrow> day_of r' = day_of r \<Longrightarrow> (\<And>k. amount_of r k \<le> amount_of r' k) \<Longrightarrow> le old r'"
  by (auto simp: le_def intro: order_trans split: option.splits)

lemma le_trans: "le old r \<Longrightarrow> le (Some r) r' \<Longrightarrow> le old r'"
  by (cases old) (auto simp: le_def intro: order_trans)

text \<open>The ledger is set up, and its memory is never behind its file.\<close>

definition ok :: "'d ledger_view \<Rightarrow> bool" where
  "ok v \<longleftrightarrow> lv_ready v \<and> (\<forall>r. lv_cache v = Some r \<longrightarrow> le (lv_file v) r)"

text \<open>The moves: nothing is recorded, only the memory records, or both do.\<close>

inductive move :: "'d ledger_view \<Rightarrow> 'd ledger_view \<Rightarrow> bool" where
  idle: "c = lv_cache v \<or> c = None \<Longrightarrow> move v (v\<lparr>lv_cache := c\<rparr>)"
| cached: "le (lv_file v) r \<Longrightarrow> move v (v\<lparr>lv_cache := Some r\<rparr>)"
| written: "le (lv_file v) r \<Longrightarrow> move v (v\<lparr>lv_cache := Some r, lv_file := Some r\<rparr>)"

lemma move_keeps: "move v v' \<Longrightarrow> ok v \<Longrightarrow> ok v' \<and> lv_cap v' = lv_cap v"
  by (induction rule: move.induct) (auto simp: ok_def)

lemma move_file: "move v v' \<Longrightarrow> lv_file v' = lv_file v \<or> (\<exists>r. lv_file v' = Some r \<and> le (lv_file v) r)"
  by (induction rule: move.induct) auto

lemma moves_keep: "move\<^sup>*\<^sup>* v v' \<Longrightarrow> ok v \<Longrightarrow> ok v' \<and> lv_cap v' = lv_cap v"
  by (induction rule: rtranclp_induct) (auto dest: move_keeps)

lemma moves_file: "move\<^sup>*\<^sup>* v v' \<Longrightarrow> lv_file v' = lv_file v \<or> (\<exists>r. lv_file v' = Some r \<and> le (lv_file v) r)"
proof (induction rule: rtranclp_induct)
  case (step v' v'')
  then show ?case
    using move_file [OF step(2)] le_trans by metis
qed simp

text \<open>What the file says, as a period ledger reads it.\<close>

definition period :: "'d ledger_view \<Rightarrow> nat" where
  "period v = (case lv_file v of None \<Rightarrow> 0 | Some r \<Rightarrow> unat (day_of r))"

definition amount :: "'d ledger_view \<Rightarrow> bytes \<Rightarrow> nat" where
  "amount v k = (case lv_file v of None \<Rightarrow> 0 | Some r \<Rightarrow> amount_of r k)"

lemma forward_of_file:
  assumes "lv_file v' = lv_file v \<or> (\<exists>r. lv_file v' = Some r \<and> le (lv_file v) r)"
  shows "period v < period v' \<or> period v = period v' \<and> amount v k \<le> amount v' k"
  using assms by (auto simp: period_def amount_def le_def word_less_nat_alt split: option.splits)

lemma moves_forward: "move\<^sup>*\<^sup>* v v' \<Longrightarrow> period v < period v' \<or> period v = period v' \<and> amount v k \<le> amount v' k"
  by (rule forward_of_file) (rule moves_file)

text \<open>A grant: today's record, no smaller than the file, with the amount added for one key.\<close>

lemma grant_recorded:
  assumes "le (lv_file v) r" "lv_file v' = Some r'" "day_of r' = day_of r" "amount_of r' k = amount_of r k + a"
  shows "period v' = unat (day_of r)" "(if period v = unat (day_of r) then amount v k else 0) + a \<le> amount v' k"
proof -
  show "period v' = unat (day_of r)"
    by (simp add: period_def assms(2,3))
  have "(if period v = unat (day_of r) then amount v k else 0) \<le> amount_of r k"
    using assms(1) by (auto simp: period_def amount_def le_def word_less_nat_alt split: option.splits)
  then show "(if period v = unat (day_of r) then amount v k else 0) + a \<le> amount v' k"
    using assms(4) by (simp add: amount_def assms(2))
qed

end

end
