(* ===== verification/Order_Ledger.thy ===== *)
theory Order_Ledger
  imports Gateway_Limits Day_Record
begin

text \<open>
  The daily order counter keeps the contract of a period ledger: restarts, failing disks and clocks that
  move backwards included, no token is granted more order-placing requests in a UTC day than the cap.  A crash of the host is
  covered where the directory of the counter file can be synced.
\<close>

section \<open>The counter as a day record\<close>

interpretation daily: day_record ds_day "\<lambda>st k. unat (daily_count st k)" .

text \<open>
  The counter is ready when it is configured and enforcing, its file is nobody else's, and its codec reads back what it
  wrote.
\<close>

definition orders_view :: "'x limiter_world \<Rightarrow> daily_state ledger_view" where
  "orders_view s =
     (case s of (X, lims, fs) \<Rightarrow>
        \<lparr>lv_ready = ((\<forall>st b. daily_state_text X st = Some b \<longrightarrow> de_daily_state X b = Some st)
           \<and> \<not> lm_dry_run lims \<and> lm_daily_cap lims \<noteq> None
           \<and> (\<exists>p. lm_counter_path lims = Some p \<and> paths_apart p (lm_x402_spend_path lims))),
         lv_cap = (case lm_daily_cap lims of None \<Rightarrow> 0 | Some c \<Rightarrow> unat c),
         lv_cache = lm_daily_state lims,
         lv_file = (case lm_counter_path lims of
                      None \<Rightarrow> None
                    | Some p \<Rightarrow> (case fs_live fs p of None \<Rightarrow> None | Some b \<Rightarrow> de_daily_state X b))\<rparr>)"

definition orders_inv :: "'x limiter_world \<Rightarrow> bool" where
  "orders_inv s \<longleftrightarrow> daily.ok (orders_view s)"

lemma orders_invE:
  assumes "orders_inv (X, lims, fs)"
  obtains p cap where "lm_counter_path lims = Some p" "paths_apart p (lm_x402_spend_path lims)" "lm_daily_cap lims = Some cap"
    "\<not> lm_dry_run lims"
  using assms by (auto simp: orders_inv_def daily.ok_def orders_view_def)

lemma load_daily_state_le:
  assumes "load_daily_state X p day F fs = Ok st" "lm_counter_path lims = Some p"
  shows "ds_day st = day \<and> daily.le (lv_file (orders_view (X, lims, fs))) st"
  using assms
  by (auto simp: load_daily_state_def fs_read_def orders_view_def daily.le_def
      split: if_splits option.splits io_error.splits sum.splits)

lemma daily_state_for_le:
  assumes "daily_state_for X p day F fs (lm_daily_state lims) = Ok st" "orders_inv (X, lims, fs)" "lm_counter_path lims = Some p"
  shows "ds_day st = day \<and> daily.le (lv_file (orders_view (X, lims, fs))) st"
proof (cases "lm_daily_state lims")
  case None
  then show ?thesis
    using load_daily_state_le [of X p day F fs st lims] assms(1,3) by (simp add: daily_state_for_def)
next
  case (Some c)
  moreover from this assms(2) have "daily.le (lv_file (orders_view (X, lims, fs))) c"
    by (simp add: orders_inv_def daily.ok_def orders_view_def)
  ultimately show ?thesis
    using assms(1) by (auto simp: daily_state_for_def intro: daily.le_later split: if_splits)
qed

lemma store_daily_state_moves:
  assumes store: "store_daily_state X p st F fs = (r, fs')" and inv: "orders_inv (X, lims, fs)" and p: "lm_counter_path lims = Some p"
    and le: "daily.le (lv_file (orders_view (X, lims, fs))) st"
  shows "daily.move (orders_view (X, lims, fs)) (orders_view (X, lims\<lparr>lm_daily_state := Some st\<rparr>, fs'))"
    and "is_ok r \<Longrightarrow> lv_file (orders_view (X, lims\<lparr>lm_daily_state := Some st\<rparr>, fs')) = Some st"
    and "\<not> is_ok r \<Longrightarrow> orders_view (X, lims, fs') = orders_view (X, lims, fs)"
proof -
  have fl: "(case fs_live fs' p of None \<Rightarrow> None | Some b \<Rightarrow> de_daily_state X b)
      = (if is_ok r then Some st else case fs_live fs p of None \<Rightarrow> None | Some b \<Rightarrow> de_daily_state X b)"
    using store inv atomic_write_target [of p _ F fs r fs']
    by (auto simp: store_daily_state_def orders_inv_def daily.ok_def orders_view_def split: option.splits)
  let ?v = "orders_view (X, lims, fs)"
  have "orders_view (X, lims\<lparr>lm_daily_state := Some st\<rparr>, fs')
      = (if is_ok r then ?v\<lparr>lv_cache := Some st, lv_file := Some st\<rparr> else ?v\<lparr>lv_cache := Some st\<rparr>)"
    using fl p by (simp add: orders_view_def)
  then show "daily.move ?v (orders_view (X, lims\<lparr>lm_daily_state := Some st\<rparr>, fs'))"
    using daily.move.cached [OF le] daily.move.written [OF le] by simp
  show "is_ok r \<Longrightarrow> lv_file (orders_view (X, lims\<lparr>lm_daily_state := Some st\<rparr>, fs')) = Some st"
    and "\<not> is_ok r \<Longrightarrow> orders_view (X, lims, fs') = ?v"
    using fl p by (simp_all add: orders_view_def)
qed

text \<open>An attempt counts one more order of today in the memory and, when it is granted, in the file.\<close>

definition counted :: "daily_state \<Rightarrow> bytes \<Rightarrow> daily_state" where
  "counted st k = st\<lparr>ds_counts := (ds_counts st)(k \<mapsto> daily_count st k + 1)\<rparr>"

lemma counted_amount:
  assumes "daily_count st k < cap"
  shows "unat (daily_count (counted st k) k') = unat (daily_count st k') + (if k' = k then 1 else 0)"
proof -
  have "unat (daily_count st k) + 1 < 2 ^ 64"
    using assms unat_bound [of cap] by (simp add: word_less_nat_alt)
  then have "unat (daily_count st k + 1) = unat (daily_count st k) + 1"
    by (simp add: unat_word_ariths(1))
  then show ?thesis
    by (simp add: counted_def daily_count_def)
qed

lemma counted_day [simp]: "ds_day (counted st k) = ds_day st"
  by (simp add: counted_def)

lemma counted_le: "daily.le old st \<Longrightarrow> daily_count st k < cap \<Longrightarrow> daily.le old (counted st k)"
  by (rule daily.le_more) (auto simp: counted_amount)


lemma order_attempt_enforcing:
  assumes "lm_daily_cap lims = Some cap" "lm_counter_path lims = Some p" "\<not> lm_dry_run lims"
  shows "check_and_count_order X token now F lims fs =
    (if now = 0 then (CounterUnavailable, lims, fs)
     else case daily_state_for X p (today now) F fs (lm_daily_state lims) of
       Err _ \<Rightarrow> (CounterUnavailable, lims, fs)
     | Ok st \<Rightarrow>
         (let k = hex_encode X (token_key X token) in
          if cap \<le> daily_count st k
          then (DailyCapExhausted (SECS_PER_DAY - now mod SECS_PER_DAY),
                lims\<lparr>lm_daily_state := Some (st\<lparr>ds_counts := (ds_counts st)(k \<mapsto> daily_count st k)\<rparr>)\<rparr>, fs)
          else case store_daily_state X p (counted st k) F fs of
            (r, fs') \<Rightarrow> (if is_ok r then Allow else CounterUnavailable, lims\<lparr>lm_daily_state := Some (counted st k)\<rparr>, fs')))"
  using assms
  by (auto simp: check_and_count_order_def fail_closed_def counted_def Let_def split: sum.split prod.split)

lemma cached_view: "orders_view (X, lims\<lparr>lm_daily_state := c\<rparr>, fs) = (orders_view (X, lims, fs))\<lparr>lv_cache := c\<rparr>"
  by (simp add: orders_view_def)

lemma idle_orders:
  assumes "lm_daily_cap lims' = lm_daily_cap lims" "lm_counter_path lims' = lm_counter_path lims"
    "lm_dry_run lims' = lm_dry_run lims" "lm_x402_spend_path lims' = lm_x402_spend_path lims"
    "lm_daily_state lims' = lm_daily_state lims \<or> lm_daily_state lims' = None"
    "\<And>p. lm_counter_path lims = Some p \<Longrightarrow> fs_live fs' p = fs_live fs p"
  shows "daily.move (orders_view (X, lims, fs)) (orders_view (X, lims', fs'))"
proof -
  have "orders_view (X, lims', fs') = (orders_view (X, lims, fs))\<lparr>lv_cache := lm_daily_state lims'\<rparr>"
    using assms by (simp add: orders_view_def split: option.split)
  then show ?thesis
    using daily.move.idle [of "lm_daily_state lims'" "orders_view (X, lims, fs)"] assms(5) by (simp add: orders_view_def)
qed

text \<open>The three outcomes of an attempt: no state of today, no budget left, one more order.\<close>

lemma order_attempt_cases:
  assumes att: "check_and_count_order X token now F lims fs = (d, lims', fs')" and inv: "orders_inv (X, lims, fs)"
    and cap: "lm_daily_cap lims = Some cap" and p: "lm_counter_path lims = Some p"
  defines "k \<equiv> hex_encode X (token_key X token)"
  obtains (unready) "d \<noteq> Allow" "lims' = lims" "fs' = fs"
  | (over) st where "daily_state_for X p (today now) F fs (lm_daily_state lims) = Ok st" "d \<noteq> Allow" "fs' = fs"
      "lims' = lims\<lparr>lm_daily_state := Some (st\<lparr>ds_counts := (ds_counts st)(k \<mapsto> daily_count st k)\<rparr>)\<rparr>"
  | (one_more) st r where "daily_state_for X p (today now) F fs (lm_daily_state lims) = Ok st" "daily_count st k < cap"
      "store_daily_state X p (counted st k) F fs = (r, fs')" "d = (if is_ok r then Allow else CounterUnavailable)"
      "lims' = lims\<lparr>lm_daily_state := Some (counted st k)\<rparr>"
proof -
  from inv have dry: "\<not> lm_dry_run lims"
    by (rule orders_invE)
  note eq = att [unfolded order_attempt_enforcing [OF cap p dry] Let_def, folded k_def]
  show thesis
  proof (cases "now = 0")
    case True
    then show thesis using eq unready by simp
  next
    case nz: False
    note eq = eq [unfolded if_not_P [OF nz]]
    show thesis
    proof (cases "daily_state_for X p (today now) F fs (lm_daily_state lims)")
      case (Inl e)
      then show thesis using eq unready by simp
    next
      case st: (Inr st)
      note eq = eq [unfolded st sum.case]
      show thesis
      proof (cases "cap \<le> daily_count st k")
        case True
        then show thesis using over [OF st] eq [unfolded if_P [OF True]] by auto
      next
        case False
        obtain r fs'' where store: "store_daily_state X p (counted st k) F fs = (r, fs'')"
          by fastforce
        then show thesis using one_more [OF st] False eq [unfolded if_not_P [OF False]] by (auto simp: not_le)
      qed
    qed
  qed
qed

lemma order_attempt:
  assumes att: "check_and_count_order X token now F lims fs = (d, lims', fs')" and inv: "orders_inv (X, lims, fs)"
    and cap: "lm_daily_cap lims = Some cap" and p: "lm_counter_path lims = Some p"
  defines "k \<equiv> hex_encode X (token_key X token)" and "v \<equiv> orders_view (X, lims, fs)" and "v' \<equiv> orders_view (X, lims', fs')"
  shows "daily.move v v' \<and> (d = Allow \<longrightarrow>
    (\<exists>st. ds_day st = today now \<and> daily.le (lv_file v) st \<and> daily_count st k < cap \<and> lv_file v' = Some (counted st k)))"
  using att inv cap p
proof (cases rule: order_attempt_cases)
  case unready
  then show ?thesis
    using daily.move.idle [of "lv_cache v" v] by (simp add: v_def v'_def)
next
  case (over st)
  let ?c = "st\<lparr>ds_counts := (ds_counts st)(k \<mapsto> daily_count st k)\<rparr>"
  have "daily.le (lv_file v) st"
    using daily_state_for_le [OF over(1) inv p] by (simp add: v_def)
  then have "daily.le (lv_file v) ?c"
    by (rule daily.le_more) (simp_all add: daily_count_def)
  then have "daily.move v (v\<lparr>lv_cache := Some ?c\<rparr>)"
    by (rule daily.move.cached)
  then show ?thesis
    using over(2) unfolding v_def v'_def over(3,4) k_def cached_view by simp
next
  case (one_more st r)
  have le: "ds_day st = today now" "daily.le (lv_file v) st"
    using daily_state_for_le [OF one_more(1) inv p] by (simp_all add: v_def)
  note counted = counted_le [OF le(2) one_more(2), folded k_def]
  note moved = store_daily_state_moves(1,2) [OF one_more(3) inv p, folded k_def, folded v_def, OF counted]
  have v': "v' = orders_view (X, lims\<lparr>lm_daily_state := Some (counted st k)\<rparr>, fs')"
    unfolding v'_def one_more(5) k_def by (rule refl)
  have "is_ok r" if "d = Allow"
    using one_more(4) that by (cases "is_ok r") simp_all
  then show ?thesis
    using moved le one_more(2) unfolding v' k_def [symmetric] by blast
qed


section \<open>Restarts and other requests\<close>

lemma boot_daily_moves:
  assumes boot: "boot_probe_daily X now F lims fs = (r, lims', fs')" and inv: "orders_inv (X, lims, fs)"
  shows "daily.move (orders_view (X, lims, fs)) (orders_view (X, lims', fs'))"
proof -
  from inv obtain p cap where p: "lm_counter_path lims = Some p" "lm_daily_cap lims = Some cap"
    by (rule orders_invE)
  have idle: "daily.move (orders_view (X, lims, fs)) (orders_view (X, lims, fs))"
    by (rule idle_orders) simp_all
  show ?thesis
  proof (cases "load_daily_state X p (today now) F fs")
    case (Inl e)
    then show ?thesis
      using boot p idle by (simp add: boot_probe_daily_def)
  next
    case (Inr st)
    obtain r1 fs1 where store: "store_daily_state X p st F fs = (r1, fs1)"
      by fastforce
    note moved = store_daily_state_moves [OF store inv p(1) conjunct2 [OF load_daily_state_le [OF Inr p(1)]]]
    show ?thesis
      using boot p Inr store moved(1,3) idle by (cases r1) (auto simp: boot_probe_daily_def)
  qed
qed

lemma restart_moves:
  assumes inv: "orders_inv (X, lims, fs)" and boot: "boot_probe X now now' F F' (restarted lims) fs = (r, lims', fs')"
  shows "daily.move\<^sup>*\<^sup>* (orders_view (X, lims, fs)) (orders_view (X, lims', fs'))"
proof -
  from inv obtain p where p: "lm_counter_path lims = Some p" "paths_apart p (lm_x402_spend_path lims)"
    by (rule orders_invE)
  have fresh: "daily.move (orders_view (X, lims, fs)) (orders_view (X, restarted lims, fs))"
    by (rule idle_orders) (simp_all add: restarted_def)
  then have inv1: "orders_inv (X, restarted lims, fs)"
    using inv daily.move_keeps by (simp add: orders_inv_def)
  obtain r1 lims1 fs1 where b1: "boot_probe_daily X now F (restarted lims) fs = (r1, lims1, fs1)"
    by (cases "boot_probe_daily X now F (restarted lims) fs")
  note first = boot_daily_moves [OF b1 inv1]
  have second: "daily.move (orders_view (X, lims1, fs1)) (orders_view (X, lims', fs'))"
  proof (cases r1)
    case (Inl e)
    then show ?thesis
      using boot b1 idle_orders [of lims1 lims1 fs1 fs1] by (simp add: boot_probe_def)
  next
    case (Inr u)
    then have b2: "boot_probe_x402 X now' F' lims1 fs1 = (r, lims', fs')"
      using boot b1 by (simp add: boot_probe_def)
    obtain c where c: "lims1 = (restarted lims)\<lparr>lm_daily_state := c\<rparr>"
      using boot_daily_frame [OF b1] by blast
    obtain c' where c': "lims' = lims1\<lparr>lm_x402_spend_state := c'\<rparr>"
      using boot_x402_frame [OF b2] by blast
    have "fs_live fs' p = fs_live fs1 p"
      using boot_x402_frame [OF b2, of p] p(2) by (simp add: c restarted_def)
    then show ?thesis
      using p(1) by (intro idle_orders) (simp_all add: c' c restarted_def)
  qed
  show ?thesis
    using fresh first second by (meson converse_rtranclp_into_rtranclp rtranclp.rtrancl_refl)
qed

text \<open>In a run with crashes of the host the counter file is durable between events.\<close>

definition orders_safe :: "bool \<Rightarrow> 'x limiter_world \<Rightarrow> bool" where
  "orders_safe crashes s \<longleftrightarrow> orders_inv s \<and> (crashes \<longrightarrow> durable_at (lm_counter_path (fst (snd s))) (snd (snd s)))"

lemma orders_step_durable:
  assumes "orders_safe True s" "survivable True e"
  shows "durable_at (lm_counter_path (fst (snd (limit_step e s)))) (snd (snd (limit_step e s)))"
proof -
  obtain X lims fs where s: "s = (X, lims, fs)"
    by (cases s)
  obtain X' lims' fs' where s': "limit_step e (X, lims, fs) = (X', lims', fs')"
    by (cases "limit_step e (X, lims, fs)")
  have inv: "orders_inv (X, lims, fs)" "durable_at (lm_counter_path lims) fs"
    using assms(1) by (simp_all add: orders_safe_def s)
  from inv(1) obtain p where p: "lm_counter_path lims = Some p" "paths_apart p (lm_x402_spend_path lims)"
    by (rule orders_invE)
  have "durable p (snd (snd (limit_step e (X, lims, fs))))"
    using inv(2) p assms(2)
    by (intro limit_step_durable) (auto simp: durable_at_def in_synced_dir_def paths_apart_def split: option.splits)
  then show ?thesis
    using limit_step_paths [OF s'] p(1) inv(2) by (simp add: s s' durable_at_def)
qed

lemma orders_step:
  assumes "orders_safe crashes s" "survivable crashes e"
  shows "daily.move\<^sup>*\<^sup>* (orders_view s) (orders_view (limit_step e s))"
proof -
  obtain X lims fs where s: "s = (X, lims, fs)"
    by (cases s)
  have inv: "orders_inv (X, lims, fs)"
    using assms(1) by (simp add: orders_safe_def s)
  from inv obtain p cap where p: "lm_counter_path lims = Some p" "paths_apart p (lm_x402_spend_path lims)" "lm_daily_cap lims = Some cap"
    by (rule orders_invE)
  show ?thesis
  proof (cases e)
    case (OrderAttempt token now F)
    then show ?thesis
      using order_attempt [OF _ inv p(3,1)] by (auto simp: limit_step_def s split: prod.split)
  next
    case (SpendAttempt scope val now F)
    obtain d lims' fs' where att: "check_and_count_x402_spend X scope val now F lims fs = (d, lims', fs')"
      by (cases "check_and_count_x402_spend X scope val now F lims fs")
    obtain c where "lims' = lims\<lparr>lm_x402_spend_state := c\<rparr>"
      using spend_frame [OF att] by blast
    then have "daily.move (orders_view (X, lims, fs)) (orders_view (X, lims', fs'))"
      using spend_frame [OF att, of p] p by (intro idle_orders) simp_all
    then show ?thesis
      using att SpendAttempt s by (simp add: limit_step_def r_into_rtranclp)
  next
    case (RequestAttempt token now)
    obtain d w where "check_bucket X (lm_dry_run lims) (lm_rate_per_min lims) token now (lm_rate lims) = (d, w)"
      by fastforce
    moreover have "daily.move (orders_view (X, lims, fs)) (orders_view (X, lims\<lparr>lm_rate := w\<rparr>, fs))"
      by (rule idle_orders) simp_all
    ultimately show ?thesis
      using RequestAttempt s by (simp add: limit_step_def check_rate_def r_into_rtranclp)
  next
    case (Restart now now' F F')
    then show ?thesis
      using restart_moves [OF inv, of now now' F F'] s by (auto simp: limit_step_def judge_restart_def split: prod.split)
  next
    case (HostCrash keep now now' F F')
    then have "durable p fs"
      using assms p(1) by (simp add: orders_safe_def s durable_at_def)
    then have same: "orders_view (X, lims, host_crash keep fs) = orders_view (X, lims, fs)"
      by (simp add: orders_view_def p(1) host_crash_durable(1))
    then have "orders_inv (X, lims, host_crash keep fs)"
      using inv by (simp add: orders_inv_def)
    then show ?thesis
      using restart_moves [of X lims "host_crash keep fs" now now' F F'] HostCrash s same
      by (auto simp: limit_step_def judge_restart_def split: prod.split)
  qed
qed


section \<open>The bound\<close>

definition order_granted :: "limit_event \<Rightarrow> 'x limiter_world \<Rightarrow> bool" where
  "order_granted e s = (case e of OrderAttempt _ _ _ \<Rightarrow> fst (judge_event e s) = Allow | _ \<Rightarrow> False)"

definition order_day :: "limit_event \<Rightarrow> 'x limiter_world \<Rightarrow> nat" where
  "order_day e s = (case e of OrderAttempt _ now _ \<Rightarrow> unat (today now) | _ \<Rightarrow> 0)"

definition order_key :: "limit_event \<Rightarrow> 'x limiter_world \<Rightarrow> bytes" where
  "order_key e s = (case e of OrderAttempt token _ _ \<Rightarrow> hex_encode (fst s) (token_key (fst s) token) | _ \<Rightarrow> [])"

lemma orders_recorded:
  assumes inv: "orders_inv s" and granted: "order_granted e s" and key: "order_key e s = k"
  shows "daily.period (orders_view (limit_step e s)) = order_day e s
    \<and> (if daily.period (orders_view s) = order_day e s then daily.amount (orders_view s) k else 0) + 1
        \<le> daily.amount (orders_view (limit_step e s)) k
    \<and> daily.amount (orders_view (limit_step e s)) k \<le> lv_cap (orders_view s)"
proof -
  obtain X lims fs where s: "s = (X, lims, fs)"
    by (cases s)
  obtain token now F where e: "e = OrderAttempt token now F"
    using granted by (auto simp: order_granted_def split: limit_event.splits)
  obtain d lims' fs' where att: "check_and_count_order X token now F lims fs = (d, lims', fs')"
    by (cases "check_and_count_order X token now F lims fs")
  have k: "hex_encode X (token_key X token) = k" and allow: "d = Allow" and step: "limit_step e s = (X, lims', fs')"
    and day: "order_day e s = unat (today now)"
    using granted key att by (simp_all add: order_granted_def order_key_def order_day_def limit_step_def s e)
  obtain cap p where cap: "lm_daily_cap lims = Some cap" "lm_counter_path lims = Some p"
    using inv by (auto simp: s elim: orders_invE)
  obtain st where st: "ds_day st = today now" "daily.le (lv_file (orders_view s)) st" "daily_count st k < cap"
    "lv_file (orders_view (limit_step e s)) = Some (counted st k)"
    using order_attempt [OF att inv [unfolded s] cap] allow by (auto simp: s [symmetric] k step [symmetric])
  have amount: "unat (daily_count (counted st k) k) = unat (daily_count st k) + 1"
    using counted_amount [OF st(3), of k] by simp
  note recorded = daily.grant_recorded [OF st(2,4) counted_day amount, unfolded st(1) day [symmetric]]
  have "daily.amount (orders_view (limit_step e s)) k \<le> lv_cap (orders_view s)"
    using st(3) amount by (simp add: daily.amount_def st(4) word_less_nat_alt) (simp add: s orders_view_def cap)
  with recorded show ?thesis
    by blast
qed

interpretation order_ledger: period_ledger "orders_safe crashes" "survivable crashes" limit_step order_granted order_day order_key "\<lambda>_. 1"
  "\<lambda>s _. daily.period (orders_view s)" "\<lambda>s. daily.amount (orders_view s)" "\<lambda>s. lv_cap (orders_view s)"
  for crashes
proof
  fix s :: "'x limiter_world" and e k
  assume s: "orders_safe crashes s" and e: "survivable crashes e"
  note moves = orders_step [OF s e]
  have inv: "orders_inv s"
    using s by (simp add: orders_safe_def)
  show "orders_safe crashes (limit_step e s) \<and> lv_cap (orders_view (limit_step e s)) = lv_cap (orders_view s)"
    using daily.moves_keep [OF moves] inv orders_step_durable [of s e] s e by (cases crashes) (simp_all add: orders_safe_def orders_inv_def)
  show "daily.period (orders_view s) < daily.period (orders_view (limit_step e s))
      \<or> daily.period (orders_view s) = daily.period (orders_view (limit_step e s))
        \<and> daily.amount (orders_view s) k \<le> daily.amount (orders_view (limit_step e s)) k"
    using moves by (rule daily.moves_forward)
  show "daily.period (orders_view (limit_step e s)) = order_day e s
    \<and> (if daily.period (orders_view s) = order_day e s then daily.amount (orders_view s) k else 0) + 1
        \<le> daily.amount (orders_view (limit_step e s)) k
    \<and> daily.amount (orders_view (limit_step e s)) k \<le> lv_cap (orders_view s)"
    if "order_granted e s" "order_key e s = k"
    using orders_recorded [OF inv that] .
qed

text \<open>How many order-placing requests a run grants a token on a day.\<close>

definition orders_granted :: "nat \<Rightarrow> bytes \<Rightarrow> 'x limiter_world \<Rightarrow> limit_event list \<Rightarrow> nat" where
  "orders_granted = granted_total limit_step order_granted order_day order_key (\<lambda>_. 1)"

text \<open>
  C11: The daily cap on order-placing requests binds.  Take an enforcing gateway whose counter file is not shared and whose
  codec reads back what it writes, and any sequence of order attempts, x402 payments, other requests and restarts of the process, in
  which the clock may jump in either direction and any file operation may fail, also halfway through a write.  Then the number of
  order-placing requests granted to one token within one UTC day never exceeds the configured cap.  The sequence may also hold crashes of
  the host, which may lose a rename in a directory that was not synced: then the bound holds when the counter file has a parent
  directory, is durable at the start, and no sync of the directory fails.  (The count is of requests: a batch or a hedge is one.)
\<close>

theorem daily_orders_capped:
  assumes "\<And>st b. daily_state_text X st = Some b \<Longrightarrow> de_daily_state X b = Some st"
    and "lm_daily_cap lims = Some cap" "lm_counter_path lims = Some p" "paths_apart p (lm_x402_spend_path lims)"
    and "\<not> lm_dry_run lims" "lm_daily_state lims = None"
    and "list_all (survivable crashes) events" "crashes \<longrightarrow> has_parent_dir p \<and> fs_safe fs p = fs_live fs p"
  shows "orders_granted day (hex_encode X (token_key X token)) (X, lims, fs) events \<le> unat cap"
proof -
  have "orders_safe crashes (X, lims, fs)" "lv_cap (orders_view (X, lims, fs)) = unat cap"
    using assms by (simp_all add: orders_safe_def orders_inv_def daily.ok_def orders_view_def durable_at_def durable_def)
  then show ?thesis
    using order_ledger.grants_capped [of crashes "(X, lims, fs)" events day "hex_encode X (token_key X token)"] assms(7)
    by (simp add: orders_granted_def)
qed


text \<open>A cap of two orders a day, and three attempts on one day, with a crash of the host after the first.\<close>

definition sample_counts :: "64 word \<Rightarrow> 64 word \<Rightarrow> daily_state" where
  "sample_counts day n = \<lparr>ds_day = day, ds_counts = [hex_encode sample_ext (token_key sample_ext ''t'') \<mapsto> n]\<rparr>"

definition sample_codecs :: state_codecs where
  "sample_codecs = externals.extend sample_ext (state_codecs.fields
     (\<lambda>b. if b = ''1'' then Some (sample_counts 1 1) else if b = ''2'' then Some (sample_counts 1 2) else None)
     (\<lambda>st. if st = sample_counts 1 1 then Some ''1'' else if st = sample_counts 1 2 then Some ''2'' else None)
     (\<lambda>b. None) (\<lambda>st. None))"

definition sample_limits :: limits where
  "sample_limits = limits_disabled\<lparr>lm_daily_cap := Some 2, lm_counter_path := Some ''/c''\<rparr>"

lemma sample_codecs_simps:
  "hex_encode sample_codecs = hex_encode sample_ext" "sha256 sample_codecs = sha256 sample_ext"
  "de_daily_state sample_codecs =
     (\<lambda>b. if b = ''1'' then Some (sample_counts 1 1) else if b = ''2'' then Some (sample_counts 1 2) else None)"
  "daily_state_text sample_codecs =
     (\<lambda>st. if st = sample_counts 1 1 then Some ''1'' else if st = sample_counts 1 2 then Some ''2'' else None)"
  by (simp_all add: sample_codecs_def externals.defs state_codecs.defs)

lemma sample_write:
  "\<exists>fs'. atomic_write_bytes ''/c'' bs no_faults fs = (Ok (), fs') \<and> fs_safe fs' ''/c'' = Some bs"
  by (simp add: atomic_write_defs no_faults_def has_parent_dir_def Let_def)

lemma sample_attempt:
  assumes "lm_daily_state lims = None \<and> n = 0 \<and> fs_live fs ''/c'' = None \<or> lm_daily_state lims = Some (sample_counts 1 n)"
    and "lm_daily_cap lims = Some 2" "lm_counter_path lims = Some ''/c''" "\<not> lm_dry_run lims" "n = 0 \<or> n = 1"
  shows "\<exists>fs'. judge_event (OrderAttempt ''t'' 86400 no_faults) (sample_codecs, lims, fs)
    = (Allow, (sample_codecs, lims\<lparr>lm_daily_state := Some (sample_counts 1 (n + 1))\<rparr>, fs'))
    \<and> fs_safe fs' ''/c'' = Some (if n = 0 then ''1'' else ''2'')"
proof -
  let ?k = "hex_encode sample_ext (token_key sample_ext ''t'')"
  have day: "today 86400 = 1"
    by (simp add: today_def SECS_PER_DAY_def)
  obtain st where st: "daily_state_for sample_codecs ''/c'' 1 no_faults fs (lm_daily_state lims) = Ok st" "daily_count st ?k = n" "counted st ?k = sample_counts 1 (n + 1)"
    using assms(1) by (auto simp: daily_state_for_def load_daily_state_def fs_read_def no_faults_def sample_counts_def daily_count_def counted_def)
  have "daily_state_text sample_codecs (sample_counts 1 (n + 1)) = Some (if n = 0 then ''1'' else ''2'')"
    using assms(5) by (auto simp: sample_codecs_simps sample_counts_def fun_eq_iff)
  moreover have small: "\<not> 2 \<le> n"
    using assms(5) by (auto simp: word_le_nat_alt)
  moreover obtain fs' where "atomic_write_bytes ''/c'' (if n = 0 then ''1'' else ''2'') no_faults fs = (Ok (), fs')"
    "fs_safe fs' ''/c'' = Some (if n = 0 then ''1'' else ''2'')"
    using sample_write by blast
  ultimately show ?thesis
    using st by (simp add: order_attempt_enforcing [OF assms(2-4)] day token_key_def sample_codecs_simps store_daily_state_def Let_def)
qed

lemma sample_crash:
  assumes "fs_safe fs ''/c'' = Some ''1''" and lims: "lims = sample_limits\<lparr>lm_daily_state := c\<rparr>"
  shows "\<exists>fs'. judge_event (HostCrash (\<lambda>_. False) 86400 86400 no_faults no_faults) (sample_codecs, lims, fs)
    = (Allow, (sample_codecs, sample_limits\<lparr>lm_daily_state := Some (sample_counts 1 1)\<rparr>, fs'))"
proof -
  have load: "load_daily_state sample_codecs ''/c'' (today 86400) no_faults (host_crash (\<lambda>_. False) fs) = Ok (sample_counts 1 1)"
    using assms(1)
    by (simp add: load_daily_state_def fs_read_def no_faults_def host_crash_def Let_def sample_codecs_simps sample_counts_def today_def SECS_PER_DAY_def)
  obtain fs' where "store_daily_state sample_codecs ''/c'' (sample_counts 1 1) no_faults (host_crash (\<lambda>_. False) fs) = (Ok (), fs')"
    using sample_write [of "''1''" "host_crash (\<lambda>_. False) fs"] by (auto simp: store_daily_state_def sample_codecs_simps)
  then show ?thesis
    using load by (simp add: lims judge_restart_def boot_probe_def boot_probe_daily_def boot_probe_x402_def restarted_def
        sample_limits_def limits_disabled_def)
qed

theorem daily_orders_capped_witness:
  "let attempt = OrderAttempt ''t'' 86400 no_faults; crash = HostCrash (\<lambda>_. False) 86400 86400 no_faults no_faults in
   orders_granted 1 (hex_encode sample_codecs (token_key sample_codecs ''t'')) (sample_codecs, sample_limits, no_files)
     [attempt, crash, attempt, attempt] = 2"
proof -
  let ?e = "OrderAttempt ''t'' 86400 no_faults" and ?k = "hex_encode sample_codecs (token_key sample_codecs ''t'')"
  let ?crash = "HostCrash (\<lambda>_. False) 86400 86400 no_faults no_faults" and ?s = "(sample_codecs, sample_limits, no_files)"
  let ?lims = "\<lambda>n. sample_limits\<lparr>lm_daily_state := Some (sample_counts 1 n)\<rparr>"
  obtain fs1 where one: "judge_event ?e ?s = (Allow, (sample_codecs, ?lims 1, fs1))" "fs_safe fs1 ''/c'' = Some ''1''"
    using sample_attempt [of sample_limits 0 no_files] by (auto simp: sample_limits_def limits_disabled_def no_files_def)
  obtain fs2 where two: "judge_event ?crash (sample_codecs, ?lims 1, fs1) = (Allow, (sample_codecs, ?lims 1, fs2))"
    using sample_crash [OF one(2) refl] by blast
  obtain fs3 where three: "judge_event ?e (sample_codecs, ?lims 1, fs2) = (Allow, (sample_codecs, ?lims 2, fs3))"
    using sample_attempt [of "?lims 1" 1 fs2] by (auto simp: sample_limits_def limits_disabled_def)
  have "orders_granted 1 ?k ?s [?e, ?crash, ?e, ?e] \<le> unat (2 :: 64 word)"
  proof (rule daily_orders_capped)
    show "daily_state_text sample_codecs st = Some b \<Longrightarrow> de_daily_state sample_codecs b = Some st" for st b
      by (auto simp: sample_codecs_simps split: if_splits)
    show "list_all (survivable True) [?e, ?crash, ?e, ?e]"
      by (simp add: no_faults_def)
    show "True \<longrightarrow> has_parent_dir ''/c'' \<and> fs_safe no_files ''/c'' = fs_live no_files ''/c''"
      by (simp add: has_parent_dir_def no_files_def)
  qed (simp_all add: sample_limits_def limits_disabled_def paths_apart_def)
  moreover have "orders_granted 1 ?k ?s [?e, ?crash, ?e, ?e] \<ge> 2"
    using one two three by (simp add: orders_granted_def limit_step_def order_granted_def order_day_def order_key_def today_def SECS_PER_DAY_def)
  ultimately show ?thesis
    by simp
qed

end
