(* ===== verification/Spend_Ledger.thy ===== *)
theory Spend_Ledger
  imports Gateway_Limits Day_Record
begin

text \<open>
  The x402 spend accumulator keeps the contract of a period ledger too: restarts, failing disks and clocks that
  move backwards included, the payments granted to one payer key in a UTC day never sum to more than the cap.  A crash of the host is
  covered where the directory of the spend file can be synced.
\<close>

section \<open>The accumulator as a day record\<close>

interpretation spend: day_record xs_day "\<lambda>st k. unat (x402_spent st k)" .

text \<open>
  The accumulator is ready when it is configured and enforcing, its file is nobody else's, and its codec reads back what it
  wrote.
\<close>

definition spends_view :: "'x limiter_world \<Rightarrow> x402_spend_state ledger_view" where
  "spends_view s =
     (case s of (X, lims, fs) \<Rightarrow>
        \<lparr>lv_ready = ((\<forall>st b. x402_spend_state_text X st = Some b \<longrightarrow> de_x402_spend_state X b = Some st)
           \<and> \<not> lm_dry_run lims \<and> lm_x402_period_cap lims \<noteq> None
           \<and> (\<exists>p. lm_x402_spend_path lims = Some p \<and> paths_apart p (lm_counter_path lims))),
         lv_cap = (case lm_x402_period_cap lims of None \<Rightarrow> 0 | Some c \<Rightarrow> unat c),
         lv_cache = lm_x402_spend_state lims,
         lv_file = (case lm_x402_spend_path lims of
                      None \<Rightarrow> None
                    | Some p \<Rightarrow> (case fs_live fs p of None \<Rightarrow> None | Some b \<Rightarrow> de_x402_spend_state X b))\<rparr>)"

definition spends_inv :: "'x limiter_world \<Rightarrow> bool" where
  "spends_inv s \<longleftrightarrow> spend.ok (spends_view s)"

lemma spends_invE:
  assumes "spends_inv (X, lims, fs)"
  obtains p cap where "lm_x402_spend_path lims = Some p" "paths_apart p (lm_counter_path lims)" "lm_x402_period_cap lims = Some cap"
    "\<not> lm_dry_run lims"
  using assms by (auto simp: spends_inv_def spend.ok_def spends_view_def)

lemma load_x402_spend_state_le:
  assumes "load_x402_spend_state X p day F fs = Ok st" "lm_x402_spend_path lims = Some p"
  shows "xs_day st = day \<and> spend.le (lv_file (spends_view (X, lims, fs))) st"
  using assms
  by (auto simp: load_x402_spend_state_def fs_read_def spends_view_def spend.le_def
      split: if_splits option.splits io_error.splits sum.splits)

lemma x402_state_for_le:
  assumes "x402_state_for X p day F fs (lm_x402_spend_state lims) = Ok st" "spends_inv (X, lims, fs)" "lm_x402_spend_path lims = Some p"
  shows "xs_day st = day \<and> spend.le (lv_file (spends_view (X, lims, fs))) st"
proof (cases "lm_x402_spend_state lims")
  case None
  then show ?thesis
    using load_x402_spend_state_le [of X p day F fs st lims] assms(1,3) by (simp add: x402_state_for_def)
next
  case (Some c)
  moreover from this assms(2) have "spend.le (lv_file (spends_view (X, lims, fs))) c"
    by (simp add: spends_inv_def spend.ok_def spends_view_def)
  ultimately show ?thesis
    using assms(1) by (auto simp: x402_state_for_def intro: spend.le_later split: if_splits)
qed

lemma store_x402_spend_state_moves:
  assumes store: "store_x402_spend_state X p st F fs = (r, fs')" and inv: "spends_inv (X, lims, fs)" and p: "lm_x402_spend_path lims = Some p"
    and le: "spend.le (lv_file (spends_view (X, lims, fs))) st"
  shows "spend.move (spends_view (X, lims, fs)) (spends_view (X, lims\<lparr>lm_x402_spend_state := Some st\<rparr>, fs'))"
    and "is_ok r \<Longrightarrow> lv_file (spends_view (X, lims\<lparr>lm_x402_spend_state := Some st\<rparr>, fs')) = Some st"
    and "\<not> is_ok r \<Longrightarrow> spends_view (X, lims, fs') = spends_view (X, lims, fs)"
proof -
  have fl: "(case fs_live fs' p of None \<Rightarrow> None | Some b \<Rightarrow> de_x402_spend_state X b)
      = (if is_ok r then Some st else case fs_live fs p of None \<Rightarrow> None | Some b \<Rightarrow> de_x402_spend_state X b)"
    using store inv atomic_write_target [of p _ F fs r fs']
    by (auto simp: store_x402_spend_state_def spends_inv_def spend.ok_def spends_view_def split: option.splits)
  let ?v = "spends_view (X, lims, fs)"
  have "spends_view (X, lims\<lparr>lm_x402_spend_state := Some st\<rparr>, fs')
      = (if is_ok r then ?v\<lparr>lv_cache := Some st, lv_file := Some st\<rparr> else ?v\<lparr>lv_cache := Some st\<rparr>)"
    using fl p by (simp add: spends_view_def)
  then show "spend.move ?v (spends_view (X, lims\<lparr>lm_x402_spend_state := Some st\<rparr>, fs'))"
    using spend.move.cached [OF le] spend.move.written [OF le] by simp
  show "is_ok r \<Longrightarrow> lv_file (spends_view (X, lims\<lparr>lm_x402_spend_state := Some st\<rparr>, fs')) = Some st"
    and "\<not> is_ok r \<Longrightarrow> spends_view (X, lims, fs') = ?v"
    using fl p by (simp_all add: spends_view_def)
qed

text \<open>An attempt adds its value to today's sum of the payer in the memory and, when it is granted, in the file.\<close>

definition charged :: "x402_spend_state \<Rightarrow> bytes \<Rightarrow> 128 word \<Rightarrow> x402_spend_state" where
  "charged st k new_total = st\<lparr>xs_spend := (xs_spend st)(k \<mapsto> new_total)\<rparr>"

lemma checked_add_exact: "checked_add a b = Some c \<Longrightarrow> unat c = unat a + unat b"
  by (auto simp: checked_add_def unat_word_ariths(1) split: if_splits)

lemma charged_amount:
  assumes "checked_add (x402_spent st k) val = Some new_total"
  shows "unat (x402_spent (charged st k new_total) k') = unat (x402_spent st k') + (if k' = k then unat val else 0)"
  using checked_add_exact [OF assms] by (simp add: charged_def x402_spent_def)

lemma charged_spent: "x402_spent (charged st k new_total) k = new_total"
  by (simp add: charged_def x402_spent_def)

lemma charged_day [simp]: "xs_day (charged st k new_total) = xs_day st"
  by (simp add: charged_def)

lemma charged_le: "spend.le old st \<Longrightarrow> checked_add (x402_spent st k) val = Some new_total \<Longrightarrow> spend.le old (charged st k new_total)"
  by (rule spend.le_more) (auto simp: charged_amount)

lemma spend_attempt_enforcing:
  assumes "lm_x402_period_cap lims = Some cap" "lm_x402_spend_path lims = Some p" "\<not> lm_dry_run lims"
  shows "check_and_count_x402_spend X scope val now F lims fs =
    (if now = 0 then (CounterUnavailable, lims, fs)
     else case x402_state_for X p (today now) F fs (lm_x402_spend_state lims) of
       Err _ \<Rightarrow> (CounterUnavailable, lims, fs)
     | Ok st \<Rightarrow>
         (let k = hex_encode X (token_key X scope) in
          case checked_add (x402_spent st k) val of
            None \<Rightarrow> (CounterUnavailable, lims\<lparr>lm_x402_spend_state := Some st\<rparr>, fs)
          | Some new_total \<Rightarrow>
              if cap < new_total
              then (X402CapExhausted (SECS_PER_DAY - now mod SECS_PER_DAY), lims\<lparr>lm_x402_spend_state := Some st\<rparr>, fs)
              else case store_x402_spend_state X p (charged st k new_total) F fs of
                (r, fs') \<Rightarrow> (if is_ok r then Allow else CounterUnavailable, lims\<lparr>lm_x402_spend_state := Some (charged st k new_total)\<rparr>, fs')))"
  using assms
  by (auto simp: check_and_count_x402_spend_def fail_closed_def charged_def Let_def split: sum.split prod.split option.split)

lemma cached_spends_view: "spends_view (X, lims\<lparr>lm_x402_spend_state := c\<rparr>, fs) = (spends_view (X, lims, fs))\<lparr>lv_cache := c\<rparr>"
  by (simp add: spends_view_def)

lemma idle_spends:
  assumes "lm_x402_period_cap lims' = lm_x402_period_cap lims" "lm_x402_spend_path lims' = lm_x402_spend_path lims"
    "lm_dry_run lims' = lm_dry_run lims" "lm_counter_path lims' = lm_counter_path lims"
    "lm_x402_spend_state lims' = lm_x402_spend_state lims \<or> lm_x402_spend_state lims' = None"
    "\<And>p. lm_x402_spend_path lims = Some p \<Longrightarrow> fs_live fs' p = fs_live fs p"
  shows "spend.move (spends_view (X, lims, fs)) (spends_view (X, lims', fs'))"
proof -
  have "spends_view (X, lims', fs') = (spends_view (X, lims, fs))\<lparr>lv_cache := lm_x402_spend_state lims'\<rparr>"
    using assms by (simp add: spends_view_def split: option.split)
  then show ?thesis
    using spend.move.idle [of "lm_x402_spend_state lims'" "spends_view (X, lims, fs)"] assms(5) by (simp add: spends_view_def)
qed

text \<open>The three outcomes of an attempt: no state of today, no budget left, a payment charged.\<close>

lemma spend_attempt_cases:
  assumes att: "check_and_count_x402_spend X scope val now F lims fs = (d, lims', fs')" and inv: "spends_inv (X, lims, fs)"
    and cap: "lm_x402_period_cap lims = Some cap" and p: "lm_x402_spend_path lims = Some p"
  defines "k \<equiv> hex_encode X (token_key X scope)"
  obtains (unready) "d \<noteq> Allow" "lims' = lims" "fs' = fs"
  | (over) st where "x402_state_for X p (today now) F fs (lm_x402_spend_state lims) = Ok st" "d \<noteq> Allow" "fs' = fs"
      "lims' = lims\<lparr>lm_x402_spend_state := Some st\<rparr>"
  | (paid) st new_total r where "x402_state_for X p (today now) F fs (lm_x402_spend_state lims) = Ok st"
      "checked_add (x402_spent st k) val = Some new_total" "new_total \<le> cap"
      "store_x402_spend_state X p (charged st k new_total) F fs = (r, fs')" "d = (if is_ok r then Allow else CounterUnavailable)"
      "lims' = lims\<lparr>lm_x402_spend_state := Some (charged st k new_total)\<rparr>"
proof -
  from inv have dry: "\<not> lm_dry_run lims"
    by (rule spends_invE)
  note eq = att [unfolded spend_attempt_enforcing [OF cap p dry] Let_def, folded k_def]
  consider "now = 0" | e where "now \<noteq> 0" "x402_state_for X p (today now) F fs (lm_x402_spend_state lims) = Err e"
    | st where "now \<noteq> 0" "x402_state_for X p (today now) F fs (lm_x402_spend_state lims) = Ok st"
    by (metis sumE)
  then show thesis
  proof cases
    case (3 st)
    note eq = eq [unfolded if_not_P [OF 3(1)] 3(2) sum.case]
    show thesis
    proof (cases "checked_add (x402_spent st k) val")
      case None
      then show thesis using over [OF 3(2)] eq by auto
    next
      case new_total: (Some new_total)
      obtain r fs'' where store: "store_x402_spend_state X p (charged st k new_total) F fs = (r, fs'')"
        by fastforce
      show thesis
      proof (cases "cap < new_total")
        case True
        then show thesis using over [OF 3(2)] eq [unfolded new_total option.case if_P [OF True]] by auto
      next
        case False
        then show thesis using paid [OF 3(2) new_total] store eq [unfolded new_total option.case if_not_P [OF False]] by (auto simp: not_less)
      qed
    qed
  qed (use eq unready in simp_all)
qed

lemma spend_attempt:
  assumes att: "check_and_count_x402_spend X scope val now F lims fs = (d, lims', fs')" and inv: "spends_inv (X, lims, fs)"
    and cap: "lm_x402_period_cap lims = Some cap" and p: "lm_x402_spend_path lims = Some p"
  defines "k \<equiv> hex_encode X (token_key X scope)" and "v \<equiv> spends_view (X, lims, fs)" and "v' \<equiv> spends_view (X, lims', fs')"
  shows "spend.move v v' \<and> (d = Allow \<longrightarrow>
    (\<exists>st new_total. xs_day st = today now \<and> spend.le (lv_file v) st \<and> checked_add (x402_spent st k) val = Some new_total \<and> new_total \<le> cap
       \<and> lv_file v' = Some (charged st k new_total)))"
  using att inv cap p
proof (cases rule: spend_attempt_cases)
  case unready
  then show ?thesis
    using spend.move.idle [of "lv_cache v" v] by (simp add: v_def v'_def)
next
  case (over st)
  have "spend.le (lv_file v) st"
    using x402_state_for_le [OF over(1) inv p] by (simp add: v_def)
  then have "spend.move v (v\<lparr>lv_cache := Some st\<rparr>)"
    by (rule spend.move.cached)
  then show ?thesis
    using over(2) unfolding v_def v'_def over(3,4) cached_spends_view by simp
next
  case (paid st new_total r)
  have le: "xs_day st = today now" "spend.le (lv_file v) st"
    using x402_state_for_le [OF paid(1) inv p] by (simp_all add: v_def)
  note charged = charged_le [OF le(2) paid(2), folded k_def]
  note moved = store_x402_spend_state_moves(1,2) [OF paid(4) inv p, folded k_def, folded v_def, OF charged]
  have v': "v' = spends_view (X, lims\<lparr>lm_x402_spend_state := Some (charged st k new_total)\<rparr>, fs')"
    unfolding v'_def paid(6) k_def by (rule refl)
  have "is_ok r" if "d = Allow"
    using paid(5) that by (cases "is_ok r") simp_all
  then show ?thesis
    using moved le paid(2,3) unfolding v' k_def [symmetric] by blast
qed


section \<open>Restarts and other requests\<close>

lemma boot_spend_moves:
  assumes boot: "boot_probe_x402 X now F lims fs = (r, lims', fs')" and inv: "spends_inv (X, lims, fs)"
  shows "spend.move (spends_view (X, lims, fs)) (spends_view (X, lims', fs'))"
proof -
  from inv obtain p cap where p: "lm_x402_spend_path lims = Some p" "lm_x402_period_cap lims = Some cap"
    by (rule spends_invE)
  have idle: "spend.move (spends_view (X, lims, fs)) (spends_view (X, lims, fs))"
    by (rule idle_spends) simp_all
  show ?thesis
  proof (cases "load_x402_spend_state X p (today now) F fs")
    case (Inl e)
    then show ?thesis
      using boot p idle by (simp add: boot_probe_x402_def)
  next
    case (Inr st)
    obtain r1 fs1 where store: "store_x402_spend_state X p st F fs = (r1, fs1)"
      by fastforce
    note moved = store_x402_spend_state_moves [OF store inv p(1) conjunct2 [OF load_x402_spend_state_le [OF Inr p(1)]]]
    show ?thesis
      using boot p Inr store moved(1,3) idle by (cases r1) (auto simp: boot_probe_x402_def)
  qed
qed

lemma restart_spend_moves:
  assumes inv: "spends_inv (X, lims, fs)" and boot: "boot_probe X now now' F F' (restarted lims) fs = (r, lims', fs')"
  shows "spend.move\<^sup>*\<^sup>* (spends_view (X, lims, fs)) (spends_view (X, lims', fs'))"
proof -
  from inv obtain p where p: "lm_x402_spend_path lims = Some p" "paths_apart p (lm_counter_path lims)"
    by (rule spends_invE)
  obtain r1 lims1 fs1 where b1: "boot_probe_daily X now F (restarted lims) fs = (r1, lims1, fs1)"
    by (cases "boot_probe_daily X now F (restarted lims) fs")
  obtain c where c: "lims1 = (restarted lims)\<lparr>lm_daily_state := c\<rparr>"
    using boot_daily_frame [OF b1] by blast
  have "fs_live fs1 p = fs_live fs p"
    using boot_daily_frame [OF b1, of p] p(2) by (simp add: restarted_def)
  then have first: "spend.move (spends_view (X, lims, fs)) (spends_view (X, lims1, fs1))"
    using p(1) by (intro idle_spends) (simp_all add: c restarted_def)
  then have inv1: "spends_inv (X, lims1, fs1)"
    using inv spend.move_keeps by (simp add: spends_inv_def)
  have second: "spend.move (spends_view (X, lims1, fs1)) (spends_view (X, lims', fs'))"
  proof (cases r1)
    case (Inl e)
    then show ?thesis
      using boot b1 idle_spends [of lims1 lims1 fs1 fs1] by (simp add: boot_probe_def)
  next
    case (Inr u)
    then show ?thesis
      using boot b1 boot_spend_moves [OF _ inv1] by (simp add: boot_probe_def)
  qed
  show ?thesis
    using first second by (meson converse_rtranclp_into_rtranclp rtranclp.rtrancl_refl)
qed

text \<open>In a run with crashes of the host the spend file is durable between events.\<close>

definition spends_safe :: "bool \<Rightarrow> 'x limiter_world \<Rightarrow> bool" where
  "spends_safe crashes s \<longleftrightarrow> spends_inv s \<and> (crashes \<longrightarrow> durable_at (lm_x402_spend_path (fst (snd s))) (snd (snd s)))"

lemma spends_step_durable:
  assumes "spends_safe True s" "survivable True e"
  shows "durable_at (lm_x402_spend_path (fst (snd (limit_step e s)))) (snd (snd (limit_step e s)))"
proof -
  obtain X lims fs where s: "s = (X, lims, fs)"
    by (cases s)
  obtain X' lims' fs' where s': "limit_step e (X, lims, fs) = (X', lims', fs')"
    by (cases "limit_step e (X, lims, fs)")
  have inv: "spends_inv (X, lims, fs)" "durable_at (lm_x402_spend_path lims) fs"
    using assms(1) by (simp_all add: spends_safe_def s)
  from inv(1) obtain p where p: "lm_x402_spend_path lims = Some p" "paths_apart p (lm_counter_path lims)"
    by (rule spends_invE)
  have "durable p (snd (snd (limit_step e (X, lims, fs))))"
    using inv(2) p assms(2)
    by (intro limit_step_durable) (auto simp: durable_at_def in_synced_dir_def paths_apart_def split: option.splits)
  then show ?thesis
    using limit_step_paths [OF s'] p(1) inv(2) by (simp add: s s' durable_at_def)
qed

lemma spends_step:
  assumes "spends_safe crashes s" "survivable crashes e"
  shows "spend.move\<^sup>*\<^sup>* (spends_view s) (spends_view (limit_step e s))"
proof -
  obtain X lims fs where s: "s = (X, lims, fs)"
    by (cases s)
  have inv: "spends_inv (X, lims, fs)"
    using assms(1) by (simp add: spends_safe_def s)
  from inv obtain p cap where p: "lm_x402_spend_path lims = Some p" "paths_apart p (lm_counter_path lims)" "lm_x402_period_cap lims = Some cap"
    by (rule spends_invE)
  show ?thesis
  proof (cases e)
    case (SpendAttempt scope val now F)
    then show ?thesis
      using spend_attempt [OF _ inv p(3,1)] by (auto simp: limit_step_def s split: prod.split)
  next
    case (OrderAttempt token now F)
    obtain d lims' fs' where att: "check_and_count_order X token now F lims fs = (d, lims', fs')"
      by (cases "check_and_count_order X token now F lims fs")
    obtain c where "lims' = lims\<lparr>lm_daily_state := c\<rparr>"
      using order_frame [OF att] by blast
    then have "spend.move (spends_view (X, lims, fs)) (spends_view (X, lims', fs'))"
      using order_frame [OF att, of p] p by (intro idle_spends) simp_all
    then show ?thesis
      using att OrderAttempt s by (simp add: limit_step_def r_into_rtranclp)
  next
    case (RequestAttempt token now)
    obtain d w where "check_bucket X (lm_dry_run lims) (lm_rate_per_min lims) token now (lm_rate lims) = (d, w)"
      by fastforce
    moreover have "spend.move (spends_view (X, lims, fs)) (spends_view (X, lims\<lparr>lm_rate := w\<rparr>, fs))"
      by (rule idle_spends) simp_all
    ultimately show ?thesis
      using RequestAttempt s by (simp add: limit_step_def check_rate_def r_into_rtranclp)
  next
    case (Restart now now' F F')
    then show ?thesis
      using restart_spend_moves [OF inv, of now now' F F'] s by (auto simp: limit_step_def judge_restart_def split: prod.split)
  next
    case (HostCrash keep now now' F F')
    then have "durable p fs"
      using assms p(1) by (simp add: spends_safe_def s durable_at_def)
    then have same: "spends_view (X, lims, host_crash keep fs) = spends_view (X, lims, fs)"
      by (simp add: spends_view_def p(1) host_crash_durable(1))
    then have "spends_inv (X, lims, host_crash keep fs)"
      using inv by (simp add: spends_inv_def)
    then show ?thesis
      using restart_spend_moves [of X lims "host_crash keep fs" now now' F F'] HostCrash s same
      by (auto simp: limit_step_def judge_restart_def split: prod.split)
  qed
qed


section \<open>The bound\<close>

definition spend_granted :: "limit_event \<Rightarrow> 'x limiter_world \<Rightarrow> bool" where
  "spend_granted e s = (case e of SpendAttempt _ _ _ _ \<Rightarrow> fst (judge_event e s) = Allow | _ \<Rightarrow> False)"

definition spend_day :: "limit_event \<Rightarrow> 'x limiter_world \<Rightarrow> nat" where
  "spend_day e s = (case e of SpendAttempt _ _ now _ \<Rightarrow> unat (today now) | _ \<Rightarrow> 0)"

definition spend_key :: "limit_event \<Rightarrow> 'x limiter_world \<Rightarrow> bytes" where
  "spend_key e s = (case e of SpendAttempt scope _ _ _ \<Rightarrow> hex_encode (fst s) (token_key (fst s) scope) | _ \<Rightarrow> [])"

definition spend_value :: "limit_event \<Rightarrow> nat" where
  "spend_value e = (case e of SpendAttempt _ val _ _ \<Rightarrow> unat val | _ \<Rightarrow> 0)"

lemma spends_recorded:
  assumes inv: "spends_inv s" and granted: "spend_granted e s" and key: "spend_key e s = k"
  shows "spend.period (spends_view (limit_step e s)) = spend_day e s
    \<and> (if spend.period (spends_view s) = spend_day e s then spend.amount (spends_view s) k else 0) + spend_value e
        \<le> spend.amount (spends_view (limit_step e s)) k
    \<and> spend.amount (spends_view (limit_step e s)) k \<le> lv_cap (spends_view s)"
proof -
  obtain X lims fs where s: "s = (X, lims, fs)"
    by (cases s)
  obtain scope val now F where e: "e = SpendAttempt scope val now F"
    using granted by (auto simp: spend_granted_def split: limit_event.splits)
  obtain d lims' fs' where att: "check_and_count_x402_spend X scope val now F lims fs = (d, lims', fs')"
    by (cases "check_and_count_x402_spend X scope val now F lims fs")
  have k: "hex_encode X (token_key X scope) = k" and allow: "d = Allow" and step: "limit_step e s = (X, lims', fs')"
    and day: "spend_day e s = unat (today now)" and a: "spend_value e = unat val"
    using granted key att by (simp_all add: spend_granted_def spend_key_def spend_day_def spend_value_def limit_step_def s e)
  obtain cap p where cap: "lm_x402_period_cap lims = Some cap" "lm_x402_spend_path lims = Some p"
    using inv by (auto simp: s elim: spends_invE)
  obtain st new_total where st: "xs_day st = today now" "spend.le (lv_file (spends_view s)) st"
    "checked_add (x402_spent st k) val = Some new_total" "new_total \<le> cap" "lv_file (spends_view (limit_step e s)) = Some (charged st k new_total)"
    using spend_attempt [OF att inv [unfolded s] cap] allow by (auto simp: s [symmetric] k step [symmetric])
  have amount: "unat (x402_spent (charged st k new_total) k) = unat (x402_spent st k) + spend_value e"
    using charged_amount [OF st(3), of k] by (simp add: a)
  note recorded = spend.grant_recorded [OF st(2,5) charged_day amount, unfolded st(1) day [symmetric]]
  have "spend.amount (spends_view (limit_step e s)) k \<le> lv_cap (spends_view s)"
    using st(4) by (simp add: spend.amount_def st(5) charged_spent word_le_nat_alt) (simp add: s spends_view_def cap)
  with recorded show ?thesis
    by blast
qed

interpretation spend_ledger: period_ledger "spends_safe crashes" "survivable crashes" limit_step spend_granted spend_day spend_key spend_value
  "\<lambda>s _. spend.period (spends_view s)" "\<lambda>s. spend.amount (spends_view s)" "\<lambda>s. lv_cap (spends_view s)"
  for crashes
proof
  fix s :: "'x limiter_world" and e k
  assume s: "spends_safe crashes s" and e: "survivable crashes e"
  note moves = spends_step [OF s e]
  have inv: "spends_inv s"
    using s by (simp add: spends_safe_def)
  show "spends_safe crashes (limit_step e s) \<and> lv_cap (spends_view (limit_step e s)) = lv_cap (spends_view s)"
    using spend.moves_keep [OF moves] inv spends_step_durable [of s e] s e by (cases crashes) (simp_all add: spends_safe_def spends_inv_def)
  show "spend.period (spends_view s) < spend.period (spends_view (limit_step e s))
      \<or> spend.period (spends_view s) = spend.period (spends_view (limit_step e s))
        \<and> spend.amount (spends_view s) k \<le> spend.amount (spends_view (limit_step e s)) k"
    using moves by (rule spend.moves_forward)
  show "spend.period (spends_view (limit_step e s)) = spend_day e s
    \<and> (if spend.period (spends_view s) = spend_day e s then spend.amount (spends_view s) k else 0) + spend_value e
        \<le> spend.amount (spends_view (limit_step e s)) k
    \<and> spend.amount (spends_view (limit_step e s)) k \<le> lv_cap (spends_view s)"
    if "spend_granted e s" "spend_key e s = k"
    using spends_recorded [OF inv that] .
qed

text \<open>What a run grants a payer key on a day, in token units.\<close>

definition spends_granted :: "nat \<Rightarrow> bytes \<Rightarrow> 'x limiter_world \<Rightarrow> limit_event list \<Rightarrow> nat" where
  "spends_granted = granted_total limit_step spend_granted spend_day spend_key spend_value"

text \<open>
  C12: The daily x402 cap binds.  Take an enforcing gateway whose spend file is not shared and whose codec reads back
  what it writes, and any sequence of payments, order attempts, other requests and restarts of the process, in which
  the clock may jump in either direction and any file operation may fail, also halfway through a write.  Then the values
  of the payments granted to one payer key within one UTC day never sum to more than the configured cap, and the
  128-bit sum never wraps.  The sequence may also hold crashes of the host, which may lose a rename in a directory that was not
  synced: then the bound holds when the spend file has a parent directory, is durable at the start, and no sync of the
  directory fails.
\<close>

theorem daily_spends_capped:
  assumes "\<And>st b. x402_spend_state_text X st = Some b \<Longrightarrow> de_x402_spend_state X b = Some st"
    and "lm_x402_period_cap lims = Some cap" "lm_x402_spend_path lims = Some p" "paths_apart p (lm_counter_path lims)"
    and "\<not> lm_dry_run lims" "lm_x402_spend_state lims = None"
    and "list_all (survivable crashes) events" "crashes \<longrightarrow> has_parent_dir p \<and> fs_safe fs p = fs_live fs p"
  shows "spends_granted day (hex_encode X (token_key X scope)) (X, lims, fs) events \<le> unat cap"
proof -
  have "spends_safe crashes (X, lims, fs)" "lv_cap (spends_view (X, lims, fs)) = unat cap"
    using assms by (simp_all add: spends_safe_def spends_inv_def spend.ok_def spends_view_def durable_at_def durable_def)
  then show ?thesis
    using spend_ledger.grants_capped [of crashes "(X, lims, fs)" events day "hex_encode X (token_key X scope)"] assms(7)
    by (simp add: spends_granted_def)
qed


text \<open>A cap of 100 units a day, and two payments of 60.\<close>

definition sample_spent :: x402_spend_state where
  "sample_spent = \<lparr>xs_day = 1, xs_spend = [hex_encode sample_ext (token_key sample_ext ''c/k'') \<mapsto> 60]\<rparr>"

definition sample_spend_codecs :: state_codecs where
  "sample_spend_codecs = externals.extend sample_ext (state_codecs.fields (\<lambda>b. None) (\<lambda>st. None)
     (\<lambda>b. if b = ''s'' then Some sample_spent else None) (\<lambda>st. if st = sample_spent then Some ''s'' else None))"

definition sample_spend_limits :: limits where
  "sample_spend_limits = limits_disabled\<lparr>lm_x402_period_cap := Some 100, lm_x402_spend_path := Some ''/x''\<rparr>"

lemma sample_spend_codecs_simps:
  "hex_encode sample_spend_codecs = hex_encode sample_ext" "sha256 sample_spend_codecs = sha256 sample_ext"
  "de_x402_spend_state sample_spend_codecs = (\<lambda>b. if b = ''s'' then Some sample_spent else None)"
  "x402_spend_state_text sample_spend_codecs = (\<lambda>st. if st = sample_spent then Some ''s'' else None)"
  by (simp_all add: sample_spend_codecs_def externals.defs state_codecs.defs)

lemma sample_payment_granted:
  "fst (judge_event (SpendAttempt ''c/k'' 60 86400 no_faults) (sample_spend_codecs, sample_spend_limits, no_files)) = Allow"
proof -
  let ?k = "hex_encode sample_ext (token_key sample_ext ''c/k'')"
  have lims: "lm_x402_period_cap sample_spend_limits = Some 100" "lm_x402_spend_path sample_spend_limits = Some ''/x''"
    "\<not> lm_dry_run sample_spend_limits" "lm_x402_spend_state sample_spend_limits = None"
    by (simp_all add: sample_spend_limits_def limits_disabled_def)
  have day: "today 86400 = 1"
    by (simp add: today_def SECS_PER_DAY_def)
  have "x402_state_for sample_spend_codecs ''/x'' 1 no_faults no_files None = Ok \<lparr>xs_day = 1, xs_spend = Map.empty\<rparr>"
    by (simp add: x402_state_for_def load_x402_spend_state_def fs_read_def no_faults_def no_files_def)
  moreover have "checked_add (x402_spent \<lparr>xs_day = 1, xs_spend = Map.empty\<rparr> ?k) 60 = Some 60"
    by (simp add: checked_add_def x402_spent_def)
  moreover have "charged \<lparr>xs_day = 1, xs_spend = Map.empty\<rparr> ?k 60 = sample_spent"
    by (simp add: charged_def sample_spent_def)
  moreover obtain fs' where "atomic_write_bytes ''/x'' ''s'' no_faults no_files = (Ok (), fs')"
    using atomic_write_no_faults by (metis prod.collapse)
  ultimately show ?thesis
    by (simp add: spend_attempt_enforcing [OF lims(1-3)] lims(4) day token_key_def sample_spend_codecs_simps
        store_x402_spend_state_def word_less_nat_alt)
qed

theorem daily_spends_capped_witness:
  "spends_granted 1 (hex_encode sample_spend_codecs (token_key sample_spend_codecs ''c/k''))
     (sample_spend_codecs, sample_spend_limits, no_files) (replicate 2 (SpendAttempt ''c/k'' 60 86400 no_faults)) = 60"
proof -
  let ?e = "SpendAttempt ''c/k'' 60 86400 no_faults" and ?k = "hex_encode sample_spend_codecs (token_key sample_spend_codecs ''c/k'')"
  let ?s = "(sample_spend_codecs, sample_spend_limits, no_files)"
  have events: "replicate 2 ?e = [?e, ?e]"
    by (simp add: numeral_2_eq_2)
  have "spends_granted 1 ?k ?s (replicate 2 ?e) \<le> unat (100 :: 128 word)"
  proof (rule daily_spends_capped)
    show "x402_spend_state_text sample_spend_codecs st = Some b \<Longrightarrow> de_x402_spend_state sample_spend_codecs b = Some st" for st b
      by (auto simp: sample_spend_codecs_simps split: if_splits)
    show "list_all (survivable True) (replicate 2 ?e)"
      unfolding events by (simp add: no_faults_def)
    show "True \<longrightarrow> has_parent_dir ''/x'' \<and> fs_safe no_files ''/x'' = fs_live no_files ''/x''"
      by (simp add: has_parent_dir_def no_files_def)
  qed (simp_all add: sample_spend_limits_def limits_disabled_def paths_apart_def)
  moreover have "spends_granted 1 ?k ?s (replicate 2 ?e) = 60 \<or> spends_granted 1 ?k ?s (replicate 2 ?e) = 120"
    using sample_payment_granted
    by (simp add: events spends_granted_def spend_granted_def spend_day_def spend_key_def spend_value_def today_def SECS_PER_DAY_def)
  ultimately show ?thesis
    by simp
qed

end
