(* ===== verification/Spec2Isabelle.thy ===== *)
theory Spec2Isabelle
  imports Answer_Truth Gaps Generic_Routes Order_Ledger Spend_Ledger
begin

text \<open>
  The repository holds a custodial signer: a Nitro enclave (\<^verbatim>\<open>src/poc/enclave\<close>) that alone opens the
  exchange and wallet keys of its tenants and signs requests with them, a gateway
  (\<^verbatim>\<open>src/poc/gateway\<close>) that authenticates clients and forwards their requests over vsock, an
  operator tool (\<^verbatim>\<open>src/poc/policy-cli\<close>), and supporting material.  What makes it safe is decided in
  the enclave, and that is what most of this development models: from the frame of bytes that arrives to the
  answer that leaves, with every piece of state that a request may change.

  \<^bold>\<open>How a request runs.\<close>  \<^verbatim>\<open>handler.rs::handle\<close> (theory Dispatch) answers the tenantless actions,
  resolves the bearer token in the signed registry (Registry), takes a token from the customer's bucket
  (Rate_Limiter), applies the tenant's kill switch (\<^verbatim>\<open>tenant_mode_gate\<close>), dispatches to the handler
  of the action, and attaches a signed decision receipt (Receipt).  A signing handler loads the sealed blob
  (Load: KMS or the DEK cache, the envelope, trust on first use, the strict floor), enforces the blob's policy
  (Policy), the caps of its venue (Order_Caps, Hl_Caps, Evm_Caps, Asterdex_Caps), the agent's signed intent
  (Intent with Intent_Ledger), and signs (Venue_Sign, Eip712).

  \<^bold>\<open>Theories, by source file.\<close>
  \<^item> Prelude, Text_Search: Rust's result type and \<^verbatim>\<open>?\<close>, byte strings and the part of \<^verbatim>\<open>str\<close>
    the code uses, big and little endian encodings, and the locale \<^verbatim>\<open>self_delimiting\<close> of
    prefix-free encoders, which the theories that need injectivity of a byte layout interpret.
  \<^item> \<^verbatim>\<open>signer.rs\<close>: Decimal (digit-string arithmetic, exact against rationals), Canonical (canonical
    JSON), Venue_Sign (Kucoin, Binance, Bybit, OKX), Eip712 (Hyperliquid, AsterDEX, x402, Permit2).
  \<^item> \<^verbatim>\<open>intent_ledger.rs\<close>, \<^verbatim>\<open>dek_cache.rs\<close>, \<^verbatim>\<open>tofu.rs\<close>, \<^verbatim>\<open>rate_limiter.rs\<close>,
    \<^verbatim>\<open>registry.rs\<close>, \<^verbatim>\<open>receipt.rs\<close>, \<^verbatim>\<open>kms_client.rs\<close>, \<^verbatim>\<open>envelope.rs\<close>,
    \<^verbatim>\<open>proto.rs\<close>: the theories of the same names.  Each has its state as a record, its operations as
    functions on it, and an invariant that every operation keeps.
  \<^item> \<^verbatim>\<open>handler.rs\<close>: Policy, Intent, Order_Caps, Hl_Caps, Evm_Caps, Asterdex_Caps, Load; then
    Handler_Base (the shape the handlers share), Cex_Handlers, Evm_Handlers, Service_Handlers and Dispatch.
  \<^item> Answers, Enclave_Steps, Answer_Truth and Gaps span the components: the shape of every answer, the
    step relation of the whole enclave state with its reachable states, the truth of receipts, and two
    places where the code does less than its comments say.  Generic_Routes: what the generic signers sign under order caps.
    Float64: the rounding of \<^verbatim>\<open>f64\<close> arithmetic, which Rate_Limiter uses.
  \<^item> Gateway: Gateway_Wire (\<^verbatim>\<open>proto.rs\<close>: error codes on the HTTP wire), Durable_File and Gateway_Limits
    (\<^verbatim>\<open>limits.rs\<close>: rate buckets, daily counters, their files), Day_Record, Order_Ledger and Spend_Ledger (the two daily
    ledgers as instances of one contract, the locale \<^verbatim>\<open>period_ledger\<close>).  The file store distinguishes what programs see from what
    a crash of the host leaves; the daily bounds hold without host crashes, or with them while directory syncs succeed.

  \<^bold>\<open>State and effects.\<close>  \<^verbatim>\<open>enclave_state\<close> collects what the Rust code keeps in statics behind
  mutexes: the limiter, the registry and its key, the DEK cache, the pins, the replay ledger and the receipt
  counters.  A handler maps a request and a state to an answer and a state, so whole requests run one after the other here.
  The process serves connections as concurrent tasks; what the locks make atomic is one access to one store.  Registry models
  challenges and the check and commit of refreshes as interleaved steps, and the reachable states of Enclave_Steps include every
  interleaving of such accesses (\<^verbatim>\<open>enclave_step\<close>), also with a key or nonce read before.
  Time, randomness and ciphertexts are inputs (\<^verbatim>\<open>draws\<close>).  Errors are
  values: every early return and \<^verbatim>\<open>?\<close> of the source is a branch.

  \<^bold>\<open>What is a parameter.\<close>  SHA-256, HMAC, Keccak, AES-GCM, Ed25519, secp256k1, hex and base64, the
  serde decoders, the attestation document and the kmstool process are not part of the repository.  They are
  fields of the record \<^verbatim>\<open>externals\<close> and its extensions; a theorem that needs a documented law of
  one of them (a hash of 32 bytes, a decoder that inverts its encoder) names it as a hypothesis and has a witness
  with a concrete instance.  Theory Sample holds the system that the witnesses of whole requests run on.

  \<^bold>\<open>What the theorems show.\<close>  Across components, in this theory: key-derived material leaves the enclave
  only for a registered, permitted, un-halted tenant whose blob was opened under its own identity and whose
  policy allows the request, and an order that is signed is within the caps of the policy in the blob of that very request and
  signed with the key in it.  Answer_Truth: every answer is a success without an error or a refusal without key material, and
  every receipt states the decision that was taken.  Enclave_Steps:
  bounds and monotonicity hold in all reachable states.  Per component: caps and policies are characterised
  exactly (equivalences, against rational arithmetic or set membership), byte layouts that are signed determine
  what they encode, caches and windows are sound and bounded, optimised scans equal their reference definitions.

  \<^bold>\<open>Bounds.\<close>  Loops are structural or have a measure.  The only fuel is in \<^verbatim>\<open>trim\<close>, where it is the
  length of the string.  Key generation draws until a valid key comes: its draws are a list of inputs, and running out of
  them is \<^verbatim>\<open>None\<close>; every other request is answered.
  Sizes that the code keeps in \<^verbatim>\<open>u64\<close> are 64-bit words where they may wrap.

  \<^bold>\<open>Not modelled.\<close>  Logging, zeroizing of memory, process and socket I/O, overflow and subnormal numbers of \<^verbatim>\<open>f64\<close>
  (the limiter's tokens are rounded, in an unbounded exponent range), the generated serde code, the Solidity contract, the client SDKs and
  the scripts.
  Of the gateway only the error vocabulary and the limits are modelled; its routes and the operator tool are outside
  the enclave's trust boundary, so that nothing they do can widen what the enclave signs.
\<close>

section \<open>Authority and the kill switch\<close>

text \<open>
  C2: No signature without authority.  When a tenant's request is answered with key-derived
  material, the token resolved to a registered identity, the rate limiter had granted the
  request to that identity's customer, the kill switch let the action pass, the action's venue is
  among the venues granted to the identity, and the blob of this request was opened for this identity; the
  policy in it, if any, permits this request, action, method and path (those of the operation where the
  request names one of the Binance operations); on a strict venue the blob carried a policy, and on a strict money
  venue that policy is signed by the baked authority for this customer and venue and
  carries a binding cap.
\<close>

theorem signature_is_authorized:
  assumes "handle X cfg inp req st = Some (resp, st')" "carries_signature resp" "rq_action req \<notin> set TENANTLESS_ACTIONS"
  shows "\<exists>identity venue policy secret_json. resolve_identity X st req = Some identity
    \<and> fst (rl_check (ri_customer_id identity) (in_now inp) (es_limiter st))
    \<and> tenant_mode_gate identity req = Ok ()
    \<and> venue_for_action (rq_action req) = Some venue \<and> venue \<in> set (ri_allowed_venues identity)
    \<and> fst (load_and_parse_blob X cfg inp req identity (rate_charged identity inp st)) = Ok (policy, secret_json)
    \<and> (\<forall>p. policy = Some p \<longrightarrow> policy_permits p (policy_view req))
    \<and> (blob_floor_strict (policy_required cfg) venue \<longrightarrow> policy \<noteq> None)
    \<and> (blob_floor_strict (policy_required cfg) venue \<and> is_money_venue venue \<longrightarrow>
        (\<exists>p. policy = Some p \<and> verify_policy_authority X cfg p (ri_customer_id identity) venue = Ok ()
           \<and> rot3_binding_cap_present venue p))"
proof -
  from handle_signed [OF assms] obtain identity where id: "resolve_identity X st req = Some identity"
    "fst (rl_check (ri_customer_id identity) (in_now inp) (es_limiter st))" "tenant_mode_gate identity req = Ok ()"
    "carries_signature (fst (dispatch X cfg inp req identity (rate_charged identity inp st)))"
    by metis
  obtain policy sj where loads: "loads X cfg inp req identity (rate_charged identity inp st) policy sj"
    using dispatch_loads [OF id(4)] by blast
  from loads_floor [OF loads] obtain venue where venue: "venue_for_action (rq_action req) = Some venue"
    "venue_allowed identity venue" "blob_floor_strict (policy_required cfg) venue \<Longrightarrow> policy \<noteq> None"
    "blob_floor_strict (policy_required cfg) venue \<Longrightarrow> is_money_venue venue \<Longrightarrow>
      \<exists>p. policy = Some p \<and> verify_policy_authority X cfg p (ri_customer_id identity) venue = Ok ()
        \<and> rot3_binding_cap_present venue p"
    by metis
  show ?thesis
    using venue loads_permits [OF loads] id(1-3)
    by (intro exI [of _ identity] exI [of _ venue] exI [of _ policy] exI [of _ sj]) (simp add: venue_allowed_def list_ex_iff)
qed

theorem signature_is_authorized_witness:
  "\<exists>resp st'. handle sample_sys sample_config sample_draws sample_order_request (sample_state Active) = Some (resp, st')
     \<and> carries_signature resp \<and> policy_permits sample_policy sample_order_request
     \<and> verify_policy_authority sample_sys sample_config sample_policy ''c'' ''binance'' = Ok ()
     \<and> rot3_binding_cap_present ''binance'' sample_policy"
proof -
  obtain resp st' where h: "handle sample_sys sample_config sample_draws sample_order_request (sample_state Active) = Some (resp, st')"
    "carries_signature resp"
    by (rule sample_order_signed)
  have act: "rq_action sample_order_request \<notin> set TENANTLESS_ACTIONS" "venue_for_action (rq_action sample_order_request) = Some ''binance''"
    "policy_required sample_config" "is_money_venue ''binance''" "ri_customer_id (sample_tenant Active) = ''c''"
    by code_simp+
  have load: "fst (load_and_parse_blob sample_sys sample_config sample_draws sample_order_request (sample_tenant Active)
      (rate_charged (sample_tenant Active) sample_draws (sample_state Active))) = Ok (Some sample_policy, Null)"
    using sample_opens [OF tenant_requests(2) act(2)] by simp
  from signature_is_authorized [OF h act(1)] h act(2-5) show ?thesis
    by (auto simp: blob_floor_strict_def sample_resolves load policy_view_def)
qed

text \<open>
  C3: The kill switch.  Take any request under the token of a tenant whose registered mode is halted.  The answer carries
  no exchange headers, no Hyperliquid signature and no attested data, whatever the action.  Of the tenant's actions (all but
  six: \<^verbatim>\<open>ping\<close>, the two registry actions, the two provisioning actions and \<^verbatim>\<open>attestation\<close>) none
  gets any key-derived material, and apart from the two observing ones the answer is an error.  The six do not belong to a tenant: their answer is the
  same whatever token comes with the request.  And a tenant in cancel-only mode gets key-derived material only for an
  action the mode lets pass.
\<close>

theorem halted_signs_nothing:
  assumes "handle X cfg inp req st = Some (resp, st')" "resolve_identity X st req = Some identity"
  shows "(ri_mode identity = Halted \<longrightarrow> rs_headers resp = None \<and> rs_hl_signature resp = None \<and> rs_attested resp = None)
    \<and> (ri_mode identity = Halted \<and> rq_action req \<notin> set TENANTLESS_ACTIONS \<longrightarrow> \<not> carries_signature resp)
    \<and> (ri_mode identity = Halted \<and> rq_action req \<notin> set TENANTLESS_ACTIONS \<and> rq_action req \<notin> set OBSERVING_ACTIONS
         \<longrightarrow> rs_error resp \<noteq> None)
    \<and> (ri_mode identity = CancelOnly \<and> rq_action req \<notin> set TENANTLESS_ACTIONS \<and> carries_signature resp
         \<longrightarrow> cancel_only_allows req)
    \<and> (rq_action req \<in> set TENANTLESS_ACTIONS
         \<longrightarrow> (\<forall>token. handle X cfg inp (req\<lparr>rq_opaque_token := token\<rparr>) st = Some (resp, st')))"
proof (cases "rq_action req \<in> set TENANTLESS_ACTIONS")
  case True
  then show ?thesis
    using tenantless_no_venue_signature [OF assms(1) True] tenantless_ignores_token [OF True, of X cfg inp _ st] assms(1)
    by (auto simp: venue_signature_def)
next
  case False
  have resp: "resp = fst (handle_tenant X cfg inp req st)"
    using assms(1) by (simp add: handle_tenantful [OF False])
  have gate: "tenant_mode_gate identity req = Ok () \<and> rq_action req \<notin> set OBSERVING_ACTIONS" if "carries_signature resp"
  proof -
    from handle_signed [OF assms(1) that False] obtain i where i: "resolve_identity X st req = Some i"
      "tenant_mode_gate i req = Ok ()" "carries_signature (fst (dispatch X cfg inp req i (rate_charged i inp st)))"
      by metis
    obtain policy sj where "loads X cfg inp req i (rate_charged i inp st) policy sj"
      using dispatch_loads [OF i(3)] by blast
    then obtain venue where "venue_for_action (rq_action req) = Some venue"
      using loads_floor by metis
    then show ?thesis
      using i(1,2) assms(2) by (auto simp: OBSERVING_ACTIONS_def venue_for_action_def)
  qed
  have halted: "\<not> carries_signature resp" if "ri_mode identity = Halted"
    using gate that by (auto simp: tenant_mode_gate_def split: if_splits)
  have "rs_error resp \<noteq> None" if "tenant_mode_gate identity req \<noteq> Ok ()"
    using handle_tenant_denied [OF assms(2) that] resp by simp
  moreover have "rs_headers resp = None \<and> rs_hl_signature resp = None \<and> rs_attested resp = None" if "ri_mode identity = Halted"
    using halted [OF that] by (simp add: carries_signature_def)
  ultimately show ?thesis
    using gate halted False by (auto simp: tenant_mode_gate_def split: if_splits)
qed

theorem halted_signs_nothing_witness:
  "\<exists>resp st'. handle sample_sys sample_config sample_draws sample_order_request (sample_state Halted) = Some (resp, st')
     \<and> \<not> carries_signature resp \<and> rs_error resp \<noteq> None"
proof -
  have act: "rq_action sample_order_request \<notin> set TENANTLESS_ACTIONS" "rq_action sample_order_request \<notin> set OBSERVING_ACTIONS"
    by code_simp+
  obtain resp st' where h: "handle sample_sys sample_config sample_draws sample_order_request (sample_state Halted) = Some (resp, st')"
    unfolding handle_tenantful [OF act(1)] by (metis prod.collapse)
  have mode: "ri_mode (sample_tenant Halted) = Halted"
    by (simp add: sample_tenant_def)
  show ?thesis
    using halted_signs_nothing [OF h sample_resolves [OF tenant_requests(2)]] mode act h by blast
qed


section \<open>Signed orders\<close>

definition order_venue :: "bytes \<Rightarrow> bytes" where
  "order_venue action = (if action = ''sign_binance_order'' then ''binance'' else ''okx'')"

text \<open>
  The bytes that a signed order response commits to: the canonical body is built from the request's order, and
  the signature header is the venue's MAC over that body under the key in the opened blob.
\<close>

definition commits_to ::
  "'x enclave_sys_scheme \<Rightarrow> json \<Rightarrow> bytes \<Rightarrow> order_request \<Rightarrow> 64 word \<Rightarrow> sign_response \<Rightarrow> bool" where
  "commits_to X secret_json action order ts resp \<longleftrightarrow>
     (\<exists>canonical headers. rs_canonical_body resp = Some canonical \<and> rs_headers resp = Some headers
        \<and> (if action = ''sign_binance_order''
           then build_binance_order_query order = Ok canonical
             \<and> (\<exists>secret. de_key_secret X secret_json = Some secret
                  \<and> map_of headers ''signature'' = Some (hex_encode X (hmac_sha256 X (ks_secret secret) (binance_full_query ts canonical))))
           else build_okx_order_body order = Ok canonical
             \<and> (\<exists>secret. de_pass_secret X secret_json = Some secret
                  \<and> map_of headers ''OK-ACCESS-SIGN'' = Some (b64_encode X (hmac_sha256 X (ps_secret secret)
                      (okx_canonical (okx_iso8601_from_ms ts) ''POST'' ''/api/v5/trade/order'' canonical))))))"

lemma load_keeps_ledger: "load_and_parse_blob X cfg inp req identity st = (r, st1) \<Longrightarrow> es_ledger st1 = es_ledger st"
  using load_frame [of X cfg inp req identity st] by auto

lemma binance_order_facts:
  assumes a: "a = ''sign_binance_order''" and "rq_action req = a"
    and "carries_signature (fst (dispatch X cfg inp req identity st))"
  obtains order ts policy sj where "rq_order req = Some order" "rq_timestamp_ms req = Some ts" "loads X cfg inp req identity st policy sj"
    "enforce_order_cap policy (or_symbol order) (Some (or_qty order)) (or_price order) = Ok ()"
    "fst (enforce_agent_intent_order X policy identity (order_venue a) a ts order req (es_ledger st)) = Ok ()"
    "commits_to X sj a order ts (fst (dispatch X cfg inp req identity st))"
proof -
  have h: "dispatch X cfg inp req identity st = handle_sign_binance_order X cfg inp req identity st"
    using a assms(2) by (simp add: dispatch_def sign_handlers_def)
  obtain order ts where req: "rq_order req = Some order" "rq_timestamp_ms req = Some ts"
    using assms(3) unfolding h by (rule order_handlers_signed [OF disjI1])
  show thesis
    using assms(3) unfolding h structured_handlers_shape(1) [OF req(2,1)]
  proof (rule structured_signed)
    fix policy sj hash st1 canonical secret headers
    assume "load_and_parse_blob X cfg inp req identity st = (Ok (policy, sj), st1)" "enforce_policy X policy req = Ok hash"
      and caps: "enforce_order_cap policy (or_symbol order) (Some (or_qty order)) (or_price order) = Ok ()"
      "fst (enforce_agent_intent_order X policy identity ''binance'' ''sign_binance_order'' ts order req (es_ledger st1)) = Ok ()"
      and built: "build_binance_order_query order = Ok canonical" "de_key_secret X sj = Some secret"
      "compute_binance_headers X (ks_secret secret) (ks_key secret) ts canonical [] = Ok headers"
      and resp: "fst (order_shape X cfg inp req identity st
          (\<lambda>policy. enforce_order_cap policy (or_symbol order) (Some (or_qty order)) (or_price order))
          (\<lambda>policy. enforce_agent_intent_order X policy identity ''binance'' ''sign_binance_order'' ts order req)
          (order_sign (build_binance_order_query order) (de_key_secret X) key_secret_is_complete
            (\<lambda>s c. compute_binance_headers X (ks_secret s) (ks_key s) ts c []) INTERNAL_ERROR))
          = with_canonical_body canonical (ok_headers_under hash headers)"
    then have "loads X cfg inp req identity st policy sj" "es_ledger st1 = es_ledger st"
      using a assms(2) load_keeps_ledger [of X cfg inp req identity st] by (simp_all add: loads_def loads_as_def policy_view_def)
    moreover have "commits_to X sj a order ts (fst (dispatch X cfg inp req identity st))"
      unfolding h structured_handlers_shape(1) [OF req(2,1)] resp commits_to_def
      using built a
      by (auto simp: rsp_defs ok_headers_under_def compute_binance_headers_def sign_binance_def binance_canonical_def
          headers_of_map_of result_simps)
    ultimately show thesis
      using that [OF req] caps a by (simp add: order_venue_def)
  qed (auto dest: refusals)
qed

lemma okx_order_facts:
  assumes a: "a = ''sign_okx_order''" and "rq_action req = a"
    and "carries_signature (fst (dispatch X cfg inp req identity st))"
  obtains order ts policy sj where "rq_order req = Some order" "rq_timestamp_ms req = Some ts" "loads X cfg inp req identity st policy sj"
    "enforce_order_cap policy (or_symbol order) (Some (or_qty order)) (or_price order) = Ok ()"
    "fst (enforce_agent_intent_order X policy identity (order_venue a) a ts order req (es_ledger st)) = Ok ()"
    "commits_to X sj a order ts (fst (dispatch X cfg inp req identity st))"
proof -
  have h: "dispatch X cfg inp req identity st = handle_sign_okx_order X cfg inp req identity st"
    using a assms(2) by (simp add: dispatch_def sign_handlers_def)
  obtain order ts where req: "rq_order req = Some order" "rq_timestamp_ms req = Some ts"
    using assms(3) unfolding h by (rule order_handlers_signed [OF disjI2])
  show thesis
    using assms(3) unfolding h structured_handlers_shape(2) [OF req(2,1)]
  proof (rule structured_signed)
    fix policy sj hash st1 canonical secret headers
    assume "load_and_parse_blob X cfg inp req identity st = (Ok (policy, sj), st1)" "enforce_policy X policy req = Ok hash"
      and caps: "enforce_order_cap policy (or_symbol order) (Some (or_qty order)) (or_price order) = Ok ()"
      "fst (enforce_agent_intent_order X policy identity ''okx'' ''sign_okx_order'' ts order req (es_ledger st1)) = Ok ()"
      and built: "build_okx_order_body order = Ok canonical" "de_pass_secret X sj = Some secret"
      "compute_okx_headers X (ps_secret secret) (ps_passphrase secret) (ps_key secret) ts ''POST'' ''/api/v5/trade/order'' canonical
         = Ok headers"
      and resp: "fst (order_shape X cfg inp req identity st
          (\<lambda>policy. enforce_order_cap policy (or_symbol order) (Some (or_qty order)) (or_price order))
          (\<lambda>policy. enforce_agent_intent_order X policy identity ''okx'' ''sign_okx_order'' ts order req)
          (order_sign (build_okx_order_body order) (de_pass_secret X) pass_secret_is_complete
            (\<lambda>s c. compute_okx_headers X (ps_secret s) (ps_passphrase s) (ps_key s) ts ''POST'' ''/api/v5/trade/order'' c)
            BAD_REQUEST))
          = with_canonical_body canonical (ok_headers_under hash headers)"
    then have "loads X cfg inp req identity st policy sj" "es_ledger st1 = es_ledger st"
      using a assms(2) load_keeps_ledger [of X cfg inp req identity st] by (simp_all add: loads_def loads_as_def policy_view_def)
    moreover have "commits_to X sj a order ts (fst (dispatch X cfg inp req identity st))"
      unfolding h structured_handlers_shape(2) [OF req(2,1)] resp commits_to_def
      using built a
      by (auto simp: rsp_defs ok_headers_under_def compute_okx_headers_def sign_okx_def
          headers_of_map_of result_simps Let_def split: if_splits)
    ultimately show thesis
      using that [OF req] caps a by (simp add: order_venue_def)
  qed (auto dest: refusals)
qed

text \<open>
  C1: A signed order is within its caps and is the order that was requested.  When a structured
  Binance or OKX order is answered with headers, the request carried an order; the blob of this request was opened for the
  resolved identity, and the policy in it, if it has order caps, lists the
  symbol with an entry that the exact quantity and notional value respect; an agent-intent key
  in that policy has verified this order and its intent was not in the replay ledger; and the
  signature is the venue's MAC, under the key in that blob, over the canonical body built from exactly this order.
\<close>

theorem signed_order_within_caps:
  assumes "handle X cfg inp req st = Some (resp, st')" "carries_signature resp"
    and "rq_action req = ''sign_binance_order'' \<or> rq_action req = ''sign_okx_order''"
  shows "\<exists>identity order ts policy secret_json. resolve_identity X st req = Some identity
    \<and> rq_order req = Some order \<and> rq_timestamp_ms req = Some ts
    \<and> fst (load_and_parse_blob X cfg inp req identity (rate_charged identity inp st)) = Ok (policy, secret_json)
    \<and> (\<forall>caps. policy_order_caps policy = Some caps \<longrightarrow>
         (\<exists>entry. find (\<lambda>c. oc_symbol c = or_symbol order) caps = Some entry
            \<and> within_cap entry (or_qty order) (or_price order)))
    \<and> fst (enforce_agent_intent_order X policy identity (order_venue (rq_action req)) (rq_action req) ts order req (es_ledger st)) = Ok ()
    \<and> commits_to X secret_json (rq_action req) order ts resp"
proof -
  have "rq_action req \<notin> set TENANTLESS_ACTIONS"
    using assms(3) by (auto simp: TENANTLESS_ACTIONS_def)
  from handle_signed [OF assms(1,2) this] obtain identity p r where id: "resolve_identity X st req = Some identity"
    "carries_signature (fst (dispatch X cfg inp req identity (rate_charged identity inp st)))"
    and resp: "resp = fst (attach X p (fst (dispatch X cfg inp req identity (rate_charged identity inp st))) r)"
    by metis
  let ?st = "rate_charged identity inp st"
  have ledger: "es_ledger ?st = es_ledger st"
    by (simp add: rate_charged_def)
  obtain order ts policy sj where facts: "rq_order req = Some order" "rq_timestamp_ms req = Some ts"
    "loads X cfg inp req identity ?st policy sj"
    "enforce_order_cap policy (or_symbol order) (Some (or_qty order)) (or_price order) = Ok ()"
    "fst (enforce_agent_intent_order X policy identity (order_venue (rq_action req)) (rq_action req) ts order req (es_ledger st)) = Ok ()"
    "commits_to X sj (rq_action req) order ts (fst (dispatch X cfg inp req identity ?st))"
    using assms(3) binance_order_facts [OF _ refl id(2)] okx_order_facts [OF _ refl id(2)]
    unfolding ledger by (elim disjE) (simp, metis)+
  have "\<exists>entry. find (\<lambda>c. oc_symbol c = or_symbol order) caps = Some entry \<and> within_cap entry (or_qty order) (or_price order)"
    if "policy_order_caps policy = Some caps" for caps
    using facts(4) that by (cases policy) (auto simp: policy_order_caps_def enforce_order_cap_Ok)
  moreover have "commits_to X sj (rq_action req) order ts resp"
    using facts(6) by (simp add: commits_to_def resp)
  ultimately show ?thesis
    using id(1) facts(1,2,5) loads_permits(1) [OF facts(3)] by blast
qed

theorem signed_order_within_caps_witness:
  "\<exists>resp st' entry. handle sample_sys sample_config sample_draws sample_order_request (sample_state Active) = Some (resp, st')
     \<and> policy_order_caps (Some sample_policy) = Some [entry] \<and> within_cap entry ''0.5'' (Some ''61000.5'')
     \<and> commits_to sample_sys Null ''sign_binance_order'' sample_order 7 resp"
proof -
  obtain resp st' where h: "handle sample_sys sample_config sample_draws sample_order_request (sample_state Active) = Some (resp, st')"
    "carries_signature resp"
    by (rule sample_order_signed)
  have req: "rq_action sample_order_request = ''sign_binance_order''" "rq_order sample_order_request = Some sample_order"
    "rq_timestamp_ms sample_order_request = Some 7" "or_qty sample_order = ''0.5''" "or_price sample_order = Some ''61000.5''"
    by (simp_all add: sample_order_request_def sample_request_def sample_load_def sample_sign_request_def sample_order_def)
  let ?cap = "\<lparr>oc_symbol = ''BTCUSDT'', oc_max_qty = ''0.5'', oc_max_notional = Some ''31000''\<rparr>"
  have caps: "policy_order_caps (Some sample_policy) = Some [?cap]"
    by (simp add: policy_order_caps_def sample_policy_def)
  have load: "fst (load_and_parse_blob sample_sys sample_config sample_draws sample_order_request (sample_tenant Active)
      (rate_charged (sample_tenant Active) sample_draws (sample_state Active))) = Ok (Some sample_policy, Null)"
    using sample_opens [OF tenant_requests(2), of "''binance''"] by (simp add: venue_for_action_def)
  from signed_order_within_caps [OF h disjI1 [OF req(1)]] caps have
    "\<exists>entry. find (\<lambda>c. oc_symbol c = or_symbol sample_order) [?cap] = Some entry
       \<and> within_cap entry (or_qty sample_order) (or_price sample_order)"
    and commits: "commits_to sample_sys Null ''sign_binance_order'' sample_order 7 resp"
    using req(1-3) by (auto simp: sample_resolves load)
  then have "within_cap ?cap ''0.5'' (Some ''61000.5'')"
    using req(4,5) by (auto split: if_splits)
  then show ?thesis
    using h(1) commits caps by blast
qed


section \<open>Signed Hyperliquid actions\<close>

text \<open>
  C4: A mainnet Hyperliquid order is bounded by a policy of the baked authority, whatever the
  build flag says.  When a mainnet order action is answered with a signature, the blob of this request was opened for
  the resolved identity and carried a policy that the authority signed for this customer and
  venue and that has Hyperliquid caps; the action has between 1 and 64 orders; for every asset it
  trades, the exact sums of size and of size times price over all its orders respect the cap of that policy;
  and the signature, under the key in that blob, is over this very action, nonce and vault on the mainnet source.
\<close>

theorem hl_main_order_bounded:
  assumes "handle X cfg inp req st = Some (resp, st')" "carries_signature resp"
    and "rq_action req = ''sign_hyperliquid_main_order''"
  shows "\<exists>identity p secret_json caps action orders. resolve_identity X st req = Some identity
    \<and> fst (load_and_parse_blob X cfg inp req identity (rate_charged identity inp st)) = Ok (Some p, secret_json)
    \<and> policy_permits p req
    \<and> verify_policy_authority X cfg p (ri_customer_id identity) ''hyperliquid_main'' = Ok ()
    \<and> pl_hl_order_caps p = Some caps
    \<and> rq_hl_action req = Some action \<and> entries_of ''orders'' action = Some orders
    \<and> 0 < length orders \<and> length orders \<le> 64
    \<and> (\<forall>a. orders_of orders a \<noteq> [] \<longrightarrow> asset_bounded caps orders a)
    \<and> (\<exists>secret pk nonce vault sig. rs_hl_signature resp = Some sig \<and> rq_nonce req = Some nonce \<and> request_vault X req = Ok vault
         \<and> de_hyperliquid X secret_json = Some secret \<and> parse_evm_private_key X (hl_private_key secret) = Ok pk
         \<and> sign_hyperliquid X pk action nonce vault ''a'' = Ok sig)"
proof -
  have "rq_action req \<notin> set TENANTLESS_ACTIONS"
    using assms(3) by (auto simp: TENANTLESS_ACTIONS_def)
  from handle_signed [OF assms(1,2) this] obtain identity q r where id: "resolve_identity X st req = Some identity"
    "carries_signature (fst (dispatch X cfg inp req identity (rate_charged identity inp st)))"
    and resp: "resp = fst (attach X q (fst (dispatch X cfg inp req identity (rate_charged identity inp st))) r)"
    by metis
  let ?st = "rate_charged identity inp st"
  have disp: "dispatch X cfg inp req identity ?st
      = validated validate_order_action (sign_hyperliquid_source ''a'' X cfg inp) req identity ?st"
    using assms(3) by (simp add: dispatch_def sign_handlers_def hl_handler_defs)
  from hyperliquid_signed [OF id(2) [unfolded disp]] obtain action nonce vault policy sj st1 h secret pk sig where
    act: "rq_hl_action req = Some action" "validate_order_action action" "rq_nonce req = Some nonce" "request_vault X req = Ok vault"
    and load: "load_and_parse_blob X cfg inp req identity ?st = (Ok (policy, sj), st1)" "enforce_policy X policy req = Ok h"
    and caps: "enforce_hl_caps X policy action vault = Ok ()"
    and key: "de_hyperliquid X sj = Some secret" "parse_evm_private_key X (hl_private_key secret) = Ok pk"
    and sig: "sign_hyperliquid X pk action nonce vault ''a'' = Ok sig"
      "fst (dispatch X cfg inp req identity ?st) = with_policy_hash h (rsp_ok_hl_signature sig)"
    unfolding disp by metis
  have loads: "loads X cfg inp req identity ?st policy sj" and view: "policy_view req = req"
    using load assms(3) by (simp_all add: loads_def loads_as_def policy_view_def)
  have venue: "venue_for_action (rq_action req) = Some ''hyperliquid_main''"
    using assms(3) by (simp add: venue_for_action_def)
  from loads_floor [OF loads] venue obtain p where p: "policy = Some p"
    "verify_policy_authority X cfg p (ri_customer_id identity) ''hyperliquid_main'' = Ok ()"
    "rot3_binding_cap_present ''hyperliquid_main'' p"
    by (auto simp: blob_floor_strict_def floor_is_unconditional_def is_money_venue_def)
  obtain hl_caps where hl_caps: "pl_hl_order_caps p = Some hl_caps"
    using p(3) by (auto simp: rot3_binding_cap_present_def is_hl_venue_def non_empty_def split: option.splits)
  obtain orders where orders: "entries_of ''orders'' action = Some orders" "orders \<noteq> []" "length orders \<le> 64"
    using act(2) by (auto simp: validate_order_action_def hl_entry_arrays_within_ceiling_def HL_MAX_ENTRIES_PER_ACTION_def
        split: option.splits)
  have bounded: "asset_bounded hl_caps orders a" if "orders_of orders a \<noteq> []" for a
    using accepted_assets_bounded [OF caps [unfolded p(1)] hl_caps orders(1) [unfolded entries_of_def] that] .
  have "rs_hl_signature resp = Some sig"
    using sig(2) by (simp add: resp rsp_defs)
  then have "\<exists>secret pk nonce vault sig. rs_hl_signature resp = Some sig \<and> rq_nonce req = Some nonce \<and> request_vault X req = Ok vault
         \<and> de_hyperliquid X sj = Some secret \<and> parse_evm_private_key X (hl_private_key secret) = Ok pk
         \<and> sign_hyperliquid X pk action nonce vault ''a'' = Ok sig"
    using act(3,4) key sig(1) by blast
  then show ?thesis
    using id(1) loads_permits [OF loads] p(1,2) hl_caps act(1) orders bounded view
    by (intro exI [of _ identity] exI [of _ p] exI [of _ sj] exI [of _ hl_caps] exI [of _ action] exI [of _ orders]) simp
qed

theorem hl_main_order_bounded_witness:
  "\<exists>resp st' orders caps. handle sample_sys sample_config sample_draws sample_hl_request (sample_state Active) = Some (resp, st')
     \<and> rs_hl_signature resp \<noteq> None \<and> entries_of ''orders'' sample_hl_action = Some orders \<and> length orders = 2
     \<and> pl_hl_order_caps sample_policy = Some caps \<and> asset_bounded caps orders 7"
proof -
  obtain resp st' where h: "handle sample_sys sample_config sample_draws sample_hl_request (sample_state Active) = Some (resp, st')"
    "carries_signature resp"
    by (rule sample_hl_signed)
  define orders where "orders = [sample_hl_order ''0.4'' ''10'', sample_hl_order ''0.6'' ''20'']"
  have req: "rq_hl_action sample_hl_request = Some sample_hl_action" "entries_of ''orders'' sample_hl_action = Some orders"
    "orders_of orders 7 \<noteq> []" "length orders = 2"
    by (simp_all add: sample_hl_request_def entries_of_def sample_hl_action_def orders_def orders_of_def sample_hl_order_def
        order_asset_def)
  have load: "fst (load_and_parse_blob sample_sys sample_config sample_draws sample_hl_request (sample_tenant Active)
      (rate_charged (sample_tenant Active) sample_draws (sample_state Active))) = Ok (Some sample_policy, Null)"
    using sample_opens [OF tenant_requests(3), of "''hyperliquid_main''"] by (simp add: venue_for_action_def)
  show ?thesis
    using hl_main_order_bounded [OF h] req h by (auto simp: sample_resolves load)
qed

end
